(* ===== verification/Kit_Prelude.thy ===== *)
theory Kit_Prelude
  imports
    Main
    "HOL-Library.Word"
    "HOL-Library.Char_ord"
    "HOL-Library.List_Lexorder"
begin

text \<open>
  Shared vocabulary of the development: bytes, the string operations of the JavaScript
  standard library that the sources use, decimal printing, UTF-8, and a small theory of
  transition systems with an invariant.

  A HOL \<^typ>\<open>string\<close> stands for a JavaScript string whose UTF-16 code units are all below
  256; on that range \<open>toLowerCase\<close>, \<open>trim\<close>, the default sort order and the UTF-8 encoding
  are written out exactly.
\<close>

named_theorems js_simps \<open>equations of the modelled JavaScript string operations\<close>
named_theorems wf_intros \<open>well-formedness preservation rules\<close>

type_synonym byte = "8 word"
type_synonym bytes = "byte list"

section \<open>Characters and strings\<close>

definition code_unit :: "char \<Rightarrow> nat" where
  "code_unit c = of_char c"

definition unit_char :: "nat \<Rightarrow> char" where
  "unit_char n = char_of n"

lemma code_unit_less [simp]: "code_unit c < 256"
  by (simp add: code_unit_def)

lemma unit_char_code_unit [simp]: "unit_char (code_unit c) = c"
  by (simp add: code_unit_def unit_char_def)

lemma code_unit_unit_char: "n < 256 \<Longrightarrow> code_unit (unit_char n) = n"
  by (simp add: code_unit_def unit_char_def)

lemma code_unit_eq_iff [simp]: "code_unit c = code_unit d \<longleftrightarrow> c = d"
  by (metis unit_char_code_unit)

text \<open>\<open>String.prototype.toLowerCase\<close> below U+0100: ASCII letters and the capital letters
  U+00C0 to U+00DE except the multiplication sign U+00D7.\<close>

definition lower_char :: "char \<Rightarrow> char" where
  "lower_char c =
     (let n = code_unit c in
      if 65 \<le> n \<and> n \<le> 90 \<or> 192 \<le> n \<and> n \<le> 222 \<and> n \<noteq> 215 then unit_char (n + 32) else c)"

definition toLowerCase :: "string \<Rightarrow> string" where
  "toLowerCase s = map lower_char s"

text \<open>JavaScript white space below U+0100, which is also what \<open>\s\<close> matches there.\<close>

definition is_space :: "char \<Rightarrow> bool" where
  "is_space c \<longleftrightarrow> code_unit c \<in> {9, 10, 11, 12, 13, 32, 160}"

definition trim :: "string \<Rightarrow> string" where
  "trim s = rev (dropWhile is_space (rev (dropWhile is_space s)))"

text \<open>\<open>s.split(c)\<close> for a one-character separator.\<close>

fun split_on :: "char \<Rightarrow> string \<Rightarrow> string list" where
  "split_on c [] = [[]]"
| "split_on c (x # xs) =
     (if x = c then [] # split_on c xs
      else (case split_on c xs of [] \<Rightarrow> [[x]] | w # ws \<Rightarrow> (x # w) # ws))"

fun join :: "string \<Rightarrow> string list \<Rightarrow> string" where
  "join sep [] = []"
| "join sep [w] = w"
| "join sep (w # v # ws) = w @ sep @ join sep (v # ws)"

definition startsWith :: "string \<Rightarrow> string \<Rightarrow> bool" where
  "startsWith s p \<longleftrightarrow> take (length p) s = p"

text \<open>\<open>s.includes(p)\<close>.\<close>

fun includesSub :: "string \<Rightarrow> string \<Rightarrow> bool" where
  "includesSub [] p \<longleftrightarrow> p = []"
| "includesSub (c # s) p \<longleftrightarrow> startsWith (c # s) p \<or> includesSub s p"

definition newline :: string where
  "newline = [unit_char 10]"

lemma lower_char_idem [simp]: "lower_char (lower_char c) = lower_char c"
  by (auto simp: lower_char_def Let_def code_unit_unit_char)

lemma toLowerCase_idem [simp]: "toLowerCase (toLowerCase s) = toLowerCase s"
  by (simp add: toLowerCase_def)

lemma toLowerCase_append [simp]: "toLowerCase (s @ t) = toLowerCase s @ toLowerCase t"
  by (simp add: toLowerCase_def)

lemma toLowerCase_Nil [simp]: "toLowerCase [] = []"
  by (simp add: toLowerCase_def)

lemma length_toLowerCase [simp]: "length (toLowerCase s) = length s"
  by (simp add: toLowerCase_def)

lemma is_space_lower [simp]: "is_space (lower_char c) = is_space c"
  by (auto simp: is_space_def lower_char_def Let_def code_unit_unit_char)

lemma split_on_not_Nil [simp]: "split_on c s \<noteq> []"
  by (induction s) (auto split: list.splits)

lemma split_on_no_sep: "c \<notin> set s \<Longrightarrow> split_on c s = [s]"
  by (induction s) auto

lemma split_on_append_sep:
  "c \<notin> set s \<Longrightarrow> split_on c (s @ c # t) = s # split_on c t"
  by (induction s) auto

lemma split_on_pieces: "w \<in> set (split_on c s) \<Longrightarrow> c \<notin> set w"
proof (induction s arbitrary: w)
  case Nil
  then show ?case by simp
next
  case (Cons x xs)
  then show ?case by (cases "split_on c xs") (auto split: if_splits)
qed

lemma split_on_join:
  "ws \<noteq> [] \<Longrightarrow> (\<And>w. w \<in> set ws \<Longrightarrow> c \<notin> set w) \<Longrightarrow> split_on c (join [c] ws) = ws"
  by (induction "[c]" ws rule: join.induct) (auto simp: split_on_no_sep split_on_append_sep)

lemma join_split_on: "join [c] (split_on c s) = s"
proof (induction s)
  case Nil
  then show ?case by simp
next
  case (Cons x xs)
  show ?case
  proof (cases "split_on c xs")
    case Nil
    then show ?thesis by simp
  next
    case (Cons w ws)
    with \<open>join [c] (split_on c xs) = xs\<close> show ?thesis by (cases ws) auto
  qed
qed

text \<open>Lower-casing commutes with trimming, so a trimmed and lower-cased string is a fixed
  point of both.\<close>

lemma toLowerCase_trim: "toLowerCase (trim s) = trim (toLowerCase s)"
  by (simp add: trim_def toLowerCase_def rev_map dropWhile_map o_def)

lemma dropWhile_rev_idem: "dropWhile P (rev (dropWhile P (rev (dropWhile P s)))) =
  rev (dropWhile P (rev (dropWhile P s)))"
proof (cases "dropWhile P s")
  case Nil
  show ?thesis unfolding Nil by simp
next
  case (Cons x xs)
  then have np: "\<not> P x" by (metis dropWhile_eq_Cons_conv)
  have "dropWhile P (rev xs @ [x]) = dropWhile P (rev xs) @ [x] \<or> dropWhile P (rev xs @ [x]) = [x]"
    using np by (simp add: dropWhile_append)
  with np Cons show ?thesis by auto
qed

lemma trim_idem [simp]: "trim (trim s) = trim s"
  by (simp add: trim_def dropWhile_rev_idem)

section \<open>Decimal numbers\<close>

definition digit_char :: "nat \<Rightarrow> char" where
  "digit_char d = unit_char (48 + d)"

definition is_digit :: "char \<Rightarrow> bool" where
  "is_digit c \<longleftrightarrow> 48 \<le> code_unit c \<and> code_unit c \<le> 57"

fun show_nat :: "nat \<Rightarrow> string" where
  "show_nat n = (if n < 10 then [digit_char n] else show_nat (n div 10) @ [digit_char (n mod 10)])"

declare show_nat.simps [simp del]

definition read_nat :: "string \<Rightarrow> nat" where
  "read_nat s = foldl (\<lambda>n c. 10 * n + (code_unit c - 48)) 0 s"

lemma is_digit_digit_char [simp]: "d < 10 \<Longrightarrow> is_digit (digit_char d)"
  by (simp add: is_digit_def digit_char_def code_unit_unit_char)

lemma show_nat_digits: "c \<in> set (show_nat n) \<Longrightarrow> is_digit c"
proof (induction n rule: show_nat.induct)
  case (1 n)
  then show ?case
    by (cases "n < 10") (auto simp: show_nat.simps [of n])
qed

lemma show_nat_not_Nil [simp]: "show_nat n \<noteq> []"
  by (subst show_nat.simps) simp

lemma read_show_nat [simp]: "read_nat (show_nat n) = n"
proof (induction n rule: show_nat.induct)
  case (1 n)
  then show ?case
    by (cases "n < 10")
      (auto simp: show_nat.simps [of n] read_nat_def digit_char_def code_unit_unit_char)
qed

lemma show_nat_inject [simp]: "show_nat m = show_nat n \<longleftrightarrow> m = n"
  by (metis read_show_nat)

lemma colon_not_in_show_nat [simp]: "CHR '':'' \<notin> set (show_nat n)"
  using show_nat_digits by (fastforce simp: is_digit_def code_unit_def)

section \<open>UTF-8 and byte length\<close>

definition utf8_char :: "char \<Rightarrow> bytes" where
  "utf8_char c =
     (let n = code_unit c in
      if n < 128 then [of_nat n] else [of_nat (192 + n div 64), of_nat (128 + n mod 64)])"

definition utf8 :: "string \<Rightarrow> bytes" where
  "utf8 s = concat (map utf8_char s)"

definition byteLength :: "string \<Rightarrow> nat" where
  "byteLength s = length (utf8 s)"

lemma utf8_Nil [simp]: "utf8 [] = []"
  by (simp add: utf8_def)

lemma utf8_Cons: "utf8 (c # s) = utf8_char c @ utf8 s"
  by (simp add: utf8_def)

lemma utf8_append [simp]: "utf8 (s @ t) = utf8 s @ utf8 t"
  by (simp add: utf8_def)

lemma utf8_char_not_Nil [simp]: "utf8_char c \<noteq> []"
  by (simp add: utf8_char_def Let_def)

lemma byteLength_append [simp]: "byteLength (s @ t) = byteLength s + byteLength t"
  by (simp add: byteLength_def)

lemma byteLength_pos: "s \<noteq> [] \<Longrightarrow> 0 < byteLength s"
  by (cases s) (simp_all add: byteLength_def utf8_Cons)

lemma of_nat_byte_eq:
  "m < 256 \<Longrightarrow> n < 256 \<Longrightarrow> (of_nat m :: byte) = of_nat n \<longleftrightarrow> m = n"
  by (simp add: word_of_nat_eq_iff take_bit_nat_def)

lemma utf8_char_prefix_free:
  assumes "utf8_char c @ r = utf8_char d @ q"
  shows "c = d \<and> r = q"
proof -
  have lc: "code_unit e div 64 < 4" for e
    using code_unit_less [of e] by (simp add: div_less_iff_less_mult)
  have eq: "code_unit c = code_unit d"
    if "code_unit c div 64 = code_unit d div 64" "code_unit c mod 64 = code_unit d mod 64"
    using that by (metis div_mult_mod_eq)
  have "code_unit c = code_unit d \<and> r = q"
    using assms lc [of c] lc [of d]
    by (auto simp: utf8_char_def Let_def of_nat_byte_eq intro: eq
        simp del: of_nat_add code_unit_eq_iff split: if_splits)
  then show ?thesis by simp
qed

lemma utf8_inject [simp]: "utf8 s = utf8 t \<longleftrightarrow> s = t"
proof (induction s arbitrary: t)
  case Nil
  then show ?case by (cases t) (auto simp: utf8_Cons)
next
  case (Cons c s)
  show ?case
  proof (cases t)
    case Nil
    then show ?thesis by (simp add: utf8_Cons)
  next
    case [simp]: (Cons d t')
    show ?thesis
      using Cons.IH [of t'] utf8_char_prefix_free [of c "utf8 s" d "utf8 t'"]
      by (auto simp: utf8_Cons)
  qed
qed

text \<open>A value preceded by its byte length is recovered from the front of a string.\<close>

lemma byteLength_prefix_eq:
  assumes "v @ r = w @ q" and "byteLength v = byteLength w"
  shows "v = w \<and> r = q"
proof -
  consider (l) us where "v = w @ us" "us @ r = q" | (r) us where "w = v @ us" "r = us @ q"
    using assms(1) by (auto simp: append_eq_append_conv2)
  then show ?thesis
  proof cases
    case l
    with assms(2) have "byteLength us = 0" by simp
    then have "us = []" using byteLength_pos by fastforce
    with l show ?thesis by simp
  next
    case r
    with assms(2) have "byteLength us = 0" by simp
    then have "us = []" using byteLength_pos by fastforce
    with r show ?thesis by simp
  qed
qed

lemma split_at_first_sep:
  assumes "xs @ c # r = ys @ c # q" and "c \<notin> set xs" and "c \<notin> set ys"
  shows "xs = ys \<and> r = q"
  using assms
proof (induction xs arbitrary: ys)
  case Nil
  then show ?case by (cases ys) auto
next
  case (Cons x xs)
  then show ?case by (cases ys) auto
qed

section \<open>Transition systems\<close>

inductive reaches :: "('s \<Rightarrow> 's \<Rightarrow> bool) \<Rightarrow> 's \<Rightarrow> 's \<Rightarrow> bool" for step where
  reaches_refl [simp, intro!]: "reaches step s s"
| reaches_step [intro]: "reaches step s t \<Longrightarrow> step t u \<Longrightarrow> reaches step s u"

lemma reaches_single: "step s t \<Longrightarrow> reaches step s t"
  by (rule reaches_step [OF reaches_refl])

text \<open>The interface of every state machine of the development: a start condition, a step
  relation and an invariant that the machine keeps.\<close>

locale invariant_system =
  fixes init :: "'s \<Rightarrow> bool" and step :: "'s \<Rightarrow> 's \<Rightarrow> bool" and inv :: "'s \<Rightarrow> bool"
  assumes inv_init: "init s \<Longrightarrow> inv s"
    and inv_step: "inv s \<Longrightarrow> step s t \<Longrightarrow> inv t"
begin

lemma inv_reaches: "reaches step s t \<Longrightarrow> inv s \<Longrightarrow> inv t"
  by (induction rule: reaches.induct) (auto intro: inv_step)

lemma reachable_inv: "init s \<Longrightarrow> reaches step s t \<Longrightarrow> inv t"
  by (blast intro: inv_reaches inv_init)

end

end
