(* ===== verification/Kit_Common.thy ===== *)
theory Kit_Common
  imports Kit_Prelude
begin

text \<open>
  The shared domain package, \<open>packages/common/src/index.ts\<close>: tenants and token claims, the
  RBAC catalogue, the wire shapes, and the domain errors with the three strings every one of
  them carries (title, message, code).
\<close>

section \<open>Values that travel as JSON\<close>

datatype json =
    JNull
  | JBool bool
  | JNum int
  | JStr string
  | JArr "json list"
  | JObj "(string \<times> json) list"

definition jget :: "(string \<times> json) list \<Rightarrow> string \<Rightarrow> json option" where
  "jget obj k = map_of obj k"

section \<open>Tenants, claims and the RBAC catalogue\<close>

datatype TenantStatus = ts_provisioning | ts_active | ts_suspended

record Tenant =
  tn_id :: string
  tn_slug :: string
  tn_databaseName :: string
  tn_status :: TenantStatus

record AccessTokenClaims =
  cl_sub :: string
  cl_tid :: string
  cl_roles :: "string list"
  cl_permissions :: "string list"

definition usersRead :: string where
  "usersRead = ''users:read''"

definition usersWrite :: string where
  "usersWrite = ''users:write''"

definition rolesManage :: string where
  "rolesManage = ''roles:manage''"

definition PERMISSION_KEYS :: "string list" where
  "PERMISSION_KEYS = [usersRead, usersWrite, rolesManage]"

definition DEFAULT_PERMISSIONS :: "(string \<times> string) list" where
  "DEFAULT_PERMISSIONS =
     [(usersRead, ''List and view users in this tenant''),
      (usersWrite, ''Create, modify, and disable users in this tenant''),
      (rolesManage, ''Create roles and change their permission grants'')]"

definition TENANT_ADMIN_ROLE_NAME :: string where
  "TENANT_ADMIN_ROLE_NAME = ''tenant-admin''"

definition TENANT_ADMIN_ROLE_DESCRIPTION :: string where
  "TENANT_ADMIN_ROLE_DESCRIPTION =
     ''Full administrative access within this tenant. Seeded at provisioning and granted '' @
     ''to the tenant's initial administrator.''"

section \<open>The wire contract\<close>

record FieldProblem =
  fp_detail :: string
  fp_pointer :: string

record ProblemDetails =
  pd_success :: bool
  pd_type :: string
  pd_title :: string
  pd_status :: nat
  pd_detail :: string
  pd_instance :: string
  pd_code :: string
  pd_traceId :: string
  pd_errors :: "FieldProblem list option"

type_synonym ResponseMeta = "(string \<times> json) list"

record SuccessEnvelope =
  en_success :: bool
  en_data :: json
  en_meta :: ResponseMeta

text \<open>What a handler returns: a bare value (\<open>None\<close> for \<open>undefined\<close>), or a value wrapped by
  \<open>withMeta\<close>, which the marker symbol distinguishes from every bare object.\<close>

datatype payload = Bare "json option" | DataWithMeta json ResponseMeta

definition withMeta :: "json \<Rightarrow> ResponseMeta \<Rightarrow> payload" where
  "withMeta d m = DataWithMeta d m"

fun hasMeta :: "payload \<Rightarrow> bool" where
  "hasMeta (Bare _) = False"
| "hasMeta (DataWithMeta _ _) = True"

section \<open>Domain errors\<close>

text \<open>\<open>LoginThrottleUnavailableError\<close> is declared in the login throttle as a subclass of
  \<open>TooManyRequestsError\<close>; it is a constructor here, because the errors form one type.\<close>

datatype DomainError =
    TenantNotFoundError string
  | TenantContextMissingError
  | TenantAlreadyExistsError string
  | TenantProvisioningInProgressError string
  | EmailAlreadyRegisteredError
  | InvalidCredentialsError
  | InvalidAccessTokenError
  | CrossTenantTokenError
  | ValidationFailedError "FieldProblem list"
  | ControlPlaneUnauthorizedError
  | TooManyRequestsError int
  | LoginThrottleUnavailableError

fun de_title :: "DomainError \<Rightarrow> string" where
  "de_title (TenantNotFoundError _) = ''Unknown or inactive tenant''"
| "de_title TenantContextMissingError = ''No tenant resolved for this request''"
| "de_title (TenantAlreadyExistsError _) = ''Tenant already exists''"
| "de_title (TenantProvisioningInProgressError _) = ''Tenant provisioning in progress''"
| "de_title EmailAlreadyRegisteredError = ''Email already registered''"
| "de_title InvalidCredentialsError = ''Invalid credentials''"
| "de_title InvalidAccessTokenError = ''Missing or invalid access token''"
| "de_title CrossTenantTokenError = ''Access token is not valid for the requested tenant''"
| "de_title (ValidationFailedError _) = ''Request validation failed''"
| "de_title ControlPlaneUnauthorizedError = ''Control-plane authorization required''"
| "de_title (TooManyRequestsError _) = ''Too many requests''"
| "de_title LoginThrottleUnavailableError = ''Too many requests''"

fun de_message :: "DomainError \<Rightarrow> string" where
  "de_message (TenantNotFoundError tenant) = ''Unknown or inactive tenant: '' @ tenant"
| "de_message TenantContextMissingError =
     ''No tenant resolved for this request. Supply the x-tenant-id header.''"
| "de_message (TenantAlreadyExistsError slug) =
     ''A tenant with slug \"'' @ slug @ ''\" already exists''"
| "de_message (TenantProvisioningInProgressError slug) =
     ''Tenant \"'' @ slug @
     ''\" is being provisioned by another request. Retry once that request has finished.''"
| "de_message EmailAlreadyRegisteredError = ''That email address is already registered''"
| "de_message InvalidCredentialsError = ''Invalid credentials''"
| "de_message InvalidAccessTokenError = ''Missing or invalid access token''"
| "de_message CrossTenantTokenError = ''Access token is not valid for the requested tenant''"
| "de_message (ValidationFailedError _) = ''One or more fields are invalid''"
| "de_message ControlPlaneUnauthorizedError =
     ''This endpoint requires a valid control-plane credential''"
| "de_message (TooManyRequestsError _) = ''Too many requests. Retry later.''"
| "de_message LoginThrottleUnavailableError = ''Too many requests. Retry later.''"

fun de_code :: "DomainError \<Rightarrow> string" where
  "de_code (TenantNotFoundError _) = ''TENANT_NOT_FOUND''"
| "de_code TenantContextMissingError = ''TENANT_CONTEXT_MISSING''"
| "de_code (TenantAlreadyExistsError _) = ''TENANT_ALREADY_EXISTS''"
| "de_code (TenantProvisioningInProgressError _) = ''TENANT_PROVISIONING_IN_PROGRESS''"
| "de_code EmailAlreadyRegisteredError = ''EMAIL_ALREADY_REGISTERED''"
| "de_code InvalidCredentialsError = ''INVALID_CREDENTIALS''"
| "de_code InvalidAccessTokenError = ''INVALID_ACCESS_TOKEN''"
| "de_code CrossTenantTokenError = ''CROSS_TENANT_TOKEN''"
| "de_code (ValidationFailedError _) = ''VALIDATION_FAILED''"
| "de_code ControlPlaneUnauthorizedError = ''CONTROL_PLANE_UNAUTHORIZED''"
| "de_code (TooManyRequestsError _) = ''TOO_MANY_REQUESTS''"
| "de_code LoginThrottleUnavailableError = ''TOO_MANY_REQUESTS''"

text \<open>\<open>Math.max(1, Math.ceil(ms / 1000))\<close>; only the 429 errors carry it.\<close>

definition ceil_seconds :: "int \<Rightarrow> int" where
  "ceil_seconds ms = max 1 (- ((- ms) div 1000))"

fun retryAfterSeconds :: "DomainError \<Rightarrow> int option" where
  "retryAfterSeconds (TooManyRequestsError ms) = Some (ceil_seconds ms)"
| "retryAfterSeconds LoginThrottleUnavailableError = Some (ceil_seconds 1000)"
| "retryAfterSeconds _ = None"

text \<open>Everything a request can end in: a domain error, an HTTP exception of the framework
  (status and response body), or any other thrown error with its message.\<close>

datatype http_body =
    BodyString string
  | BodyMessage string
  | BodyMessages "string option list"
  | BodyOther

datatype app_error =
    Domain DomainError
  | HttpException nat http_body
  | OtherError string

lemma ceil_seconds_pos: "1 \<le> ceil_seconds ms"
  by (simp add: ceil_seconds_def)

lemma neg_div_1000:
  fixes ms :: int
  shows "1000 * (- ms div 1000) \<le> - ms" and "- ms < 1000 * (- ms div 1000) + 1000"
  using div_mult_mod_eq [of "- ms" 1000] pos_mod_bound [of 1000 "- ms"] pos_mod_sign [of 1000 "- ms"]
  by linarith+

lemma ceil_seconds_covers: "ms \<le> 1000 * ceil_seconds ms"
  using neg_div_1000(1) [of ms] unfolding ceil_seconds_def max_def by auto

lemma ceil_seconds_tight: "1000 < ms \<Longrightarrow> 1000 * (ceil_seconds ms - 1) < ms"
  using neg_div_1000(2) [of ms] unfolding ceil_seconds_def max_def by auto

end
