(* ===== verification/Base64url.thy ===== *)
theory Base64url
  imports Kit_Prelude
begin

text \<open>
  Base64url as \<open>Buffer\<close> of Node computes it (\<open>toString("base64url")\<close>, no padding, and
  \<open>Buffer.from(s, "base64url")\<close>, which also reads the two characters of plain base64, skips
  every other character and drops a trailing group of fewer than eight bits).
\<close>

section \<open>Bits\<close>

fun bits :: "nat \<Rightarrow> nat \<Rightarrow> bool list" where
  "bits 0 n = []"
| "bits (Suc k) n = bits k (n div 2) @ [odd n]"

definition bits_value :: "bool list \<Rightarrow> nat" where
  "bits_value bs = foldl (\<lambda>a b. 2 * a + of_bool b) 0 bs"

function chunks :: "nat \<Rightarrow> 'a list \<Rightarrow> 'a list list" where
  "chunks k xs = (if k = 0 \<or> length xs < k then [] else take k xs # chunks k (drop k xs))"
  by pat_completeness auto
termination by (relation "measure (\<lambda>(k, xs). length xs)") auto

declare chunks.simps [simp del]

definition b64_char :: "nat \<Rightarrow> char" where
  "b64_char n =
     (if n < 26 then unit_char (65 + n)
      else if n < 52 then unit_char (71 + n)
      else if n < 62 then unit_char (n - 4)
      else if n = 62 then CHR ''-'' else CHR ''_'')"

definition b64_value :: "char \<Rightarrow> nat option" where
  "b64_value c =
     (let n = code_unit c in
      if 65 \<le> n \<and> n \<le> 90 then Some (n - 65)
      else if 97 \<le> n \<and> n \<le> 122 then Some (n - 71)
      else if 48 \<le> n \<and> n \<le> 57 then Some (n + 4)
      else if n = 45 \<or> n = 43 then Some 62
      else if n = 95 \<or> n = 47 then Some 63
      else None)"

definition base64url_encode :: "bytes \<Rightarrow> string" where
  "base64url_encode bs =
     (let bits = concat (map (\<lambda>b. bits 8 (unat b)) bs);
          pad = (6 - length bits mod 6) mod 6
      in map (\<lambda>c. b64_char (bits_value c)) (chunks 6 (bits @ replicate pad False)))"

definition base64url_decode :: "string \<Rightarrow> bytes" where
  "base64url_decode s =
     map (\<lambda>c. of_nat (bits_value c)) (chunks 8 (concat (map (bits 6) (List.map_filter b64_value s))))"

section \<open>Facts\<close>

lemma length_bits [simp]: "length (bits k n) = k"
  by (induction k arbitrary: n) simp_all

lemma bits_value_snoc [simp]: "bits_value (bs @ [b]) = 2 * bits_value bs + of_bool b"
  by (simp add: bits_value_def)

lemma bits_value_Nil [simp]: "bits_value [] = 0"
  by (simp add: bits_value_def)

lemma bits_value_bits: "n < 2 ^ k \<Longrightarrow> bits_value (bits k n) = n"
proof (induction k arbitrary: n)
  case 0
  then show ?case by simp
next
  case (Suc k)
  then have "n div 2 < 2 ^ k" by (simp add: less_mult_imp_div_less)
  with Suc.IH have "bits_value (bits k (n div 2)) = n div 2" by blast
  then show ?case by simp
qed

lemma bits_bits_value: "bits (length bs) (bits_value bs) = bs"
  by (induction bs rule: rev_induct) auto

lemma bits_value_less: "bits_value bs < 2 ^ length bs"
  by (induction bs rule: rev_induct) auto

lemma bits_inject: "m < 2 ^ k \<Longrightarrow> n < 2 ^ k \<Longrightarrow> bits k m = bits k n \<Longrightarrow> m = n"
  by (metis bits_value_bits)

lemma chunks_append:
  "0 < k \<Longrightarrow> length xs = k \<Longrightarrow> chunks k (xs @ ys) = xs # chunks k ys"
  by (subst chunks.simps) simp

lemma chunks_short: "length xs < k \<Longrightarrow> chunks k xs = []"
  by (subst chunks.simps) simp

lemma chunks_concat:
  assumes "0 < k" and "\<And>x. x \<in> set xss \<Longrightarrow> length x = k" and "length r < k"
  shows "chunks k (concat xss @ r) = xss"
  using assms(2)
  by (induction xss) (simp_all add: chunks_short assms(1,3) chunks_append)

lemma concat_chunks: "0 < k \<Longrightarrow> k dvd length xs \<Longrightarrow> concat (chunks k xs) = xs"
proof (induction k xs rule: chunks.induct)
  case (1 k xs)
  show ?case
  proof (cases "length xs < k")
    case True
    with 1(3) have "xs = []" by (metis dvd_imp_le length_0_conv not_le neq0_conv)
    then show ?thesis using 1(2) by (simp add: chunks_short)
  next
    case False
    then have "k dvd length (drop k xs)" using 1(3) by (simp add: dvd_minus_self)
    with 1 False show ?thesis by (subst chunks.simps) simp
  qed
qed

lemma chunks_length: "c \<in> set (chunks k xs) \<Longrightarrow> length c = k"
proof (induction k xs rule: chunks.induct)
  case (1 k xs)
  then show ?case by (cases "k = 0 \<or> length xs < k") (auto simp: chunks.simps [of k xs])
qed

lemma b64_value_char:
  assumes "n < 64"
  shows "b64_value (b64_char n) = Some n"
proof -
  consider "n < 26" | "26 \<le> n" "n < 52" | "52 \<le> n" "n < 62" | "n = 62" | "n = 63"
    using assms by linarith
  then show ?thesis
  proof cases
    case 3
    then have "48 \<le> n - 4" "n - 4 \<le> 57" by linarith+
    then show ?thesis using 3 by (simp add: b64_value_def b64_char_def code_unit_unit_char)
  qed (simp_all add: b64_value_def b64_char_def Let_def code_unit_unit_char
      code_unit_def [of "CHR ''-''"] code_unit_def [of "CHR ''_''"])
qed

lemma b64_value_less: "b64_value c = Some n \<Longrightarrow> n < 64"
  by (auto simp: b64_value_def Let_def split: if_splits)

lemma map_filter_all_Some: "(\<And>x. x \<in> set xs \<Longrightarrow> f (g x) = Some (h x)) \<Longrightarrow>
  List.map_filter f (map g xs) = map h xs"
  by (induction xs) (simp_all add: List.map_filter_simps)

lemma pad_dvd: "6 dvd n + (6 - n mod 6) mod 6" for n :: nat
proof -
  have "n + (6 - n mod 6) = 6 * (n div 6) + 6"
    using mult_div_mod_eq [of 6 n] mod_less_divisor [of 6 n] by linarith
  then have "(n + (6 - n mod 6)) mod 6 = 0" by simp
  then show ?thesis by (simp add: mod_add_right_eq dvd_eq_mod_eq_0)
qed

lemma base64url_roundtrip [simp]: "base64url_decode (base64url_encode bs) = bs"
proof -
  let ?bits = "concat (map (\<lambda>b. bits 8 (unat b)) bs)"
  let ?pad = "replicate ((6 - length ?bits mod 6) mod 6) False"
  have len: "6 dvd length (?bits @ ?pad)"
    using pad_dvd [of "length ?bits"] by simp
  have "List.map_filter b64_value (base64url_encode bs) = map bits_value (chunks 6 (?bits @ ?pad))"
    unfolding base64url_encode_def Let_def
  proof (rule map_filter_all_Some)
    fix c assume "c \<in> set (chunks 6 (?bits @ ?pad))"
    then have "length c = 6" by (rule chunks_length)
    then have "bits_value c < 64" using bits_value_less [of c] by simp
    then show "b64_value (b64_char (bits_value c)) = Some (bits_value c)" by (rule b64_value_char)
  qed
  moreover have "map (bits 6 \<circ> bits_value) (chunks 6 (?bits @ ?pad)) = chunks 6 (?bits @ ?pad)"
    by (intro map_idI) (metis bits_bits_value chunks_length comp_apply)
  ultimately have "concat (map (bits 6) (List.map_filter b64_value (base64url_encode bs))) =
      ?bits @ ?pad"
    using concat_chunks [OF _ len] by simp
  moreover have "chunks 8 (?bits @ ?pad) = map (\<lambda>b. bits 8 (unat b)) bs"
    by (rule chunks_concat) (auto intro: less_trans [of _ 6])
  moreover have "bits_value (bits 8 (unat b)) = unat b" for b :: byte
    using unsigned_less [of b] by (intro bits_value_bits) simp
  ultimately show ?thesis by (simp add: base64url_decode_def o_def)
qed

lemma base64url_encode_inject [simp]: "base64url_encode a = base64url_encode b \<longleftrightarrow> a = b"
  by (metis base64url_roundtrip)

lemma base64url_encode_alphabet:
  assumes "c \<in> set (base64url_encode bs)"
  shows "\<exists>n. b64_value c = Some n"
proof -
  from assms obtain d where c: "c = b64_char (bits_value d)" and "length d = 6"
    unfolding base64url_encode_def Let_def by (auto dest: chunks_length)
  then have "bits_value d < 64" using bits_value_less [of d] by simp
  then show ?thesis using c b64_value_char by blast
qed

lemma base64url_encode_no_colon [simp]: "CHR '':'' \<notin> set (base64url_encode bs)"
  using base64url_encode_alphabet by (fastforce simp: b64_value_def code_unit_def)

end
