(* ===== verification/Kit_Config.thy ===== *)
theory Kit_Config
  imports Base64url
begin

text \<open>
  Configuration, \<open>packages/config/src/index.ts\<close>: the schema, its cross-field invariants and the
  local dotenv lookup. The parts of zod the schema calls are parameters: \<open>isUrl\<close> stands for
  \<open>z.url()\<close> and \<open>zodInt\<close> for \<open>z.coerce.number().int()\<close>, the integer a string coerces to. The
  dotenv parser is the parameter \<open>readDotenv\<close>. A rejected configuration is the value None; the
  issue list printed with it is not modelled.
\<close>

datatype NodeEnv = env_development | env_test | env_production

record AppConfig =
  cf_nodeEnv :: NodeEnv
  cf_port :: int
  cf_masterDatabaseUrl :: string
  cf_tenantClusterUrl :: string
  cf_problemTypeBaseUri :: string
  cf_jwtIssuer :: string
  cf_jwtAudience :: string
  cf_jwtAccessTtlSeconds :: int
  cf_jwtClockToleranceSeconds :: int
  cf_keyEncryptionKey :: string
  cf_controlPlaneApiKey :: string
  cf_redisUrl :: string
  cf_apiDocsEnabled :: bool
  cf_requestTimeoutMs :: int
  cf_connectionTimeoutMs :: int
  cf_keepAliveTimeoutMs :: int
  cf_bodyLimitBytes :: int
  cf_connectionsCheckingIntervalMs :: int
  cf_trustProxy :: bool
  cf_rateLimitDefaultLimit :: int
  cf_rateLimitDefaultWindowMs :: int
  cf_loginThrottleLimit :: int
  cf_loginThrottleWindowMs :: int
  cf_rateLimitFailOpen :: bool

type_synonym env = "string \<Rightarrow> string option"

section \<open>Field validators\<close>

definition b64url_char :: "char \<Rightarrow> bool" where
  "b64url_char c \<longleftrightarrow> (b64_value c \<noteq> None \<and> c \<noteq> CHR ''+'' \<and> c \<noteq> CHR ''/'')"

definition BASE64URL_32_BYTES :: "string \<Rightarrow> bool" where
  "BASE64URL_32_BYTES s \<longleftrightarrow> length s = 43 \<and> list_all b64url_char s"

definition key256 :: "string option \<Rightarrow> string option" where
  "key256 v = (case v of None \<Rightarrow> None | Some s \<Rightarrow> if BASE64URL_32_BYTES s then Some s else None)"

definition zod_url :: "(string \<Rightarrow> bool) \<Rightarrow> string option \<Rightarrow> string option" where
  "zod_url isUrl v = (case v of None \<Rightarrow> None | Some s \<Rightarrow> if isUrl s then Some s else None)"

definition zod_nonempty :: "string option \<Rightarrow> string option" where
  "zod_nonempty v = (case v of None \<Rightarrow> None | Some s \<Rightarrow> if 1 \<le> length s then Some s else None)"

text \<open>\<open>z.coerce.number().int()\<close> with a lower bound and a default for an absent variable.\<close>

definition zod_int :: "(string \<Rightarrow> int option) \<Rightarrow> int \<Rightarrow> int \<Rightarrow> string option \<Rightarrow> int option" where
  "zod_int zodInt lower dflt v =
     (case v of
        None \<Rightarrow> Some dflt
      | Some s \<Rightarrow>
          (case zodInt s of None \<Rightarrow> None | Some n \<Rightarrow> if lower \<le> n then Some n else None))"

definition zod_nodeEnv :: "string option \<Rightarrow> NodeEnv option" where
  "zod_nodeEnv v =
     (case v of
        None \<Rightarrow> Some env_development
      | Some s \<Rightarrow>
          if s = ''development'' then Some env_development
          else if s = ''test'' then Some env_test
          else if s = ''production'' then Some env_production
          else None)"

definition onUnlessOff :: "string option \<Rightarrow> bool" where
  "onUnlessOff v \<longleftrightarrow> v \<noteq> Some ''false'' \<and> v \<noteq> Some ''0''"

definition offUnlessOn :: "string option \<Rightarrow> bool" where
  "offUnlessOn v \<longleftrightarrow> v = Some ''true'' \<or> v = Some ''1''"

definition sameKeyBytes :: "string \<Rightarrow> string \<Rightarrow> bool" where
  "sameKeyBytes a b \<longleftrightarrow> base64url_decode a = base64url_decode b"

definition DEFAULT_PROBLEM_TYPE_BASE :: string where
  "DEFAULT_PROBLEM_TYPE_BASE =
     ''https://github.com/faizahmedfarooqui/compliance-ready-backend-kit/blob/main/problems.md''"

section \<open>Loading\<close>

definition withInvariants :: "AppConfig \<Rightarrow> bool" where
  "withInvariants c \<longleftrightarrow>
     cf_connectionTimeoutMs c > cf_keepAliveTimeoutMs c \<and>
     cf_connectionsCheckingIntervalMs c < cf_requestTimeoutMs c \<and>
     \<not> sameKeyBytes (cf_keyEncryptionKey c) (cf_controlPlaneApiKey c)"

definition parse_schema ::
    "(string \<Rightarrow> bool) \<Rightarrow> (string \<Rightarrow> int option) \<Rightarrow> env \<Rightarrow> AppConfig option" where
  "parse_schema isUrl zodInt source =
     Option.bind (zod_nodeEnv (source ''NODE_ENV'')) (\<lambda>nodeEnv.
     Option.bind (zod_int zodInt 1 3011 (source ''PORT'')) (\<lambda>port.
     Option.bind (zod_url isUrl (source ''MASTER_DATABASE_URL'')) (\<lambda>masterDatabaseUrl.
     Option.bind (zod_url isUrl (source ''TENANT_CLUSTER_URL'')) (\<lambda>tenantClusterUrl.
     Option.bind
       (case source ''PROBLEM_TYPE_BASE_URI'' of
          None \<Rightarrow> Some DEFAULT_PROBLEM_TYPE_BASE | Some s \<Rightarrow> zod_url isUrl (Some s))
       (\<lambda>problemTypeBaseUri.
     Option.bind (zod_nonempty (source ''JWT_ISSUER'')) (\<lambda>jwtIssuer.
     Option.bind (zod_nonempty (source ''JWT_AUDIENCE'')) (\<lambda>jwtAudience.
     Option.bind (zod_int zodInt 1 900 (source ''JWT_ACCESS_TTL_SECONDS'')) (\<lambda>ttl.
     Option.bind (zod_int zodInt 0 5 (source ''JWT_CLOCK_TOLERANCE_SECONDS'')) (\<lambda>tolerance.
     Option.bind (key256 (source ''KEY_ENCRYPTION_KEY'')) (\<lambda>kek.
     Option.bind (key256 (source ''CONTROL_PLANE_API_KEY'')) (\<lambda>cpk.
     Option.bind (zod_url isUrl (source ''REDIS_URL'')) (\<lambda>redisUrl.
     Option.bind (zod_int zodInt 1 30000 (source ''REQUEST_TIMEOUT_MS'')) (\<lambda>requestTimeout.
     Option.bind (zod_int zodInt 1 75000 (source ''CONNECTION_TIMEOUT_MS'')) (\<lambda>connectionTimeout.
     Option.bind (zod_int zodInt 1 72000 (source ''KEEP_ALIVE_TIMEOUT_MS'')) (\<lambda>keepAlive.
     Option.bind (zod_int zodInt 1 1048576 (source ''BODY_LIMIT_BYTES'')) (\<lambda>bodyLimit.
     Option.bind (zod_int zodInt 1 5000 (source ''CONNECTIONS_CHECKING_INTERVAL_MS'')) (\<lambda>checking.
     Option.bind (zod_int zodInt 1 100 (source ''RATE_LIMIT_DEFAULT_LIMIT'')) (\<lambda>limit.
     Option.bind (zod_int zodInt 1 60000 (source ''RATE_LIMIT_DEFAULT_WINDOW_MS'')) (\<lambda>window.
     Option.bind (zod_int zodInt 1 10 (source ''LOGIN_THROTTLE_LIMIT'')) (\<lambda>loginLimit.
     Option.bind (zod_int zodInt 1 900000 (source ''LOGIN_THROTTLE_WINDOW_MS'')) (\<lambda>loginWindow.
     Some \<lparr>cf_nodeEnv = nodeEnv, cf_port = port, cf_masterDatabaseUrl = masterDatabaseUrl,
           cf_tenantClusterUrl = tenantClusterUrl, cf_problemTypeBaseUri = problemTypeBaseUri,
           cf_jwtIssuer = jwtIssuer, cf_jwtAudience = jwtAudience, cf_jwtAccessTtlSeconds = ttl,
           cf_jwtClockToleranceSeconds = tolerance, cf_keyEncryptionKey = kek,
           cf_controlPlaneApiKey = cpk, cf_redisUrl = redisUrl,
           cf_apiDocsEnabled = onUnlessOff (source ''API_DOCS_ENABLED''),
           cf_requestTimeoutMs = requestTimeout, cf_connectionTimeoutMs = connectionTimeout,
           cf_keepAliveTimeoutMs = keepAlive, cf_bodyLimitBytes = bodyLimit,
           cf_connectionsCheckingIntervalMs = checking,
           cf_trustProxy = offUnlessOn (source ''TRUST_PROXY''),
           cf_rateLimitDefaultLimit = limit, cf_rateLimitDefaultWindowMs = window,
           cf_loginThrottleLimit = loginLimit, cf_loginThrottleWindowMs = loginWindow,
           cf_rateLimitFailOpen = onUnlessOff (source ''RATE_LIMIT_FAIL_OPEN'')\<rparr>)))))))))))))))))))))"

definition loadConfig ::
    "(string \<Rightarrow> bool) \<Rightarrow> (string \<Rightarrow> int option) \<Rightarrow> env \<Rightarrow> AppConfig option" where
  "loadConfig isUrl zodInt source =
     (case parse_schema isUrl zodInt source of
        None \<Rightarrow> None
      | Some c \<Rightarrow> if withInvariants c then Some c else None)"

text \<open>A directory is the list of its path segments, innermost first; the root has none and is
  its own parent.\<close>

fun findDotenvFile_from :: "(string list \<Rightarrow> bool) \<Rightarrow> string list \<Rightarrow> nat \<Rightarrow> string list option" where
  "findDotenvFile_from existsSync dir 0 = None"
| "findDotenvFile_from existsSync dir (Suc levels) =
     (if existsSync (''.env'' # dir) then Some (''.env'' # dir)
      else if tl dir = dir then None
      else findDotenvFile_from existsSync (tl dir) levels)"

definition findDotenvFile :: "(string list \<Rightarrow> bool) \<Rightarrow> string list \<Rightarrow> string list option" where
  "findDotenvFile existsSync startDir = findDotenvFile_from existsSync startDir 5"

definition loadLocalDotenv ::
    "(string list \<Rightarrow> bool) \<Rightarrow> (string list \<Rightarrow> env) \<Rightarrow> string list \<Rightarrow> env \<Rightarrow> env" where
  "loadLocalDotenv existsSync readDotenv cwd env =
     (if env ''NODE_ENV'' = Some ''production'' then env
      else
        (case findDotenvFile existsSync cwd of
           None \<Rightarrow> env
         | Some file \<Rightarrow> readDotenv file ++ env))"

section \<open>Facts\<close>

lemma zod_int_lower: "zod_int zodInt lower dflt v = Some n \<Longrightarrow> lower \<le> dflt \<Longrightarrow> lower \<le> n"
  by (auto simp: zod_int_def split: option.splits if_splits)

lemma key256_shape: "key256 v = Some s \<Longrightarrow> BASE64URL_32_BYTES s"
  by (auto simp: key256_def split: option.splits if_splits)

lemma map_filter_b64:
  "list_all b64url_char s \<Longrightarrow> List.map_filter b64_value s = map (the \<circ> b64_value) s"
  by (induction s) (auto simp: List.map_filter_simps b64url_char_def)

definition b64_bits :: "string \<Rightarrow> bool list" where
  "b64_bits s = concat (map (bits 6 \<circ> the \<circ> b64_value) s)"

lemma length_b64_bits [simp]: "length (b64_bits s) = 6 * length s"
  by (induction s) (simp_all add: b64_bits_def)

lemma chunks_length_count: "0 < k \<Longrightarrow> length (chunks k xs) = length xs div k"
proof (induction k xs rule: chunks.induct)
  case (1 k xs)
  then show ?case
    by (cases "length xs < k") (simp_all add: chunks.simps [of k xs] div_if [of "length xs"])
qed

lemma key256_bytes: "BASE64URL_32_BYTES s \<Longrightarrow> length (base64url_decode s) = 32"
  using length_b64_bits [of s]
  by (simp add: base64url_decode_def BASE64URL_32_BYTES_def map_filter_b64 chunks_length_count
      b64_bits_def o_def)

text \<open>The full groups of eight bits determine the decoded bytes and are determined by them.\<close>

lemma map_bits_value_inject:
  assumes "map (\<lambda>c. of_nat (bits_value c) :: byte) xs = map (\<lambda>c. of_nat (bits_value c)) ys"
    and "\<And>c. c \<in> set xs \<union> set ys \<Longrightarrow> length c = 8"
  shows "xs = ys"
  using assms
proof (induction xs arbitrary: ys)
  case (Cons x xs)
  then obtain y ys' where [simp]: "ys = y # ys'" by (cases ys) auto
  have "length x = 8" "length y = 8" using Cons.prems(2) by simp_all
  moreover from this have "bits_value x < 256" "bits_value y < 256"
    using bits_value_less [of x] bits_value_less [of y] by simp_all
  with Cons.prems(1) have "bits_value x = bits_value y" by (simp add: of_nat_byte_eq)
  ultimately have "x = y" using bits_bits_value [of x] bits_bits_value [of y] by simp
  with Cons show ?case by simp
qed simp

lemma chunks_take_eq:
  "0 < k \<Longrightarrow> chunks k xs = chunks k ys \<longleftrightarrow>
     length xs div k = length ys div k \<and>
     take (k * (length xs div k)) xs = take (k * (length ys div k)) ys"
proof (induction k xs arbitrary: ys rule: chunks.induct)
  case (1 k xs)
  show ?case
  proof (cases "length xs < k \<or> length ys < k")
    case True
    then show ?thesis
      using 1(2) chunks_length_count [OF 1(2), of xs] chunks_length_count [OF 1(2), of ys]
      by (auto simp: chunks_short)
  next
    case False
    have div: "length zs div k = Suc (length (drop k zs) div k)" if "\<not> length zs < k" for zs :: "'a list"
      using that 1(2) by (simp add: div_if [of "length zs"])
    have tk: "take (k + n) zs = take k zs @ take n (drop k zs)" for n and zs :: "'a list"
      by (rule take_add)
    have len: "length (take k xs) = length (take k ys)" using False by simp
    have "chunks k xs = chunks k ys \<longleftrightarrow>
        take k xs = take k ys \<and> chunks k (drop k xs) = chunks k (drop k ys)"
      using False 1(2) by (simp add: chunks.simps [of k xs] chunks.simps [of k ys])
    also have "chunks k (drop k xs) = chunks k (drop k ys) \<longleftrightarrow>
        length (drop k xs) div k = length (drop k ys) div k \<and>
        take (k * (length (drop k xs) div k)) (drop k xs) =
        take (k * (length (drop k ys) div k)) (drop k ys)"
      using 1(1) [of "drop k ys"] 1(2) False by blast
    finally show ?thesis
      using False len by (auto simp: div tk simp del: length_drop take_take drop_drop)
  qed
qed

text \<open>Two key strings name the same key exactly when they agree on 256 of their 258 bits: the
  last two bits of the last character are padding.\<close>

lemma sameKeyBytes_iff_bits:
  assumes "BASE64URL_32_BYTES a" and "BASE64URL_32_BYTES b"
  shows "sameKeyBytes a b \<longleftrightarrow> take 256 (b64_bits a) = take 256 (b64_bits b)"
proof -
  have dec: "base64url_decode s = map (\<lambda>c. of_nat (bits_value c)) (chunks 8 (b64_bits s))"
    if "BASE64URL_32_BYTES s" for s
    using that by (simp add: base64url_decode_def BASE64URL_32_BYTES_def map_filter_b64 b64_bits_def o_def)
  have "sameKeyBytes a b \<longleftrightarrow> chunks 8 (b64_bits a) = chunks 8 (b64_bits b)"
    unfolding sameKeyBytes_def dec [OF assms(1)] dec [OF assms(2)]
    using map_bits_value_inject [of "chunks 8 (b64_bits a)" "chunks 8 (b64_bits b)"]
      chunks_length [of _ 8] by auto
  also have "\<dots> \<longleftrightarrow> take 256 (b64_bits a) = take 256 (b64_bits b)"
    using assms by (subst chunks_take_eq) (simp_all add: BASE64URL_32_BYTES_def)
  finally show ?thesis .
qed

lemma b64_value_inject:
  assumes "b64url_char c" and "b64url_char d" and "the (b64_value c) = the (b64_value d)"
  shows "c = d"
proof -
  have plus: "n \<noteq> code_unit CHR ''+'' \<Longrightarrow> n \<noteq> code_unit CHR ''/'' \<Longrightarrow> n \<noteq> 43 \<and> n \<noteq> 47" for n
    by (simp add: code_unit_def)
  have "code_unit c \<noteq> 43 \<and> code_unit c \<noteq> 47" "code_unit d \<noteq> 43 \<and> code_unit d \<noteq> 47"
    using assms(1,2) by (auto intro!: plus simp: b64url_char_def)
  with assms have "code_unit c = code_unit d"
    by (auto simp: b64url_char_def b64_value_def Let_def simp del: code_unit_eq_iff split: if_splits)
  then show ?thesis by simp
qed

lemma bits6_inject:
  assumes "b64url_char c" and "b64url_char d"
  shows "bits 6 (the (b64_value c)) = bits 6 (the (b64_value d)) \<longleftrightarrow> c = d"
proof
  assume eq: "bits 6 (the (b64_value c)) = bits 6 (the (b64_value d))"
  have "the (b64_value c) < 2 ^ 6" "the (b64_value d) < 2 ^ 6"
    using assms b64_value_less by (auto simp: b64url_char_def)
  with eq have "the (b64_value c) = the (b64_value d)" by (intro bits_inject)
  with assms show "c = d" by (rule b64_value_inject)
qed simp

lemma b64_bits_inject:
  assumes "length a = length b" and "list_all b64url_char a" and "list_all b64url_char b"
  shows "b64_bits a = b64_bits b \<longleftrightarrow> a = b"
  using assms
  by (induction a b rule: list_induct2) (auto simp: b64_bits_def bits6_inject)

lemma take_bits: "take k (bits (k + j) n) = bits k (n div 2 ^ j)"
  by (induction j arbitrary: n) (simp_all add: div_mult2_eq [symmetric])

lemma b64_bits_split:
  assumes "length a = 43"
  shows "take 256 (b64_bits a) =
    b64_bits (take 42 a) @ bits 4 (the (b64_value (a ! 42)) div 4)"
proof -
  have "a = take 42 a @ [a ! 42]"
    using assms take_Suc_conv_app_nth [of 42 a] by simp
  then have "b64_bits a = b64_bits (take 42 a) @ bits 6 (the (b64_value (a ! 42)))"
    by (metis (no_types, lifting) append_Nil2 b64_bits_def comp_apply concat.simps concat_append
        list.map(1,2) map_append)
  moreover have "length (b64_bits (take 42 a)) = 252" using assms by simp
  ultimately show ?thesis
    using take_bits [of 4 2 "the (b64_value (a ! 42))"] by (simp add: take_append)
qed

lemma sameKeyBytes_chars:
  assumes "BASE64URL_32_BYTES a" and "BASE64URL_32_BYTES b"
  shows "sameKeyBytes a b \<longleftrightarrow>
     take 42 a = take 42 b \<and> the (b64_value (a ! 42)) div 4 = the (b64_value (b ! 42)) div 4"
proof -
  have len: "length a = 43" "length b = 43" and al: "list_all b64url_char a" "list_all b64url_char b"
    using assms by (simp_all add: BASE64URL_32_BYTES_def)
  have lt: "the (b64_value (s ! 42)) div 4 < 2 ^ 4" if "list_all b64url_char s" "length s = 43" for s
  proof -
    have "b64url_char (s ! 42)" using that by (simp add: list_all_length)
    then have "the (b64_value (s ! 42)) < 64" using b64_value_less by (auto simp: b64url_char_def)
    then show ?thesis by simp
  qed
  have "bits 4 (the (b64_value (a ! 42)) div 4) = bits 4 (the (b64_value (b ! 42)) div 4) \<longleftrightarrow>
      the (b64_value (a ! 42)) div 4 = the (b64_value (b ! 42)) div 4"
    using bits_inject [OF lt [OF al(1) len(1)] lt [OF al(2) len(2)]] by metis
  moreover have "b64_bits (take 42 a) = b64_bits (take 42 b) \<longleftrightarrow> take 42 a = take 42 b"
    using len al by (intro b64_bits_inject) (auto simp: list_all_iff dest: in_set_takeD)
  ultimately show ?thesis
    using len by (simp add: sameKeyBytes_iff_bits [OF assms] b64_bits_split)
qed

section \<open>Properties of the configuration\<close>

text \<open>Two well-formed 256-bit keys are the same key exactly when their first 42 characters
  agree and their last characters agree up to the two padding bits the decoder drops, so a
  comparison of the texts would miss three of the four spellings of a key.\<close>

theorem sameKeyBytes_iff:
  assumes "BASE64URL_32_BYTES a" and "BASE64URL_32_BYTES b"
  shows "sameKeyBytes a b \<longleftrightarrow>
     take 42 a = take 42 b \<and> the (b64_value (a ! 42)) div 4 = the (b64_value (b ! 42)) div 4"
  by (rule sameKeyBytes_chars [OF assms])

definition keyA :: string where
  "keyA = replicate 43 (CHR ''A'')"

definition keyB :: string where
  "keyB = replicate 42 (CHR ''A'') @ ''B''"

definition keyE :: string where
  "keyE = replicate 42 (CHR ''A'') @ ''E''"

lemma sample_keys [simp]:
  "BASE64URL_32_BYTES keyA" "BASE64URL_32_BYTES keyB" "BASE64URL_32_BYTES keyE"
  "take 42 keyA = take 42 keyB" "take 42 keyA = take 42 keyE"
  "the (b64_value (keyA ! 42)) div 4 = 0" "the (b64_value (keyB ! 42)) div 4 = 0"
  "the (b64_value (keyE ! 42)) div 4 = 1"
  by code_simp+

theorem sameKeyBytes_iff_witness:
  "sameKeyBytes keyA keyB \<and> keyA \<noteq> keyB \<and> \<not> sameKeyBytes keyA keyE"
proof -
  have "keyA \<noteq> keyB" by code_simp
  then show ?thesis
    using sameKeyBytes_iff [of keyA keyB] sameKeyBytes_iff [of keyA keyE] by simp
qed

lemma parse_schema_fields:
  assumes "parse_schema isUrl zodInt source = Some c"
  shows "zod_int zodInt 1 900 (source ''JWT_ACCESS_TTL_SECONDS'') = Some (cf_jwtAccessTtlSeconds c)"
    and "zod_int zodInt 0 5 (source ''JWT_CLOCK_TOLERANCE_SECONDS'') =
      Some (cf_jwtClockToleranceSeconds c)"
    and "zod_int zodInt 1 100 (source ''RATE_LIMIT_DEFAULT_LIMIT'') = Some (cf_rateLimitDefaultLimit c)"
    and "zod_int zodInt 1 60000 (source ''RATE_LIMIT_DEFAULT_WINDOW_MS'') =
      Some (cf_rateLimitDefaultWindowMs c)"
    and "zod_int zodInt 1 10 (source ''LOGIN_THROTTLE_LIMIT'') = Some (cf_loginThrottleLimit c)"
    and "zod_int zodInt 1 900000 (source ''LOGIN_THROTTLE_WINDOW_MS'') =
      Some (cf_loginThrottleWindowMs c)"
    and "key256 (source ''KEY_ENCRYPTION_KEY'') = Some (cf_keyEncryptionKey c)"
    and "key256 (source ''CONTROL_PLANE_API_KEY'') = Some (cf_controlPlaneApiKey c)"
  using assms by (clarsimp simp: parse_schema_def bind_eq_Some_conv)+

text \<open>A configuration that loads is usable as the services assume: the numeric settings are
  positive (the clock tolerance at least zero), the socket timeout exceeds the keep-alive timeout
  and the sweep interval is below the request timeout, and the key-encrypting key and the
  control-plane key are 32-byte keys that decode to different bytes.\<close>

theorem loadConfig_sound:
  assumes "loadConfig isUrl zodInt source = Some c"
  shows "1 \<le> cf_jwtAccessTtlSeconds c \<and> 0 \<le> cf_jwtClockToleranceSeconds c \<and>
     1 \<le> cf_rateLimitDefaultLimit c \<and> 1 \<le> cf_rateLimitDefaultWindowMs c \<and>
     1 \<le> cf_loginThrottleLimit c \<and> 1 \<le> cf_loginThrottleWindowMs c \<and>
     cf_keepAliveTimeoutMs c < cf_connectionTimeoutMs c \<and>
     cf_connectionsCheckingIntervalMs c < cf_requestTimeoutMs c \<and>
     length (base64url_decode (cf_keyEncryptionKey c)) = 32 \<and>
     length (base64url_decode (cf_controlPlaneApiKey c)) = 32 \<and>
     base64url_decode (cf_keyEncryptionKey c) \<noteq> base64url_decode (cf_controlPlaneApiKey c)"
proof -
  have parse: "parse_schema isUrl zodInt source = Some c" and inv: "withInvariants c"
    using assms by (auto simp: loadConfig_def split: option.splits if_splits)
  note fields = parse_schema_fields [OF parse]
  have "1 \<le> cf_jwtAccessTtlSeconds c" "0 \<le> cf_jwtClockToleranceSeconds c"
    "1 \<le> cf_rateLimitDefaultLimit c" "1 \<le> cf_rateLimitDefaultWindowMs c"
    "1 \<le> cf_loginThrottleLimit c" "1 \<le> cf_loginThrottleWindowMs c"
    using fields(1-6) [THEN zod_int_lower] by simp_all
  moreover have "length (base64url_decode (cf_keyEncryptionKey c)) = 32"
    "length (base64url_decode (cf_controlPlaneApiKey c)) = 32"
    using fields(7,8) key256_shape key256_bytes by blast+
  ultimately show ?thesis using inv by (simp add: withInvariants_def sameKeyBytes_def)
qed

definition sample_env :: "env" where
  "sample_env =
     [''MASTER_DATABASE_URL'' \<mapsto> ''postgres://m'', ''TENANT_CLUSTER_URL'' \<mapsto> ''postgres://t'',
      ''JWT_ISSUER'' \<mapsto> ''i'', ''JWT_AUDIENCE'' \<mapsto> ''a'', ''KEY_ENCRYPTION_KEY'' \<mapsto> keyA,
      ''CONTROL_PLANE_API_KEY'' \<mapsto> keyE, ''REDIS_URL'' \<mapsto> ''redis://r'']"

lemma sample_env_lookups:
  "sample_env ''MASTER_DATABASE_URL'' = Some ''postgres://m''"
  "sample_env ''TENANT_CLUSTER_URL'' = Some ''postgres://t''"
  "sample_env ''JWT_ISSUER'' = Some ''i''" "sample_env ''JWT_AUDIENCE'' = Some ''a''"
  "sample_env ''KEY_ENCRYPTION_KEY'' = Some keyA" "sample_env ''CONTROL_PLANE_API_KEY'' = Some keyE"
  "sample_env ''REDIS_URL'' = Some ''redis://r''"
  "sample_env ''NODE_ENV'' = None" "sample_env ''PORT'' = None"
  "sample_env ''PROBLEM_TYPE_BASE_URI'' = None" "sample_env ''JWT_ACCESS_TTL_SECONDS'' = None"
  "sample_env ''JWT_CLOCK_TOLERANCE_SECONDS'' = None" "sample_env ''REQUEST_TIMEOUT_MS'' = None"
  "sample_env ''CONNECTION_TIMEOUT_MS'' = None" "sample_env ''KEEP_ALIVE_TIMEOUT_MS'' = None"
  "sample_env ''BODY_LIMIT_BYTES'' = None" "sample_env ''CONNECTIONS_CHECKING_INTERVAL_MS'' = None"
  "sample_env ''RATE_LIMIT_DEFAULT_LIMIT'' = None" "sample_env ''RATE_LIMIT_DEFAULT_WINDOW_MS'' = None"
  "sample_env ''LOGIN_THROTTLE_LIMIT'' = None" "sample_env ''LOGIN_THROTTLE_WINDOW_MS'' = None"
  by (simp_all add: sample_env_def)

theorem loadConfig_sound_witness:
  "\<exists>c. loadConfig (\<lambda>_. True) (\<lambda>_. None) sample_env = Some c \<and> 1 \<le> cf_loginThrottleLimit c"
proof -
  have "\<not> sameKeyBytes keyA keyE" using sameKeyBytes_chars [of keyA keyE] by simp
  then obtain c where "loadConfig (\<lambda>_. True) (\<lambda>_. None) sample_env = Some c"
    by (simp add: loadConfig_def parse_schema_def sample_env_lookups zod_nodeEnv_def zod_int_def
        zod_url_def zod_nonempty_def key256_def withInvariants_def)
  with loadConfig_sound [of "\<lambda>_. True" "\<lambda>_. None" sample_env c] show ?thesis by blast
qed

lemma findDotenvFile_from_nearest:
  "(case findDotenvFile_from ex dir n of
      None \<Rightarrow> \<forall>k<n. \<not> ex (''.env'' # drop k dir)
    | Some f \<Rightarrow> \<exists>k<n. f = ''.env'' # drop k dir \<and> ex f \<and> (\<forall>j<k. \<not> ex (''.env'' # drop j dir)))"
proof (induction n arbitrary: dir)
  case 0
  then show ?case by simp
next
  case (Suc n)
  have root: "dir = []" if "tl dir = dir" using that by (cases dir) auto
  have all: "(\<forall>k<Suc n. P (drop k dir)) \<longleftrightarrow> P dir \<and> (\<forall>k<n. P (drop k (tl dir)))"
    for P :: "string list \<Rightarrow> bool" and n
    by (metis (no_types, opaque_lifting) Suc_less_eq drop0 drop_Suc gr0_conv_Suc not0_implies_Suc zero_less_Suc)
  show ?case
  proof (cases "ex (''.env'' # dir) \<or> tl dir = dir")
    case True
    then show ?thesis using root by (auto intro: exI [of _ 0])
  next
    case False
    show ?thesis
    proof (cases "findDotenvFile_from ex (tl dir) n")
      case None
      with Suc.IH [of "tl dir"] False all [of n "\<lambda>d. \<not> ex (''.env'' # d)"] show ?thesis by simp
    next
      case (Some f)
      with Suc.IH [of "tl dir"] obtain k where "k < n" "f = ''.env'' # drop k (tl dir)" "ex f"
        "\<forall>j<k. \<not> ex (''.env'' # drop j (tl dir))" by auto
      then show ?thesis
        using False Some all [of k "\<lambda>d. \<not> ex (''.env'' # d)"]
        by (auto simp: drop_Suc intro!: exI [of _ "Suc k"])
    qed
  qed
qed

text \<open>The dotenv search returns the nearest file: a file found lies in the start directory or
  an ancestor less than five levels up, every nearer directory has none, and when nothing is
  returned none of those directories has one.\<close>

lemma findDotenvFile_nearest:
  "(case findDotenvFile ex dir of
      None \<Rightarrow> \<forall>k<5. \<not> ex (''.env'' # drop k dir)
    | Some f \<Rightarrow> \<exists>k<5. f = ''.env'' # drop k dir \<and> ex f \<and> (\<forall>j<k. \<not> ex (''.env'' # drop j dir)))"
  unfolding findDotenvFile_def by (rule findDotenvFile_from_nearest)

definition demo_config :: AppConfig where
  "demo_config =
     \<lparr>cf_nodeEnv = env_test, cf_port = 3011, cf_masterDatabaseUrl = ''m'', cf_tenantClusterUrl = ''t'',
      cf_problemTypeBaseUri = ''p'', cf_jwtIssuer = ''i'', cf_jwtAudience = ''a'',
      cf_jwtAccessTtlSeconds = 900, cf_jwtClockToleranceSeconds = 5, cf_keyEncryptionKey = keyA,
      cf_controlPlaneApiKey = keyE, cf_redisUrl = ''r'', cf_apiDocsEnabled = True,
      cf_requestTimeoutMs = 30000, cf_connectionTimeoutMs = 75000, cf_keepAliveTimeoutMs = 72000,
      cf_bodyLimitBytes = 1048576, cf_connectionsCheckingIntervalMs = 5000, cf_trustProxy = False,
      cf_rateLimitDefaultLimit = 100, cf_rateLimitDefaultWindowMs = 60000,
      cf_loginThrottleLimit = 2, cf_loginThrottleWindowMs = 900000, cf_rateLimitFailOpen = True\<rparr>"

end
