(* ===== verification/Rate_Limit.thy ===== *)
theory Rate_Limit
  imports Kit_Common Kit_Config
begin

text \<open>
  The counting half of rate limiting, \<open>services/auth/src/ratelimit/rate-limit.store.ts\<close>: the two
  Lua scripts over a Redis sorted set and the store around them. Redis is the part of its
  command set the scripts use: sorted sets with scores, key expiry in milliseconds and the server
  clock in microseconds. A script runs at one instant of that clock, as scripts in Redis do.
\<close>

section \<open>Redis\<close>

record ZSet =
  zs_members :: "(string \<times> int) list"
  zs_expireAt :: "int option"

record Redis =
  rd_keys :: "string \<Rightarrow> ZSet option"
  rd_clock :: nat
  rd_up :: bool

text \<open>\<open>TIME\<close> answers seconds and microseconds; the scripts turn them into milliseconds.\<close>

definition redis_TIME :: "Redis \<Rightarrow> int \<times> int" where
  "redis_TIME r = (int (rd_clock r) div 1000000, int (rd_clock r) mod 1000000)"

definition now_ms :: "Redis \<Rightarrow> int" where
  "now_ms r = (case redis_TIME r of (s, us) \<Rightarrow> s * 1000 + us div 1000)"

text \<open>The members a command sees: none once the expiry has passed.\<close>

definition live_members :: "Redis \<Rightarrow> string \<Rightarrow> (string \<times> int) list" where
  "live_members r k =
     (case rd_keys r k of
        None \<Rightarrow> []
      | Some z \<Rightarrow>
          (case zs_expireAt z of
             None \<Rightarrow> zs_members z
           | Some e \<Rightarrow> if e < now_ms r then [] else zs_members z))"

definition live_expiry :: "Redis \<Rightarrow> string \<Rightarrow> int option" where
  "live_expiry r k =
     (case rd_keys r k of
        None \<Rightarrow> None
      | Some z \<Rightarrow>
          (case zs_expireAt z of
             None \<Rightarrow> None
           | Some e \<Rightarrow> if e < now_ms r then None else Some e))"

text \<open>A key whose last member goes is removed, with its expiry.\<close>

definition put_members :: "string \<Rightarrow> (string \<times> int) list \<Rightarrow> int option \<Rightarrow> Redis \<Rightarrow> Redis" where
  "put_members k ms e r =
     r\<lparr>rd_keys := (rd_keys r)
         (k := (if ms = [] then None else Some \<lparr>zs_members = ms, zs_expireAt = e\<rparr>))\<rparr>"

definition ZREMRANGEBYSCORE :: "string \<Rightarrow> int \<Rightarrow> int \<Rightarrow> Redis \<Rightarrow> Redis" where
  "ZREMRANGEBYSCORE k lo hi r =
     put_members k (filter (\<lambda>(m, s). \<not> (lo \<le> s \<and> s \<le> hi)) (live_members r k)) (live_expiry r k) r"

definition ZCARD :: "string \<Rightarrow> Redis \<Rightarrow> int" where
  "ZCARD k r = int (length (live_members r k))"

text \<open>The score of the first element of \<open>ZRANGE key 0 0 WITHSCORES\<close>, when there is one.\<close>

definition ZRANGE_first_score :: "string \<Rightarrow> Redis \<Rightarrow> int option" where
  "ZRANGE_first_score k r =
     (case live_members r k of [] \<Rightarrow> None | m # ms \<Rightarrow> Some (Min (set (map snd (m # ms)))))"

definition ZADD :: "string \<Rightarrow> int \<Rightarrow> string \<Rightarrow> Redis \<Rightarrow> Redis" where
  "ZADD k score member r =
     put_members k (filter (\<lambda>(m, s). m \<noteq> member) (live_members r k) @ [(member, score)])
       (live_expiry r k) r"

definition PEXPIRE :: "string \<Rightarrow> int \<Rightarrow> Redis \<Rightarrow> Redis" where
  "PEXPIRE k ms r = put_members k (live_members r k) (Some (now_ms r + ms)) r"

definition DEL :: "string \<Rightarrow> Redis \<Rightarrow> Redis" where
  "DEL k r = put_members k [] None r"

section \<open>The scripts\<close>

text \<open>None is a script error: with nothing to take the oldest entry of, the arithmetic on it
  raises.\<close>

definition slidingWindow ::
    "string \<Rightarrow> int \<Rightarrow> int \<Rightarrow> string \<Rightarrow> Redis \<Rightarrow> (int \<times> int \<times> int) option \<times> Redis" where
  "slidingWindow key window limit member r0 =
     (let now = now_ms r0;
          r = ZREMRANGEBYSCORE key 0 (now - window) r0;
          count = ZCARD key r
      in if count \<ge> limit then
           (case ZRANGE_first_score key r of
              None \<Rightarrow> (None, r)
            | Some oldest \<Rightarrow>
                let retry = window - (now - oldest)
                in (Some (0, count, if retry < 0 then 0 else retry), r))
         else (Some (1, count + 1, 0), PEXPIRE key window (ZADD key now member r)))"

definition peekWindow :: "string \<Rightarrow> int \<Rightarrow> Redis \<Rightarrow> (int \<times> int) option \<times> Redis" where
  "peekWindow key window r0 =
     (let now = now_ms r0;
          r = ZREMRANGEBYSCORE key 0 (now - window) r0;
          count = ZCARD key r
      in if count = 0 then (Some (0, 0), r)
         else
           (case ZRANGE_first_score key r of
              None \<Rightarrow> (None, r)
            | Some oldest \<Rightarrow>
                let retry = window - (now - oldest)
                in (Some (count, if retry < 0 then 0 else retry), r)))"

section \<open>The store\<close>

record RateLimitResult =
  rl_allowed :: bool
  rl_count :: int
  rl_limit :: int
  rl_retryAfterMs :: int
  rl_degraded :: bool

text \<open>A process: the random instance id drawn at start and the counter of its member ids.\<close>

record MemberIds =
  mi_instanceId :: string
  mi_counter :: nat

definition newMemberIdFactory :: "bytes \<Rightarrow> MemberIds" where
  "newMemberIdFactory randomBytes =
     \<lparr>mi_instanceId = base64url_encode randomBytes, mi_counter = 0\<rparr>"

definition memberId :: "string \<Rightarrow> nat \<Rightarrow> string" where
  "memberId instanceId counter = instanceId @ '':'' @ show_nat counter"

definition nextMemberId :: "MemberIds \<Rightarrow> string \<times> MemberIds" where
  "nextMemberId f =
     (let c = Suc (mi_counter f) in (memberId (mi_instanceId f) c, f\<lparr>mi_counter := c\<rparr>))"

definition keyPrefix :: string where
  "keyPrefix = ''crbk:''"

definition peek :: "string \<Rightarrow> int \<Rightarrow> int \<Rightarrow> Redis \<Rightarrow> RateLimitResult \<times> Redis" where
  "peek key limit windowMs r =
     (let degraded = \<lparr>rl_allowed = True, rl_count = 0, rl_limit = limit, rl_retryAfterMs = 0,
                      rl_degraded = True\<rparr>
      in if \<not> rd_up r then (degraded, r)
         else
           (case peekWindow (keyPrefix @ key) windowMs r of
              (None, r') \<Rightarrow> (degraded, r')
            | (Some (count, retryAfterMs), r') \<Rightarrow>
                (\<lparr>rl_allowed = count < limit, rl_count = count, rl_limit = limit,
                  rl_retryAfterMs = retryAfterMs, rl_degraded = False\<rparr>, r')))"

definition consume ::
    "AppConfig \<Rightarrow> string \<Rightarrow> int \<Rightarrow> int \<Rightarrow> MemberIds \<Rightarrow> Redis \<Rightarrow> RateLimitResult \<times> MemberIds \<times> Redis" where
  "consume config key limit windowMs f r =
     (case nextMemberId f of (member, f') \<Rightarrow>
        let degraded = \<lparr>rl_allowed = cf_rateLimitFailOpen config, rl_count = 0, rl_limit = limit,
                        rl_retryAfterMs = (if cf_rateLimitFailOpen config then 0 else 1000),
                        rl_degraded = True\<rparr>
        in if \<not> rd_up r then (degraded, f', r)
           else
             (case slidingWindow (keyPrefix @ key) windowMs limit member r of
                (None, r') \<Rightarrow> (degraded, f', r')
              | (Some (allowed, count, retryAfterMs), r') \<Rightarrow>
                  (\<lparr>rl_allowed = (allowed = 1), rl_count = count, rl_limit = limit,
                    rl_retryAfterMs = retryAfterMs, rl_degraded = False\<rparr>, f', r')))"

definition reset :: "string \<Rightarrow> Redis \<Rightarrow> Redis" where
  "reset key r = (if rd_up r then DEL (keyPrefix @ key) r else r)"

section \<open>Facts about the sorted set\<close>

lemma now_ms_clock: "now_ms r = int (rd_clock r) div 1000"
proof -
  define q u where "q = int (rd_clock r) div 1000000" and "u = int (rd_clock r) mod 1000000"
  have "int (rd_clock r) = 1000 * (1000 * q) + u" by (simp add: q_def u_def)
  then have "int (rd_clock r) div 1000 = 1000 * q + u div 1000"
    by (simp only: div_mult_self4)
  then show ?thesis by (simp add: now_ms_def redis_TIME_def q_def u_def)
qed

lemma put_members_simps [simp]:
  "rd_clock (put_members k ms e r) = rd_clock r" "rd_up (put_members k ms e r) = rd_up r"
  "now_ms (put_members k ms e r) = now_ms r"
  by (simp_all add: put_members_def now_ms_clock)

lemma live_put_members [simp]:
  "live_members (put_members k ms e r) k' =
     (if k' = k then (if (\<exists>t. e = Some t \<and> t < now_ms r) then [] else ms) else live_members r k')"
  "live_expiry (put_members k ms e r) k' =
     (if k' = k then
        (case e of None \<Rightarrow> None | Some t \<Rightarrow> if ms = [] \<or> t < now_ms r then None else Some t)
      else live_expiry r k')"
  by (auto simp: live_members_def live_expiry_def put_members_def now_ms_clock split: option.splits)

lemma live_expiry_future: "live_expiry r k = Some e \<Longrightarrow> now_ms r \<le> e"
  by (auto simp: live_expiry_def split: option.splits if_splits)

definition window_members :: "string \<Rightarrow> int \<Rightarrow> Redis \<Rightarrow> (string \<times> int) list" where
  "window_members k w r =
     filter (\<lambda>(m, s). \<not> (0 \<le> s \<and> s \<le> now_ms r - w)) (live_members r k)"

lemma live_after_trim [simp]:
  "live_members (ZREMRANGEBYSCORE k 0 (now_ms r - w) r) k = window_members k w r"
  using live_expiry_future [of r k] by (auto simp: ZREMRANGEBYSCORE_def window_members_def)

lemma trim_simps [simp]:
  "rd_clock (ZREMRANGEBYSCORE k a b r) = rd_clock r" "rd_up (ZREMRANGEBYSCORE k a b r) = rd_up r"
  "now_ms (ZREMRANGEBYSCORE k a b r) = now_ms r"
  by (simp_all add: ZREMRANGEBYSCORE_def)

text \<open>The scripts in terms of the members still in the window.\<close>

lemma slidingWindow_alt:
  "slidingWindow k w limit m r =
     (let ms = window_members k w r; r' = ZREMRANGEBYSCORE k 0 (now_ms r - w) r in
      if int (length ms) \<ge> limit then
        (if ms = [] then None
         else Some (0, int (length ms), max 0 (w - (now_ms r - Min (set (map snd ms))))), r')
      else (Some (1, int (length ms) + 1, 0), PEXPIRE k w (ZADD k (now_ms r) m r')))"
  by (auto simp: slidingWindow_def Let_def ZCARD_def ZRANGE_first_score_def max_def split: list.splits)

lemma peekWindow_alt:
  "peekWindow k w r =
     (let ms = window_members k w r in
      Some (if ms = [] then (0, 0)
            else (int (length ms), max 0 (w - (now_ms r - Min (set (map snd ms)))))),
      ZREMRANGEBYSCORE k 0 (now_ms r - w) r)"
  by (auto simp: peekWindow_def Let_def ZCARD_def ZRANGE_first_score_def max_def split: list.splits)

lemma live_after_add:
  assumes "0 \<le> w"
  shows "live_members (PEXPIRE k w (ZADD k t m r)) k =
      filter (\<lambda>(m', s). m' \<noteq> m) (live_members r k) @ [(m, t)]"
    and "live_expiry (PEXPIRE k w (ZADD k t m r)) k = Some (now_ms r + w)"
  using assms live_expiry_future [of r k] by (auto simp: PEXPIRE_def ZADD_def split: option.splits)

lemma script_other_key:
  assumes "k' \<noteq> k"
  shows "live_members (snd (slidingWindow k w l m r)) k' = live_members r k'"
    and "live_expiry (snd (slidingWindow k w l m r)) k' = live_expiry r k'"
    and "live_members (snd (peekWindow k w r)) k' = live_members r k'"
    and "live_expiry (snd (peekWindow k w r)) k' = live_expiry r k'"
  using assms
  by (simp_all add: slidingWindow_alt peekWindow_alt Let_def PEXPIRE_def ZADD_def ZREMRANGEBYSCORE_def)

lemma script_clock [simp]:
  "now_ms (snd (slidingWindow k w l m r)) = now_ms r" "rd_clock (snd (slidingWindow k w l m r)) = rd_clock r"
  "now_ms (snd (peekWindow k w r)) = now_ms r" "rd_clock (snd (peekWindow k w r)) = rd_clock r"
  "rd_up (snd (slidingWindow k w l m r)) = rd_up r" "rd_up (snd (peekWindow k w r)) = rd_up r"
  by (simp_all add: slidingWindow_alt peekWindow_alt Let_def PEXPIRE_def ZADD_def)

section \<open>What the scripts promise\<close>

lemma window_members_nonneg:
  assumes "\<And>m s. (m, s) \<in> set (live_members r k) \<Longrightarrow> 0 \<le> s"
  shows "window_members k w r = filter (\<lambda>(m, s). now_ms r - w < s) (live_members r k)"
  using assms unfolding window_members_def by (auto intro!: filter_cong)

lemma slidingWindow_accepts_iff:
  "(\<exists>c. fst (slidingWindow k w l m r) = Some (1, c, 0)) \<longleftrightarrow> int (length (window_members k w r)) < l"
  by (auto simp: slidingWindow_alt Let_def)

lemma peek_then_slide:
  assumes "0 \<le> w"
  shows "slidingWindow k w l m (snd (peekWindow k w r)) = slidingWindow k w l m r"
proof -
  let ?r = "ZREMRANGEBYSCORE k 0 (now_ms r - w) r"
  have ms: "window_members k w ?r = window_members k w r"
    by (simp add: window_members_def [of k w ?r]) (auto simp: window_members_def intro!: filter_True)
  have "ZREMRANGEBYSCORE k 0 (now_ms r - w) ?r = ?r"
  proof -
    have f: "filter (\<lambda>(m, s). \<not> (0 \<le> s \<and> s \<le> now_ms r - w)) (live_members ?r k) = live_members ?r k"
      by (auto simp: window_members_def intro!: filter_True)
    have e: "rd_keys ?r k = (if window_members k w r = [] then None
        else Some \<lparr>zs_members = window_members k w r, zs_expireAt = live_expiry r k\<rparr>)"
      by (simp add: ZREMRANGEBYSCORE_def put_members_def window_members_def)
    have "put_members k (live_members ?r k) (live_expiry ?r k) ?r = ?r"
      using e live_expiry_future [of r k]
      by (auto simp: put_members_def live_expiry_def [of ?r] fun_upd_idem split: option.splits)
    then show ?thesis using f by (simp only: ZREMRANGEBYSCORE_def [of _ _ _ ?r])
  qed
  then show ?thesis
    by (simp add: slidingWindow_alt [of k w l m ?r] slidingWindow_alt [of k w l m r]
        peekWindow_alt ms Let_def)
qed

text \<open>The exact wait: with the window full, the reported delay is positive and at most the
  window; before it has passed the key stays full, and once it has passed a slot is free.\<close>

definition at_ms :: "int \<Rightarrow> Redis \<Rightarrow> Redis" where
  "at_ms t r = r\<lparr>rd_clock := nat (1000 * t)\<rparr>"

lemma now_at_ms [simp]: "0 \<le> t \<Longrightarrow> now_ms (at_ms t r) = t"
  by (simp add: at_ms_def now_ms_clock)

text \<open>What every bucket the store writes satisfies: scores lie in the past and the expiry is
  late enough for the youngest of them.\<close>

definition bucket_ok :: "int \<Rightarrow> Redis \<Rightarrow> string \<Rightarrow> bool" where
  "bucket_ok w r k \<longleftrightarrow>
     (case rd_keys r k of
        None \<Rightarrow> True
      | Some z \<Rightarrow>
          \<exists>e. zs_expireAt z = Some e \<and> distinct (map fst (zs_members z)) \<and>
            (\<forall>(m, s)\<in>set (zs_members z). 0 \<le> s \<and> s \<le> now_ms r \<and> s + w \<le> e))"

definition stored_members :: "Redis \<Rightarrow> string \<Rightarrow> (string \<times> int) list" where
  "stored_members r k = (case rd_keys r k of None \<Rightarrow> [] | Some z \<Rightarrow> zs_members z)"

text \<open>An expired bucket has no member left in the window, so expiry never loses a live event.\<close>

lemma window_members_stored:
  assumes "bucket_ok w r k"
  shows "window_members k w r = filter (\<lambda>(m, s). now_ms r - w < s) (stored_members r k)"
proof (cases "rd_keys r k")
  case None
  then show ?thesis by (simp add: window_members_def live_members_def stored_members_def)
next
  case (Some z)
  with assms obtain e where e: "zs_expireAt z = Some e"
    and m: "\<And>m s. (m, s) \<in> set (zs_members z) \<Longrightarrow> 0 \<le> s \<and> s \<le> now_ms r \<and> s + w \<le> e"
    by (auto simp: bucket_ok_def)
  show ?thesis
  proof (cases "e < now_ms r")
    case True
    then have "\<not> now_ms r - w < s" if "(m', s) \<in> set (zs_members z)" for m' s
      using m [OF that] by simp
    with True Some e show ?thesis
      by (fastforce simp: window_members_def live_members_def stored_members_def filter_empty_conv
          intro: sym)
  next
    case False
    then show ?thesis
      using Some e m
      by (auto simp: window_members_def live_members_def stored_members_def intro!: filter_cong)
  qed
qed

lemma bucket_ok_later:
  "bucket_ok w r k \<Longrightarrow> rd_keys r' k = rd_keys r k \<Longrightarrow> now_ms r \<le> now_ms r' \<Longrightarrow> bucket_ok w r' k"
  unfolding bucket_ok_def by (fastforce split: option.splits)

lemma Min_snd_mem: "xs \<noteq> [] \<Longrightarrow> \<exists>m. (m, Min (set (map snd xs))) \<in> set xs"
proof -
  assume "xs \<noteq> []"
  then have "Min (set (map snd xs)) \<in> snd ` set xs" using Min_in [of "set (map snd xs)"] by simp
  then obtain x where "x \<in> set xs" "Min (set (map snd xs)) = snd x" by blast
  then show ?thesis by (metis prod.collapse)
qed

lemma retry_exact:
  assumes ok: "bucket_ok w r k" and w: "0 < w"
    and full: "fst (slidingWindow k w l m r) = Some (0, l, retry)"
    and later: "rd_keys r' k = rd_keys r k" "now_ms r \<le> now_ms r'"
  shows "0 < retry \<and> retry \<le> w"
    and "int (length (window_members k w r')) < l \<longleftrightarrow> now_ms r + retry \<le> now_ms r'"
proof -
  let ?ms = "window_members k w r"
  have win: "?ms = filter (\<lambda>(m, s). now_ms r - w < s) (stored_members r k)"
    by (rule window_members_stored [OF ok])
  have win': "window_members k w r' = filter (\<lambda>(m, s). now_ms r' - w < s) ?ms"
    unfolding win window_members_stored [OF bucket_ok_later [OF ok later]]
    using later by (auto simp: stored_members_def intro!: filter_cong)
  from full have ne: "?ms \<noteq> []" and len: "int (length ?ms) = l"
    and retry: "retry = max 0 (w - (now_ms r - Min (set (map snd ?ms))))"
    by (auto simp: slidingWindow_alt Let_def split: if_splits)
  define old where "old = Min (set (map snd ?ms))"
  obtain mo where mo: "(mo, old) \<in> set ?ms" using Min_snd_mem [OF ne] by (auto simp: old_def)
  have "(mo, old) \<in> set (stored_members r k)" using mo win by auto
  then have "old \<le> now_ms r" and "now_ms r - w < old"
    using ok mo win by (auto simp: bucket_ok_def stored_members_def split: option.splits)
  then have r: "retry = old + w - now_ms r" and "0 < retry \<and> retry \<le> w"
    using retry unfolding old_def by auto
  then show "0 < retry \<and> retry \<le> w" by blast
  have least: "old \<le> s" if "(m', s) \<in> set ?ms" for m' s
    using that by (force simp: old_def intro: Min_le)
  show "int (length (window_members k w r')) < l \<longleftrightarrow> now_ms r + retry \<le> now_ms r'"
  proof
    assume "now_ms r + retry \<le> now_ms r'"
    then have "length (window_members k w r') < length ?ms"
      using mo r unfolding win' by (intro length_filter_less [of "(mo, old)"]) auto
    then show "int (length (window_members k w r')) < l" using len by simp
  next
    assume "int (length (window_members k w r')) < l"
    then have "window_members k w r' \<noteq> ?ms" using len by auto
    then obtain x where "x \<in> set ?ms" "\<not> (case x of (m, s) \<Rightarrow> now_ms r' - w < s)"
      unfolding win' by (metis (mono_tags, lifting) filter_True)
    then show "now_ms r + retry \<le> now_ms r'" using least r by fastforce
  qed
qed

section \<open>Any number of processes against one bucket\<close>

text \<open>The machine behind the limit: processes that share one Redis, each with its own member ids,
  any mix of consumes, peeks and resets on any key, a clock that advances, and outages. The logs
  are the specification: the events of the watched key that Redis counted since its last reset, and the
  times of the requests let through without it.\<close>

record Limiter =
  lm_redis :: Redis
  lm_ids :: "nat \<Rightarrow> MemberIds"
  lm_log :: "(string \<times> int) list"
  lm_uncounted :: "int list"

inductive limiter_step :: "AppConfig \<Rightarrow> string \<Rightarrow> int \<Rightarrow> int \<Rightarrow> Limiter \<Rightarrow> Limiter \<Rightarrow> bool"
  for config :: AppConfig and key :: string and limit :: int and window :: int where
  tick: "rd_clock (lm_redis s) \<le> t \<Longrightarrow>
     limiter_step config key limit window s (s\<lparr>lm_redis := (lm_redis s)\<lparr>rd_clock := t\<rparr>\<rparr>)"
| outage: "limiter_step config key limit window s (s\<lparr>lm_redis := (lm_redis s)\<lparr>rd_up := b\<rparr>\<rparr>)"
| consumes: "consume config key limit window (lm_ids s p) (lm_redis s) = (res, f, r) \<Longrightarrow>
     limiter_step config key limit window s
       (s\<lparr>lm_redis := r, lm_ids := (lm_ids s)(p := f),
          lm_log := (if rl_allowed res \<and> \<not> rl_degraded res
                     then lm_log s @ [(fst (nextMemberId (lm_ids s p)), now_ms (lm_redis s))]
                     else lm_log s),
          lm_uncounted := (if rl_allowed res \<and> rl_degraded res
                           then lm_uncounted s @ [now_ms (lm_redis s)] else lm_uncounted s)\<rparr>)"
| peeks: "peek key l window (lm_redis s) = (res, r) \<Longrightarrow>
     limiter_step config key limit window s (s\<lparr>lm_redis := r\<rparr>)"
| resets: "rd_up (lm_redis s) \<Longrightarrow>
     limiter_step config key limit window s (s\<lparr>lm_redis := reset key (lm_redis s), lm_log := []\<rparr>)"
| other_consumes: "key' \<noteq> key \<Longrightarrow> consume config key' l w (lm_ids s p) (lm_redis s) = (res, f, r) \<Longrightarrow>
     limiter_step config key limit window s (s\<lparr>lm_redis := r, lm_ids := (lm_ids s)(p := f)\<rparr>)"
| other_peeks: "key' \<noteq> key \<Longrightarrow> peek key' l w (lm_redis s) = (res, r) \<Longrightarrow>
     limiter_step config key limit window s (s\<lparr>lm_redis := r\<rparr>)"
| other_resets: "key' \<noteq> key \<Longrightarrow>
     limiter_step config key limit window s (s\<lparr>lm_redis := reset key' (lm_redis s)\<rparr>)"

definition limiter_init :: "string \<Rightarrow> int \<Rightarrow> Limiter \<Rightarrow> bool" where
  "limiter_init key window s \<longleftrightarrow> 0 < window \<and>
     rd_keys (lm_redis s) (keyPrefix @ key) = None \<and> lm_log s = [] \<and> lm_uncounted s = [] \<and>
     inj (\<lambda>p. mi_instanceId (lm_ids s p)) \<and> (\<forall>p. CHR '':'' \<notin> set (mi_instanceId (lm_ids s p)))"

text \<open>Events of the log in the window that ends at \<open>t\<close>.\<close>

definition in_window :: "int \<Rightarrow> int \<Rightarrow> (string \<times> int) list \<Rightarrow> (string \<times> int) list" where
  "in_window w t log = filter (\<lambda>(m, s). t - w < s \<and> s \<le> t) log"

definition ids_ok :: "Limiter \<Rightarrow> bool" where
  "ids_ok s \<longleftrightarrow>
     inj (\<lambda>p. mi_instanceId (lm_ids s p)) \<and> (\<forall>p. CHR '':'' \<notin> set (mi_instanceId (lm_ids s p))) \<and>
     (\<forall>(m, t)\<in>set (lm_log s). \<exists>p n. n \<le> mi_counter (lm_ids s p) \<and> m = memberId (mi_instanceId (lm_ids s p)) n)"

definition log_ok :: "string \<Rightarrow> int \<Rightarrow> int \<Rightarrow> Redis \<Rightarrow> (string \<times> int) list \<Rightarrow> bool" where
  "log_ok k limit window r log \<longleftrightarrow>
     bucket_ok window r k \<and>
     window_members k window r = filter (\<lambda>(m, t). now_ms r - window < t) log \<and>
     set (stored_members r k) \<subseteq> set log \<and>
     (\<forall>(m, t)\<in>set log. 0 \<le> t \<and> t \<le> now_ms r) \<and>
     (\<forall>t. int (length (in_window window t log)) \<le> max 0 limit)"

definition limiter_inv :: "AppConfig \<Rightarrow> string \<Rightarrow> int \<Rightarrow> int \<Rightarrow> Limiter \<Rightarrow> bool" where
  "limiter_inv config key limit window s \<longleftrightarrow> 0 < window \<and>
     (cf_rateLimitFailOpen config \<or> lm_uncounted s = []) \<and> ids_ok s \<and> log_ok (keyPrefix @ key) limit window (lm_redis s) (lm_log s)"

lemma memberId_inject:
  assumes "CHR '':'' \<notin> set i" and "CHR '':'' \<notin> set j"
  shows "memberId i m = memberId j n \<longleftrightarrow> i = j \<and> m = n"
  using split_at_first_sep [of i "CHR '':''" "show_nat m" j "show_nat n"] assms
  by (auto simp: memberId_def)

lemma ids_ok_fresh:
  assumes "ids_ok s" and "(m, t) \<in> set (lm_log s)"
  shows "m \<noteq> fst (nextMemberId (lm_ids s p))"
proof
  assume m: "m = fst (nextMemberId (lm_ids s p))"
  from assms obtain q n where n: "n \<le> mi_counter (lm_ids s q)"
    and mq: "m = memberId (mi_instanceId (lm_ids s q)) n"
    by (auto simp: ids_ok_def)
  from m mq have "memberId (mi_instanceId (lm_ids s q)) n =
      memberId (mi_instanceId (lm_ids s p)) (Suc (mi_counter (lm_ids s p)))"
    by (simp add: nextMemberId_def Let_def)
  then have "mi_instanceId (lm_ids s q) = mi_instanceId (lm_ids s p)"
    and "n = Suc (mi_counter (lm_ids s p))"
    using assms(1) by (simp_all add: ids_ok_def memberId_inject)
  moreover from this have "q = p" using assms(1) by (auto simp: ids_ok_def dest: injD)
  ultimately show False using n by simp
qed

lemma ids_ok_consume:
  assumes "ids_ok s" and "lm_ids t = (lm_ids s)(p := snd (nextMemberId (lm_ids s p)))"
    and "set (lm_log t) \<subseteq> insert (fst (nextMemberId (lm_ids s p)), u) (set (lm_log s))"
  shows "ids_ok t"
proof -
  let ?c = "mi_counter (lm_ids s p)"
  have inst: "mi_instanceId (lm_ids t q) = mi_instanceId (lm_ids s q)" for q
    using assms(2) by (simp add: nextMemberId_def Let_def)
  have cnt: "mi_counter (lm_ids s q) \<le> mi_counter (lm_ids t q)" "mi_counter (lm_ids t p) = Suc ?c" for q
    using assms(2) by (simp_all add: nextMemberId_def Let_def)
  have "\<exists>q n. n \<le> mi_counter (lm_ids t q) \<and> m = memberId (mi_instanceId (lm_ids t q)) n"
    if "(m, v) \<in> set (lm_log t)" for m v
  proof (cases "(m, v) \<in> set (lm_log s)")
    case True
    with assms(1) obtain q n where "n \<le> mi_counter (lm_ids s q)"
      "m = memberId (mi_instanceId (lm_ids s q)) n" by (auto simp: ids_ok_def)
    with cnt(1) [of q] inst [of q] show ?thesis by (metis le_trans)
  next
    case False
    with that assms(3) have "m = memberId (mi_instanceId (lm_ids s p)) (Suc ?c)"
      by (auto simp: nextMemberId_def Let_def)
    then show ?thesis using cnt(2) inst by (metis le_refl)
  qed
  then show ?thesis using assms(1) inst by (auto simp: ids_ok_def)
qed

lemma ids_ok_redis [simp]:
  "ids_ok (s\<lparr>lm_redis := r\<rparr>) = ids_ok s" "ids_ok s \<Longrightarrow> ids_ok (s\<lparr>lm_redis := r, lm_log := []\<rparr>)"
  by (simp_all add: ids_ok_def)

lemma now_nonneg [simp]: "0 \<le> now_ms r"
  by (simp add: now_ms_clock)

lemma stored_put:
  "rd_keys (put_members k ms e r) k =
     (if ms = [] then None else Some \<lparr>zs_members = ms, zs_expireAt = e\<rparr>)"
  by (simp add: put_members_def)

lemma stored_trim:
  "rd_keys (ZREMRANGEBYSCORE k 0 (now_ms r - w) r) k =
     (if window_members k w r = [] then None
      else Some \<lparr>zs_members = window_members k w r, zs_expireAt = live_expiry r k\<rparr>)"
  by (simp add: ZREMRANGEBYSCORE_def put_members_def window_members_def)

lemma stored_accept:
  assumes "0 \<le> w" and "m \<notin> fst ` set (window_members k w r)"
  shows "rd_keys (PEXPIRE k w (ZADD k (now_ms r) m (ZREMRANGEBYSCORE k 0 (now_ms r - w) r))) k =
     Some \<lparr>zs_members = window_members k w r @ [(m, now_ms r)], zs_expireAt = Some (now_ms r + w)\<rparr>"
proof -
  let ?r = "ZREMRANGEBYSCORE k 0 (now_ms r - w) r"
  have "filter (\<lambda>(m', s). m' \<noteq> m) (window_members k w r) = window_members k w r"
    using assms(2) by (auto simp: image_iff intro!: filter_True)
  moreover have "\<not> (\<exists>t. live_expiry ?r k = Some t \<and> t < now_ms r)"
    using live_expiry_future [of ?r k] by auto
  ultimately have "live_members (ZADD k (now_ms r) m ?r) k = window_members k w r @ [(m, now_ms r)]"
    by (simp add: ZADD_def)
  moreover have "now_ms (ZADD k (now_ms r) m ?r) = now_ms r" by (simp add: ZADD_def)
  ultimately show ?thesis by (simp add: PEXPIRE_def stored_put)
qed

lemma window_in_stored: "set (window_members k w r) \<subseteq> set (stored_members r k)"
  by (auto simp: window_members_def live_members_def stored_members_def split: option.splits if_splits)

lemma window_expiry:
  assumes "bucket_ok w r k" and "window_members k w r \<noteq> []"
  obtains e where "live_expiry r k = Some e"
    "\<And>m s. (m, s) \<in> set (window_members k w r) \<Longrightarrow> 0 \<le> s \<and> s \<le> now_ms r \<and> s + w \<le> e"
    "distinct (map fst (window_members k w r))"
proof -
  obtain z where z: "rd_keys r k = Some z"
    using assms(2) by (cases "rd_keys r k") (auto simp: window_members_def live_members_def)
  with assms(1) obtain e where e: "zs_expireAt z = Some e" "distinct (map fst (zs_members z))"
    and m: "\<And>m s. (m, s) \<in> set (zs_members z) \<Longrightarrow> 0 \<le> s \<and> s \<le> now_ms r \<and> s + w \<le> e"
    by (auto simp: bucket_ok_def)
  have "\<not> e < now_ms r" and wm: "window_members k w r = filter (\<lambda>(m, s). \<not> (0 \<le> s \<and> s \<le> now_ms r - w)) (zs_members z)"
    using assms(2) z e by (auto simp: window_members_def live_members_def split: if_splits)
  with z e m show ?thesis
    by (intro that [of e]) (auto simp: live_expiry_def distinct_map_filter)
qed

lemma log_ok_later:
  assumes ok: "log_ok k l w r log" and keys: "rd_keys r' k = rd_keys r k" and le: "now_ms r \<le> now_ms r'"
  shows "log_ok k l w r' log"
proof -
  have b: "bucket_ok w r k" using ok by (simp add: log_ok_def)
  have b': "bucket_ok w r' k" by (rule bucket_ok_later [OF b keys le])
  have f: "filter (\<lambda>(m, t). now_ms r' - w < t) xs =
      filter (\<lambda>(m, t). now_ms r' - w < t) (filter (\<lambda>(m, t). now_ms r - w < t) xs)"
    for xs :: "(string \<times> int) list"
    using le by (auto intro!: filter_cong)
  have "window_members k w r' = filter (\<lambda>(m, t). now_ms r' - w < t) (window_members k w r)"
    unfolding window_members_stored [OF b] window_members_stored [OF b']
    using keys f [of "stored_members r k"] by (simp add: stored_members_def)
  then have "window_members k w r' = filter (\<lambda>(m, t). now_ms r' - w < t) log"
    using ok f [of log] by (simp add: log_ok_def)
  moreover have "0 \<le> t \<and> t \<le> now_ms r'" if "(m, t) \<in> set log" for m t
    using ok le that by (fastforce simp: log_ok_def)
  ultimately show ?thesis using ok b' keys by (auto simp: log_ok_def stored_members_def)
qed

lemma log_ok_trim:
  assumes ok: "log_ok k l w r log"
  shows "log_ok k l w (ZREMRANGEBYSCORE k 0 (now_ms r - w) r) log" (is "log_ok k l w ?r log")
proof -
  have b: "bucket_ok w r k" using ok by (simp add: log_ok_def)
  have "bucket_ok w ?r k"
  proof (cases "window_members k w r = []")
    case False
    from window_expiry [OF b False] obtain e where "live_expiry r k = Some e"
      "\<And>m s. (m, s) \<in> set (window_members k w r) \<Longrightarrow> 0 \<le> s \<and> s \<le> now_ms r \<and> s + w \<le> e"
      "distinct (map fst (window_members k w r))" by blast
    with False show ?thesis by (auto simp: bucket_ok_def stored_trim)
  qed (simp add: bucket_ok_def stored_trim)
  moreover have "window_members k w ?r = window_members k w r"
    by (auto simp: window_members_def [of k w ?r] window_members_def intro!: filter_True)
  moreover have "set (stored_members ?r k) \<subseteq> set log"
    using ok window_in_stored [of k w r] by (auto simp: log_ok_def stored_members_def [of ?r] stored_trim)
  ultimately show ?thesis using ok by (simp add: log_ok_def)
qed

lemma in_window_append: "in_window w t (xs @ ys) = in_window w t xs @ in_window w t ys"
  by (simp add: in_window_def)

lemma log_ok_accept:
  assumes ok: "log_ok k l w r log" and w: "0 < w" and room: "int (length (window_members k w r)) < l"
    and fresh: "m \<notin> fst ` set log"
  shows "log_ok k l w (PEXPIRE k w (ZADD k (now_ms r) m (ZREMRANGEBYSCORE k 0 (now_ms r - w) r)))
     (log @ [(m, now_ms r)])" (is "log_ok k l w ?r _")
proof -
  have b: "bucket_ok w r k" and wm: "window_members k w r = filter (\<lambda>(m, t). now_ms r - w < t) log"
    and past: "\<And>m t. (m, t) \<in> set log \<Longrightarrow> 0 \<le> t \<and> t \<le> now_ms r"
    and bound: "\<And>t. int (length (in_window w t log)) \<le> max 0 l"
    using ok by (auto simp: log_ok_def)
  have now: "now_ms ?r = now_ms r" by (simp add: PEXPIRE_def ZADD_def)
  have fresh': "m \<notin> fst ` set (window_members k w r)" using fresh wm by auto
  note keys = stored_accept [OF less_imp_le [OF w] fresh']
  have "distinct (map fst (window_members k w r))"
  proof (cases "window_members k w r = []")
    case False
    from window_expiry [OF b False] show ?thesis by blast
  qed simp
  then have b': "bucket_ok w ?r k"
    using w fresh' past wm by (auto simp: bucket_ok_def keys now)
  have wm': "window_members k w ?r = window_members k w r @ [(m, now_ms r)]"
    unfolding window_members_stored [OF b'] using w wm
    by (auto simp: stored_members_def keys now intro!: filter_True)
  have "int (length (in_window w t (log @ [(m, now_ms r)]))) \<le> max 0 l" for t
  proof (cases "t < now_ms r \<or> now_ms r \<le> t - w")
    case True
    then have "in_window w t [(m, now_ms r)] = []" by (auto simp: in_window_def)
    then show ?thesis using bound [of t] by (simp add: in_window_append)
  next
    case False
    have "in_window w t log = filter (\<lambda>(m, s). t - w < s) (window_members k w r)"
      unfolding wm in_window_def filter_filter
      using False by (intro filter_cong) (auto dest: past)
    then have "length (in_window w t log) \<le> length (window_members k w r)" by simp
    moreover have "length (in_window w t [(m, now_ms r)]) \<le> 1" by (simp add: in_window_def)
    ultimately show ?thesis using room by (simp add: in_window_append)
  qed
  then show ?thesis
    using b' wm' wm past w window_in_stored [of k w r] ok
    by (auto simp: log_ok_def now stored_members_def [of ?r] keys)
qed

lemma log_ok_reset: "log_ok k l w (DEL k r) []"
  by (simp add: log_ok_def DEL_def bucket_ok_def put_members_def window_members_def live_members_def
      stored_members_def in_window_def)

lemma log_ok_peek: "log_ok k l w r log \<Longrightarrow> log_ok k l w (snd (peekWindow k w r)) log"
  using log_ok_trim by (simp add: peekWindow_alt Let_def)

lemma rd_keys_other:
  assumes "k' \<noteq> k"
  shows "rd_keys (snd (slidingWindow k w l m r)) k' = rd_keys r k'"
    and "rd_keys (snd (peekWindow k w r)) k' = rd_keys r k'"
    and "rd_keys (DEL k r) k' = rd_keys r k'"
  using assms
  by (simp_all add: slidingWindow_alt peekWindow_alt Let_def PEXPIRE_def ZADD_def ZREMRANGEBYSCORE_def
      DEL_def put_members_def)

lemma log_ok_slide:
  assumes "log_ok k l w r log" and "0 < w" and "m \<notin> fst ` set log"
  shows "log_ok k l w (snd (slidingWindow k w l m r))
    (if \<exists>c z. fst (slidingWindow k w l m r) = Some (1, c, z) then log @ [(m, now_ms r)] else log)"
  using log_ok_accept [OF assms(1,2) _ assms(3)] log_ok_trim [OF assms(1)]
  by (auto simp: slidingWindow_alt Let_def)

text \<open>The two results of the store, split off from the outage branch.\<close>

lemma consume_cases:
  assumes "consume config key limit w f r = (res, f', r')"
  obtains (down) "\<not> rd_up r" "r' = r" "rl_degraded res"
  | (script) "rd_up r" "r' = snd (slidingWindow (keyPrefix @ key) w limit (fst (nextMemberId f)) r)"
      "rl_allowed res \<and> \<not> rl_degraded res \<longleftrightarrow>
        (\<exists>c z. fst (slidingWindow (keyPrefix @ key) w limit (fst (nextMemberId f)) r) = Some (1, c, z))"
  using assms unfolding consume_def
  by (auto simp: Let_def split: prod.splits if_splits option.splits)

lemma consume_ids: "consume config key limit w f r = (res, f', r') \<Longrightarrow> f' = snd (nextMemberId f)"
  unfolding consume_def by (auto simp: Let_def split: prod.splits if_splits option.splits)

lemma peek_cases:
  assumes "peek key limit w r = (res, r')"
  obtains (down) "\<not> rd_up r" "r' = r" | (script) "rd_up r" "r' = snd (peekWindow (keyPrefix @ key) w r)"
  using assms unfolding peek_def
  by (auto simp: Let_def split: prod.splits if_splits option.splits)

lemma limiter_consume:
  assumes inv: "limiter_inv config key limit w s"
    and run: "consume config key limit w (lm_ids s p) (lm_redis s) = (res, f, r)"
  shows "limiter_inv config key limit w
     (s\<lparr>lm_redis := r, lm_ids := (lm_ids s)(p := f),
        lm_log := (if rl_allowed res \<and> \<not> rl_degraded res
                   then lm_log s @ [(fst (nextMemberId (lm_ids s p)), now_ms (lm_redis s))]
                   else lm_log s),
        lm_uncounted := (if rl_allowed res \<and> rl_degraded res
                         then lm_uncounted s @ [now_ms (lm_redis s)] else lm_uncounted s)\<rparr>)" (is "limiter_inv config key limit w ?t")
proof -
  let ?m = "fst (nextMemberId (lm_ids s p))"
  have ids: "ids_ok s" and log: "log_ok (keyPrefix @ key) limit w (lm_redis s) (lm_log s)"
    and w: "0 < w" and closed: "cf_rateLimitFailOpen config \<or> lm_uncounted s = []"
    using inv by (simp_all add: limiter_inv_def)
  have closed': "cf_rateLimitFailOpen config \<or> lm_uncounted ?t = []"
    using run closed by (auto simp: consume_def Let_def split: prod.splits if_splits option.splits)
  have fresh: "?m \<notin> fst ` set (lm_log s)" using ids_ok_fresh [OF ids] by force
  have "ids_ok ?t"
    by (rule ids_ok_consume [OF ids, of _ p "now_ms (lm_redis s)"]) (auto simp: consume_ids [OF run])
  moreover have "log_ok (keyPrefix @ key) limit w (lm_redis ?t) (lm_log ?t)"
    using run
  proof (cases rule: consume_cases)
    case down
    then show ?thesis using log by simp
  next
    case script
    then show ?thesis using log_ok_slide [OF log w fresh] by simp
  qed
  ultimately show ?thesis using w closed' by (simp add: limiter_inv_def)
qed

lemma limiter_frame:
  assumes "limiter_inv config key limit w s" and "lm_log t = lm_log s" and "lm_uncounted t = lm_uncounted s" and "ids_ok t"
    and "rd_keys (lm_redis t) (keyPrefix @ key) = rd_keys (lm_redis s) (keyPrefix @ key)"
    and "now_ms (lm_redis s) \<le> now_ms (lm_redis t)"
  shows "limiter_inv config key limit w t"
  using assms log_ok_later [of "keyPrefix @ key" limit w "lm_redis s" "lm_log s" "lm_redis t"]
  by (simp add: limiter_inv_def)

lemma limiter_step_inv:
  assumes "limiter_step config key limit w s t" and "limiter_inv config key limit w s"
  shows "limiter_inv config key limit w t"
  using assms
proof (induction rule: limiter_step.induct)
  case (tick s t)
  have "now_ms (lm_redis s) \<le> now_ms ((lm_redis s)\<lparr>rd_clock := t\<rparr>)"
    using tick(1) by (simp add: now_ms_clock zdiv_mono1)
  with tick show ?case
    by (intro limiter_frame [OF tick(2)]) (auto simp: limiter_inv_def)
next
  case (outage s b)
  then show ?case
    by (intro limiter_frame [OF outage(1)]) (auto simp: limiter_inv_def now_ms_clock)
next
  case (consumes s p res f r)
  then show ?case by (intro limiter_consume)
next
  case (peeks l s res r)
  from peeks(1) show ?case
  proof (cases rule: peek_cases)
    case down
    then show ?thesis using peeks(2) by simp
  next
    case script
    with peeks(2) log_ok_peek show ?thesis by (auto simp: limiter_inv_def)
  qed
next
  case (resets s)
  then show ?case
    using log_ok_reset by (auto simp: limiter_inv_def reset_def)
next
  case (other_consumes key' l wd s p res f r)
  have "ids_ok s" using other_consumes(3) by (simp add: limiter_inv_def)
  then have ids: "ids_ok (s\<lparr>lm_redis := r, lm_ids := (lm_ids s)(p := f)\<rparr>)"
    by (rule ids_ok_consume [where p = p and u = 0]) (auto simp: consume_ids [OF other_consumes(2)])
  have keys: "keyPrefix @ key \<noteq> keyPrefix @ key'" using other_consumes(1) by simp
  from other_consumes(2) show ?case
  proof (cases rule: consume_cases)
    case down
    with ids show ?thesis by (intro limiter_frame [OF other_consumes(3)]) auto
  next
    case script
    with ids rd_keys_other(1) [OF keys] show ?thesis
      by (intro limiter_frame [OF other_consumes(3)]) auto
  qed
next
  case (other_peeks key' l wd s res r)
  have keys: "keyPrefix @ key \<noteq> keyPrefix @ key'" using other_peeks(1) by simp
  have ids: "ids_ok (s\<lparr>lm_redis := r\<rparr>)"
    using other_peeks(3) by (auto simp: limiter_inv_def)
  from other_peeks(2) show ?case
  proof (cases rule: peek_cases)
    case down
    with ids show ?thesis by (intro limiter_frame [OF other_peeks(3)]) auto
  next
    case script
    with ids rd_keys_other(2) [OF keys] show ?thesis
      by (intro limiter_frame [OF other_peeks(3)]) auto
  qed
next
  case (other_resets key' s)
  have keys: "keyPrefix @ key \<noteq> keyPrefix @ key'" using other_resets(1) by simp
  have "ids_ok (s\<lparr>lm_redis := reset key' (lm_redis s)\<rparr>)"
    using other_resets(2) by (auto simp: limiter_inv_def)
  with rd_keys_other(3) [OF keys] show ?case
    by (intro limiter_frame [OF other_resets(2)]) (auto simp: reset_def DEL_def)
qed

lemma limiter_init_inv:
  assumes "limiter_init key w s"
  shows "limiter_inv config key limit w s"
  using assms
  by (simp add: limiter_init_def limiter_inv_def ids_ok_def log_ok_def bucket_ok_def window_members_def
      live_members_def stored_members_def in_window_def)

interpretation limiter: invariant_system "limiter_init key window"
    "limiter_step config key limit window" "limiter_inv config key limit window"
  for config key limit window
  by unfold_locales (rule limiter_init_inv limiter_step_inv; assumption)+

section \<open>The counter a client sees\<close>

text \<open>The contract the login throttle relies on: reading reports and does not count, a hit on a
  key raises that key's count by one until the limit and touches no other key, and clearing empties
  one key. The predicate \<open>good\<close> is what the provider keeps between calls.\<close>

locale failure_counter =
  fixes good :: "'s \<Rightarrow> bool" and count_of :: "'s \<Rightarrow> string \<Rightarrow> int"
    and read :: "string \<Rightarrow> 's \<Rightarrow> RateLimitResult \<times> 's" and hit :: "string \<Rightarrow> 's \<Rightarrow> 's"
    and clear :: "string \<Rightarrow> 's \<Rightarrow> 's" and limit :: int
  assumes read_reports: "good s \<Longrightarrow> \<not> rl_degraded (fst (read k s)) \<and>
      rl_count (fst (read k s)) = count_of s k \<and> (rl_allowed (fst (read k s)) \<longleftrightarrow> count_of s k < limit)"
    and read_keeps: "good s \<Longrightarrow> good (snd (read k s)) \<and> count_of (snd (read k s)) k' = count_of s k'"
    and hit_counts: "good s \<Longrightarrow> good (hit k s) \<and>
      count_of (hit k s) k' = (if k' = k \<and> count_of s k < limit then count_of s k + 1 else count_of s k')"
    and clear_clears: "good s \<Longrightarrow> good (clear k s) \<and> count_of (clear k s) k' = (if k' = k then 0 else count_of s k')"
    and count_nonneg: "0 \<le> count_of s k"
begin

lemma hits_saturate:
  assumes "good s" and "count_of s k \<le> limit"
  shows "good ((hit k ^^ n) s) \<and> count_of ((hit k ^^ n) s) k = min limit (count_of s k + int n)"
  using assms by (induction n) (auto simp: hit_counts)

lemma hits_other:
  assumes "good s" and "k' \<noteq> k"
  shows "good ((hit k ^^ n) s) \<and> count_of ((hit k ^^ n) s) k' = count_of s k'"
  using assms by (induction n) (auto simp: hit_counts)

text \<open>Two keys are hit together, as a failed login does; each saturates on its own.\<close>

lemma paired_hits:
  assumes "good s" and "a \<noteq> b" and "count_of s a \<le> limit" and "count_of s b \<le> limit"
  shows "good (((\<lambda>s. hit b (hit a s)) ^^ n) s) \<and>
    count_of (((\<lambda>s. hit b (hit a s)) ^^ n) s) a = min limit (count_of s a + int n) \<and>
    count_of (((\<lambda>s. hit b (hit a s)) ^^ n) s) b = min limit (count_of s b + int n)"
  using assms by (induction n) (auto simp: hit_counts)

end

type_synonym store_state = "MemberIds \<times> Redis"

definition store_read :: "int \<Rightarrow> int \<Rightarrow> string \<Rightarrow> store_state \<Rightarrow> RateLimitResult \<times> store_state" where
  "store_read limit w k s = (case s of (f, r) \<Rightarrow> case peek k limit w r of (res, r') \<Rightarrow> (res, f, r'))"

definition store_hit :: "AppConfig \<Rightarrow> int \<Rightarrow> int \<Rightarrow> string \<Rightarrow> store_state \<Rightarrow> store_state" where
  "store_hit config limit w k s = (case s of (f, r) \<Rightarrow> snd (consume config k limit w f r))"

definition store_clear :: "string \<Rightarrow> store_state \<Rightarrow> store_state" where
  "store_clear k s = (case s of (f, r) \<Rightarrow> (f, reset k r))"

definition store_count :: "int \<Rightarrow> store_state \<Rightarrow> string \<Rightarrow> int" where
  "store_count w s k = int (length (window_members (keyPrefix @ k) w (snd s)))"

text \<open>Redis answers, the window is not empty, and no stored member is an id this process has
  still to hand out.\<close>

definition store_good :: "int \<Rightarrow> store_state \<Rightarrow> bool" where
  "store_good w s \<longleftrightarrow> rd_up (snd s) \<and> 0 < w \<and>
     (\<forall>k m t n. (m, t) \<in> set (live_members (snd s) k) \<longrightarrow> mi_counter (fst s) < n \<longrightarrow>
        m \<noteq> memberId (mi_instanceId (fst s)) n)"

lemma window_subset_live: "set (window_members k w r) \<subseteq> set (live_members r k)"
  by (auto simp: window_members_def)

lemma live_after_trim_any:
  "set (live_members (ZREMRANGEBYSCORE k 0 (now_ms r - w) r) k') \<subseteq> set (live_members r k')"
proof (cases "k' = k")
  case True
  then show ?thesis using window_subset_live by simp
next
  case False
  then show ?thesis by (simp add: ZREMRANGEBYSCORE_def)
qed

lemma window_other [simp]:
  "k' \<noteq> k \<Longrightarrow> window_members k' w (snd (slidingWindow k w l m r)) = window_members k' w r"
  "k' \<noteq> k \<Longrightarrow> window_members k' w (snd (peekWindow k w r)) = window_members k' w r"
  by (simp_all add: window_members_def script_other_key)

lemma window_after_peek [simp]: "window_members k' w (snd (peekWindow k w r)) = window_members k' w r"
proof (cases "k' = k")
  case True
  then show ?thesis
    by (simp add: peekWindow_alt Let_def window_members_def [of k w "ZREMRANGEBYSCORE _ _ _ _"])
      (auto simp: window_members_def intro!: filter_True)
qed simp

lemma live_after_slide:
  "set (live_members (snd (slidingWindow k w l m r)) k') \<subseteq> insert (m, now_ms r) (set (live_members r k'))"
proof (cases "k' = k")
  case False
  then show ?thesis by (auto simp: script_other_key)
next
  case True
  let ?r = "ZREMRANGEBYSCORE k 0 (now_ms r - w) r"
  have "set (live_members (PEXPIRE k w (ZADD k (now_ms r) m ?r)) k) \<subseteq>
      insert (m, now_ms r) (set (window_members k w r))"
    by (auto simp: PEXPIRE_def ZADD_def split: if_splits)
  then show ?thesis
    using True window_subset_live [of k w r] by (auto simp: slidingWindow_alt Let_def)
qed

lemma window_after_accept:
  assumes "0 < w" and "m \<notin> fst ` set (live_members r k)" and "int (length (window_members k w r)) < l"
  shows "length (window_members k w (snd (slidingWindow k w l m r))) = Suc (length (window_members k w r))"
proof -
  let ?r = "ZREMRANGEBYSCORE k 0 (now_ms r - w) r"
  let ?ms = "window_members k w r @ [(m, now_ms r)]"
  have fresh: "m \<notin> fst ` set (window_members k w r)"
    using assms(2) window_subset_live [of k w r] by auto
  have "filter (\<lambda>(m', s). m' \<noteq> m) (window_members k w r) = window_members k w r"
    using fresh by (auto simp: image_iff intro!: filter_True)
  then have "live_members (snd (slidingWindow k w l m r)) k = ?ms"
    using assms live_after_add(1) [of w k "now_ms r" m ?r] by (simp add: slidingWindow_alt Let_def)
  then have "window_members k w (snd (slidingWindow k w l m r)) = ?ms"
    using assms(1) by (auto simp: window_members_def intro!: filter_True)
  then show ?thesis by simp
qed

lemma window_after_reject:
  assumes "l \<le> int (length (window_members k w r))"
  shows "window_members k w (snd (slidingWindow k w l m r)) = window_members k w r"
  using assms window_after_peek [of k w k r] by (simp add: slidingWindow_alt peekWindow_alt Let_def)

lemma peek_up:
  assumes "rd_up r"
  shows "peek k limit w r =
      (\<lparr>rl_allowed = int (length (window_members (keyPrefix @ k) w r)) < limit,
        rl_count = int (length (window_members (keyPrefix @ k) w r)), rl_limit = limit,
        rl_retryAfterMs = snd (the (fst (peekWindow (keyPrefix @ k) w r))), rl_degraded = False\<rparr>,
       snd (peekWindow (keyPrefix @ k) w r))"
  using assms by (auto simp: peek_def peekWindow_alt Let_def)

lemma consume_up:
  assumes "rd_up r"
  shows "snd (consume config k limit w f r) =
    (snd (nextMemberId f), snd (slidingWindow (keyPrefix @ k) w limit (fst (nextMemberId f)) r))"
  using assms unfolding consume_def by (auto simp: Let_def split: prod.splits option.splits)

lemma store_good_shrink:
  assumes "store_good w (f, r)" and "rd_up r'"
    and "\<And>k. set (live_members r' k) \<subseteq> set (live_members r k)"
  shows "store_good w (f, r')"
  using assms unfolding store_good_def fst_conv snd_conv by blast

lemma live_after_peek: "set (live_members (snd (peekWindow k w r)) k') \<subseteq> set (live_members r k')"
  using live_after_trim_any by (simp add: peekWindow_alt Let_def)

lemma memberId_counter [simp]: "memberId i m = memberId i n \<longleftrightarrow> m = n"
  by (simp add: memberId_def)

lemma store_read_laws:
  assumes "store_good w s"
  shows "\<not> rl_degraded (fst (store_read limit w k s)) \<and>
      rl_count (fst (store_read limit w k s)) = store_count w s k \<and>
      (rl_allowed (fst (store_read limit w k s)) \<longleftrightarrow> store_count w s k < limit)"
    and "store_good w (snd (store_read limit w k s)) \<and>
      store_count w (snd (store_read limit w k s)) k' = store_count w s k'"
proof -
  obtain f r where s: "s = (f, r)" by (cases s)
  then have up: "rd_up r" using assms by (simp add: store_good_def)
  show "\<not> rl_degraded (fst (store_read limit w k s)) \<and>
      rl_count (fst (store_read limit w k s)) = store_count w s k \<and>
      (rl_allowed (fst (store_read limit w k s)) \<longleftrightarrow> store_count w s k < limit)"
    by (simp add: store_read_def s peek_up [OF up] store_count_def)
  show "store_good w (snd (store_read limit w k s)) \<and>
      store_count w (snd (store_read limit w k s)) k' = store_count w s k'"
    using store_good_shrink [of w f r, OF assms [unfolded s] _ live_after_peek] up
    by (simp add: store_read_def s peek_up [OF up] store_count_def)
qed

lemma store_clear_laws:
  assumes "store_good w s"
  shows "store_good w (store_clear k s) \<and>
      store_count w (store_clear k s) k' = (if k' = k then 0 else store_count w s k')"
  using assms
  by (cases s) (auto simp: store_clear_def store_count_def store_good_def reset_def DEL_def
      window_members_def split: if_splits)

lemma store_hit_laws:
  assumes "store_good w s"
  shows "store_good w (store_hit config limit w k s) \<and>
      store_count w (store_hit config limit w k s) k' =
      (if k' = k \<and> store_count w s k < limit then store_count w s k + 1 else store_count w s k')"
proof -
  obtain f r where s: "s = (f, r)" by (cases s)
  from assms have up: "rd_up r" and w: "0 < w"
    and ids: "\<And>k m t n. (m, t) \<in> set (live_members r k) \<Longrightarrow> mi_counter f < n \<Longrightarrow>
        m \<noteq> memberId (mi_instanceId f) n"
    by (auto simp: store_good_def s)
  let ?m = "fst (nextMemberId f)" and ?K = "keyPrefix @ k"
  have m: "?m = memberId (mi_instanceId f) (Suc (mi_counter f))"
    and f': "mi_instanceId (snd (nextMemberId f)) = mi_instanceId f"
      "mi_counter (snd (nextMemberId f)) = Suc (mi_counter f)"
    by (simp_all add: nextMemberId_def Let_def)
  have hit: "store_hit config limit w k s = (snd (nextMemberId f), snd (slidingWindow ?K w limit ?m r))"
    by (simp add: store_hit_def s consume_up [OF up])
  have fresh: "?m \<notin> fst ` set (live_members r ?K)" using ids m by fastforce
  have "x \<noteq> memberId (mi_instanceId f) n"
    if x: "(x, t) \<in> set (live_members (snd (slidingWindow ?K w limit ?m r)) k'')"
      and n: "Suc (mi_counter f) < n" for x t k'' n
  proof -
    from x live_after_slide have "x = ?m \<or> (x, t) \<in> set (live_members r k'')" by fastforce
    then show ?thesis using ids [of x t k'' n] n m by auto
  qed
  then have "store_good w (store_hit config limit w k s)"
    using up w by (simp add: hit store_good_def f')
  then show ?thesis
    using window_after_accept [OF w fresh, of limit] window_after_reject [of limit ?K w r ?m]
    by (cases "k' = k") (auto simp: hit [unfolded s] store_count_def s not_less)
qed

lemma store_count_nonneg: "0 \<le> store_count w s k"
  by (simp add: store_count_def)

interpretation counter: failure_counter "store_good w" "store_count w" "store_read limit w"
    "store_hit config limit w" store_clear limit
  for w limit config
  by unfold_locales
    (simp_all only: store_read_laws store_clear_laws store_hit_laws store_count_nonneg simp_thms)

section \<open>Properties of the limiter\<close>

text \<open>C19: Whatever any number of processes do to a shared Redis (consumes, peeks and resets on any
  key, a clock that only advances, outages), every window of the configured length, not only those
  aligned to a boundary, holds at most the limit of the events of a key that Redis counted since
  the key's last reset. Requests let through uncounted during an outage come on top of
  that without bound; there are none when the limiter fails closed, and the bound is then on
  everything let through.\<close>

theorem sliding_window_bound:
  assumes "limiter_init key window s" and "reaches (limiter_step config key limit window) s t"
  shows "int (length (in_window window u (lm_log t))) \<le> max 0 limit \<and>
    (lm_uncounted t = [] \<or> cf_rateLimitFailOpen config)"
  using limiter.reachable_inv [OF assms] by (auto simp: limiter_inv_def log_ok_def)

definition demo_redis :: "nat \<Rightarrow> Redis" where
  "demo_redis clock = \<lparr>rd_keys = (\<lambda>_. None), rd_clock = clock, rd_up = True\<rparr>"

definition demo_limiter :: Limiter where
  "demo_limiter =
     \<lparr>lm_redis = demo_redis 5000000,
      lm_ids = (\<lambda>p. \<lparr>mi_instanceId = replicate p (CHR ''a''), mi_counter = 0\<rparr>), lm_log = [], lm_uncounted = []\<rparr>"

lemma demo_limiter_init: "limiter_init ''k'' 1000 demo_limiter"
  by (auto simp: limiter_init_def demo_limiter_def demo_redis_def intro!: injI)

lemma demo_limiter_accepts:
  "\<exists>t. reaches (limiter_step demo_config ''k'' 1 1000) demo_limiter t \<and> length (lm_log t) = 1"
proof -
  let ?c = "consume demo_config ''k'' 1 1000 (lm_ids demo_limiter 0) (lm_redis demo_limiter)"
  obtain res f r where c: "?c = (res, f, r)" by (metis prod_cases3)
  define t where "t = demo_limiter\<lparr>lm_redis := r, lm_ids := (lm_ids demo_limiter)(0 := f),
      lm_log := (if rl_allowed res \<and> \<not> rl_degraded res
        then lm_log demo_limiter @
          [(fst (nextMemberId (lm_ids demo_limiter 0)), now_ms (lm_redis demo_limiter))]
        else lm_log demo_limiter),
      lm_uncounted := (if rl_allowed res \<and> rl_degraded res
        then lm_uncounted demo_limiter @ [now_ms (lm_redis demo_limiter)] else lm_uncounted demo_limiter)\<rparr>"
  from c have "rl_allowed res \<and> \<not> rl_degraded res"
    by (auto simp: consume_def nextMemberId_def Let_def slidingWindow_alt window_members_def
        live_members_def demo_limiter_def demo_redis_def split: prod.splits)
  then have "length (lm_log t) = 1" by (simp add: t_def demo_limiter_def)
  moreover have "reaches (limiter_step demo_config ''k'' 1 1000) demo_limiter t"
    unfolding t_def by (rule reaches_single, rule limiter_step.consumes [OF c])
  ultimately show ?thesis by blast
qed

theorem sliding_window_bound_witness:
  "limiter_init ''k'' 1000 demo_limiter \<and>
   (\<exists>t. reaches (limiter_step demo_config ''k'' 1 1000) demo_limiter t \<and> length (lm_log t) = 1 \<and>
      int (length (in_window 1000 5000 (lm_log t))) \<le> max 0 1)"
  using demo_limiter_init demo_limiter_accepts sliding_window_bound [OF demo_limiter_init] by blast

text \<open>The wait a refused caller is told is exact: it is positive and no longer than the window;
  if nothing else happens to the bucket, an event at any later time is accepted exactly when that
  wait has passed.\<close>

theorem slidingWindow_retry_exact:
  assumes "bucket_ok window r key" and "0 < window"
    and "fst (slidingWindow key window limit member r) = Some (0, limit, retry)"
    and "rd_keys r' = rd_keys r" and "now_ms r \<le> now_ms r'"
  shows "0 < retry \<and> retry \<le> window \<and>
     ((\<exists>c. fst (slidingWindow key window limit member' r') = Some (1, c, 0)) \<longleftrightarrow>
        now_ms r + retry \<le> now_ms r')"
  using retry_exact [OF assms(1-3), of r'] assms(4,5) by (simp add: slidingWindow_accepts_iff)

definition full_bucket :: Redis where
  "full_bucket =
     (demo_redis 5000000)\<lparr>rd_keys := [''k'' \<mapsto> \<lparr>zs_members = [(''a:1'', 4300)], zs_expireAt = Some 5300\<rparr>]\<rparr>"

lemma full_bucket_refuses: "fst (slidingWindow ''k'' 1000 1 m full_bucket) = Some (0, 1, 300)"
  by (simp add: slidingWindow_alt window_members_def live_members_def full_bucket_def demo_redis_def
      now_ms_clock Let_def)

theorem slidingWindow_retry_exact_witness:
  "\<exists>c. fst (slidingWindow ''k'' 1000 1 ''a:2'' (full_bucket\<lparr>rd_clock := 5300000\<rparr>)) = Some (1, c, 0)"
proof -
  have "bucket_ok 1000 full_bucket ''k''"
    by (simp add: bucket_ok_def full_bucket_def demo_redis_def now_ms_clock)
  from slidingWindow_retry_exact [OF this _ full_bucket_refuses, of "full_bucket\<lparr>rd_clock := 5300000\<rparr>"]
  show ?thesis by (simp add: full_bucket_def demo_redis_def now_ms_clock)
qed

text \<open>Looking at a window does not count: consuming after any peek at the same key gives the
  same answer and leaves the same Redis as consuming without it.\<close>

theorem peek_does_not_count:
  assumes "0 \<le> window"
  shows "consume config key limit window f (snd (peek key limit' window r)) =
     consume config key limit window f r"
proof (cases "rd_up r")
  case True
  then show ?thesis
    using assms by (simp add: peek_up consume_def peek_then_slide split: prod.splits)
next
  case False
  then show ?thesis by (simp add: peek_def Let_def)
qed

theorem peek_does_not_count_witness:
  "consume demo_config ''k'' 1 1000 (newMemberIdFactory []) (snd (peek ''k'' 9 1000 full_bucket)) =
     consume demo_config ''k'' 1 1000 (newMemberIdFactory []) full_bucket"
  by (rule peek_does_not_count) simp

end
