(* ===== verification/Client_Address.thy ===== *)
theory Client_Address
  imports Kit_Prelude
begin

text \<open>
  The identity a per-address limit counts against,
  \<open>services/auth/src/ratelimit/client-address.ts\<close>, with \<open>isIPv4\<close> and \<open>isIPv6\<close> of
  \<open>node:net\<close> written out.
\<close>

section \<open>Addresses as text\<close>

definition hex_value :: "char \<Rightarrow> nat option" where
  "hex_value c =
     (let n = code_unit c in
      if 48 \<le> n \<and> n \<le> 57 then Some (n - 48)
      else if 65 \<le> n \<and> n \<le> 70 then Some (n - 55)
      else if 97 \<le> n \<and> n \<le> 102 then Some (n - 87)
      else None)"

definition is_hex :: "char \<Rightarrow> bool" where
  "is_hex c \<longleftrightarrow> hex_value c \<noteq> None"

definition octet_ok :: "string \<Rightarrow> bool" where
  "octet_ok s \<longleftrightarrow>
     s \<noteq> [] \<and> length s \<le> 3 \<and> list_all is_digit s \<and> read_nat s \<le> 255 \<and>
     (length s = 1 \<or> hd s \<noteq> CHR ''0'')"

definition isIPv4 :: "string \<Rightarrow> bool" where
  "isIPv4 s \<longleftrightarrow> (let ps = split_on (CHR ''.'') s in length ps = 4 \<and> list_all octet_ok ps)"

definition group_ok :: "string \<Rightarrow> bool" where
  "group_ok s \<longleftrightarrow> s \<noteq> [] \<and> length s \<le> 4 \<and> list_all is_hex s"

text \<open>The first \<open>::\<close>, with what stands before and after it.\<close>

fun break_dcolon :: "string \<Rightarrow> (string \<times> string) option" where
  "break_dcolon [] = None"
| "break_dcolon (c # cs) =
     (if c = CHR '':'' \<and> cs \<noteq> [] \<and> hd cs = CHR '':'' then Some ([], tl cs)
      else map_option (\<lambda>(a, b). (c # a, b)) (break_dcolon cs))"

text \<open>How many 16-bit groups a colon-separated part holds; an IPv4 quad may close the last part.\<close>

definition part_groups :: "bool \<Rightarrow> string \<Rightarrow> nat option" where
  "part_groups quad part =
     (if part = [] then Some 0
      else
        let gs = split_on (CHR '':'') part in
        if list_all group_ok gs then Some (length gs)
        else if quad \<and> list_all group_ok (butlast gs) \<and> isIPv4 (last gs) then Some (Suc (length gs))
        else None)"

definition zone_char :: "char \<Rightarrow> bool" where
  "zone_char c \<longleftrightarrow>
     (let n = code_unit c in
      48 \<le> n \<and> n \<le> 57 \<or> 65 \<le> n \<and> n \<le> 90 \<or> 97 \<le> n \<and> n \<le> 122 \<or> n = 45 \<or> n = 46 \<or> n = 58)"

definition zone_ok :: "string \<Rightarrow> bool" where
  "zone_ok rest \<longleftrightarrow> rest = [] \<or> tl rest \<noteq> [] \<and> list_all zone_char (tl rest)"

definition isIPv6_body :: "string \<Rightarrow> bool" where
  "isIPv6_body s \<longleftrightarrow>
     (case break_dcolon s of
        None \<Rightarrow> s \<noteq> [] \<and> part_groups True s = Some 8
      | Some (head, tail) \<Rightarrow>
          (case (part_groups False head, part_groups True tail) of
             (Some m, Some n) \<Rightarrow> m + n \<le> 7
           | _ \<Rightarrow> False))"

definition isIPv6 :: "string \<Rightarrow> bool" where
  "isIPv6 s \<longleftrightarrow>
     isIPv6_body (takeWhile (\<lambda>c. c \<noteq> CHR ''%'') s) \<and> zone_ok (dropWhile (\<lambda>c. c \<noteq> CHR ''%'') s)"

section \<open>The limiter identity\<close>

definition parseHex :: "string \<Rightarrow> nat" where
  "parseHex s = foldl (\<lambda>n c. 16 * n + the (hex_value c)) 0 s"

definition quad_groups :: "string \<Rightarrow> nat list" where
  "quad_groups s =
     (case map read_nat (split_on (CHR ''.'') s) of
        [a, b, c, d] \<Rightarrow> [a * 256 + b, c * 256 + d]
      | _ \<Rightarrow> [])"

definition piece_groups :: "string \<Rightarrow> nat list" where
  "piece_groups g = (if CHR ''.'' \<in> set g then quad_groups g else [parseHex g])"

definition parse_part :: "string \<Rightarrow> nat list" where
  "parse_part part =
     (if part = [] then [] else concat (map piece_groups (split_on (CHR '':'') part)))"

definition expandIPv6 :: "string \<Rightarrow> nat list" where
  "expandIPv6 address =
     (case break_dcolon address of
        None \<Rightarrow> parse_part address
      | Some (head, rest) \<Rightarrow>
          let tail = (case break_dcolon rest of None \<Rightarrow> rest | Some (t, _) \<Rightarrow> t);
              front = parse_part head;
              back = parse_part tail
          in front @ replicate (8 - length front - length back) 0 @ back)"

definition hex_char :: "nat \<Rightarrow> char" where
  "hex_char d = (if d < 10 then unit_char (48 + d) else unit_char (87 + d))"

fun show_hex :: "nat \<Rightarrow> string" where
  "show_hex n = (if n < 16 then [hex_char n] else show_hex (n div 16) @ [hex_char (n mod 16)])"

declare show_hex.simps [simp del]

definition identity_of_groups :: "nat list \<Rightarrow> string" where
  "identity_of_groups groups =
     (if list_all (\<lambda>g. g = 0) (take 5 groups) \<and> groups ! 5 = 65535 then
        join ''.''
          (map show_nat
             [groups ! 6 div 256, groups ! 6 mod 256, groups ! 7 div 256, groups ! 7 mod 256])
      else join '':'' (map show_hex (take 4 groups)) @ ''::/64'')"

definition rateLimitIdentity :: "string \<Rightarrow> string" where
  "rateLimitIdentity address =
     (if isIPv4 address then address
      else if \<not> isIPv6 address then address
      else identity_of_groups (expandIPv6 (hd (split_on (CHR ''%'') address))))"

section \<open>Every spelling of an address\<close>

text \<open>A spelling: all groups written out, or a run of zero groups left to \<open>::\<close>. A piece is a
  hexadecimal group of any case with any leading zeros; the last piece may be a dotted quad.\<close>

datatype spelling = Full "string list" | Compressed "string list" "string list"

definition pieces_ok :: "string list \<Rightarrow> bool" where
  "pieces_ok ps \<longleftrightarrow> list_all group_ok ps \<or> ps \<noteq> [] \<and> list_all group_ok (butlast ps) \<and> isIPv4 (last ps)"

definition pieces_groups :: "string list \<Rightarrow> nat list" where
  "pieces_groups ps = concat (map piece_groups ps)"

fun spell_ok :: "spelling \<Rightarrow> bool" where
  "spell_ok (Full ps) \<longleftrightarrow> pieces_ok ps \<and> length (pieces_groups ps) = 8"
| "spell_ok (Compressed fs bs) \<longleftrightarrow>
     list_all group_ok fs \<and> pieces_ok bs \<and> length (pieces_groups fs) + length (pieces_groups bs) \<le> 7"

fun spell :: "spelling \<Rightarrow> string" where
  "spell (Full ps) = join '':'' ps"
| "spell (Compressed fs bs) = join '':'' fs @ ''::'' @ join '':'' bs"

fun spell_groups :: "spelling \<Rightarrow> nat list" where
  "spell_groups (Full ps) = pieces_groups ps"
| "spell_groups (Compressed fs bs) =
     pieces_groups fs @ replicate (8 - length (pieces_groups fs) - length (pieces_groups bs)) 0 @
     pieces_groups bs"

lemma hex_not_punct: "is_hex c \<Longrightarrow> c \<noteq> CHR '':'' \<and> c \<noteq> CHR ''.'' \<and> c \<noteq> CHR ''%''"
  by (auto simp: is_hex_def hex_value_def code_unit_def Let_def)

lemma digit_not_punct: "is_digit c \<Longrightarrow> c \<noteq> CHR '':'' \<and> c \<noteq> CHR ''.'' \<and> c \<noteq> CHR ''%''"
  by (auto simp: is_digit_def code_unit_def)

lemma group_ok_chars: "group_ok g \<Longrightarrow> c \<in> set g \<Longrightarrow> c \<noteq> CHR '':'' \<and> c \<noteq> CHR ''.'' \<and> c \<noteq> CHR ''%''"
  using hex_not_punct by (auto simp: group_ok_def list_all_iff)

lemma set_split_on: "set s \<subseteq> insert c (\<Union>(set ` set (split_on c s)))"
proof (induction s)
  case (Cons x xs)
  then show ?case by (cases "split_on c xs") auto
qed simp

lemma isIPv4_chars: "isIPv4 s \<Longrightarrow> c \<in> set s \<Longrightarrow> c = CHR ''.'' \<or> is_digit c"
  using set_split_on [of s "CHR ''.''"] by (auto simp: isIPv4_def octet_ok_def list_all_iff Let_def)

lemma isIPv4_dotted: "isIPv4 s \<Longrightarrow> CHR ''.'' \<in> set s"
  by (rule ccontr) (simp add: isIPv4_def split_on_no_sep)

lemma isIPv4_not_Nil: "isIPv4 s \<Longrightarrow> s \<noteq> []"
  by (auto simp: isIPv4_def Let_def)

lemma isIPv4_no_colon: "isIPv4 s \<Longrightarrow> CHR '':'' \<notin> set s \<and> CHR ''%'' \<notin> set s"
  using isIPv4_chars digit_not_punct by fastforce

lemma pieces_chars:
  assumes "pieces_ok ps" and "p \<in> set ps"
  shows "p \<noteq> [] \<and> CHR '':'' \<notin> set p \<and> CHR ''%'' \<notin> set p"
proof -
  have "group_ok p \<or> isIPv4 p"
    using assms by (cases ps rule: rev_cases) (auto simp: pieces_ok_def list_all_iff)
  then show ?thesis
    using group_ok_chars isIPv4_no_colon isIPv4_not_Nil by (auto simp: group_ok_def)
qed

lemma group_piece: "group_ok g \<Longrightarrow> length (piece_groups g) = 1"
  using group_ok_chars by (auto simp: piece_groups_def)

lemma quad_piece: "isIPv4 g \<Longrightarrow> length (piece_groups g) = 2"
  using isIPv4_dotted
  by (auto simp: piece_groups_def quad_groups_def isIPv4_def Let_def length_Suc_conv numeral_eq_Suc)

lemma groups_of_pieces: "list_all group_ok ps \<Longrightarrow> length (pieces_groups ps) = length ps"
  by (induction ps) (simp_all add: pieces_groups_def group_piece)

lemma part_groups_pieces:
  assumes "pieces_ok ps"
  shows "part_groups True (join '':'' ps) = Some (length (pieces_groups ps))"
    and "list_all group_ok ps \<Longrightarrow> part_groups False (join '':'' ps) = Some (length (pieces_groups ps))"
    and "parse_part (join '':'' ps) = pieces_groups ps"
proof -
  have split: "split_on (CHR '':'') (join '':'' ps) = ps" and ne: "join '':'' ps \<noteq> []" if "ps \<noteq> []"
  proof -
    show "split_on (CHR '':'') (join '':'' ps) = ps"
      using that pieces_chars [OF assms] by (intro split_on_join) auto
    then show "join '':'' ps \<noteq> []" using that pieces_chars [OF assms] by force
  qed
  have quad: "length (pieces_groups ps) = Suc (length ps)"
    if "ps \<noteq> []" "list_all group_ok (butlast ps)" "isIPv4 (last ps)"
    using that groups_of_pieces quad_piece
    by (cases ps rule: rev_cases) (auto simp: pieces_groups_def)
  show "part_groups True (join '':'' ps) = Some (length (pieces_groups ps))"
    using assms split ne quad groups_of_pieces
    by (cases "ps = []") (auto simp: part_groups_def pieces_ok_def pieces_groups_def Let_def)
  show "part_groups False (join '':'' ps) = Some (length (pieces_groups ps))" if "list_all group_ok ps"
    using that split ne groups_of_pieces
    by (cases "ps = []") (auto simp: part_groups_def pieces_groups_def Let_def)
  show "parse_part (join '':'' ps) = pieces_groups ps"
    using split ne by (cases "ps = []") (auto simp: parse_part_def pieces_groups_def)
qed

text \<open>Joined pieces contain no empty place between two colons.\<close>

lemma break_dcolon_piece:
  assumes "CHR '':'' \<notin> set p"
  shows "break_dcolon (p @ s) = map_option (\<lambda>(a, b). (p @ a, b)) (break_dcolon s)"
  using assms
  by (induction p) (auto simp: option.map_comp o_def case_prod_unfold option.map_ident)

lemma break_dcolon_join:
  assumes "\<And>p. p \<in> set ps \<Longrightarrow> p \<noteq> [] \<and> CHR '':'' \<notin> set p"
  shows "break_dcolon (join '':'' ps @ s) =
    map_option (\<lambda>(a, b). (join '':'' ps @ a, b)) (break_dcolon s)"
  using assms
proof (induction "'':''" ps rule: join.induct)
  case 1
  then show ?case by (simp add: case_prod_unfold option.map_ident)
next
  case (2 w)
  then show ?case by (simp add: break_dcolon_piece)
next
  case (3 w v ws)
  have "v \<noteq> []" "CHR '':'' \<notin> set v" using 3(2) by auto
  then have hd: "join '':'' (v # ws) @ s \<noteq> []" "hd (join '':'' (v # ws) @ s) \<noteq> CHR '':''"
    by (cases ws; cases v; auto)+
  have "break_dcolon (CHR '':'' # (join '':'' (v # ws) @ s)) =
      map_option (\<lambda>(a, b). (CHR '':'' # a, b)) (break_dcolon (join '':'' (v # ws) @ s))"
    using hd by simp
  moreover have "break_dcolon (join '':'' (v # ws) @ s) =
      map_option (\<lambda>(a, b). (join '':'' (v # ws) @ a, b)) (break_dcolon s)"
    using 3 by simp
  ultimately show ?case
    using 3(2) by (simp add: break_dcolon_piece option.map_comp o_def case_prod_unfold)
qed

lemma break_dcolon_pieces:
  assumes "\<And>p. p \<in> set ps \<Longrightarrow> p \<noteq> [] \<and> CHR '':'' \<notin> set p"
  shows "break_dcolon (join '':'' ps) = None"
    and "break_dcolon (join '':'' ps @ ''::'' @ t) = Some (join '':'' ps, t)"
  using break_dcolon_join [of ps "[]"] break_dcolon_join [of ps "''::'' @ t"] assms by simp_all

lemma join_chars: "c \<in> set (join sep ps) \<Longrightarrow> c \<in> set sep \<or> (\<exists>p\<in>set ps. c \<in> set p)"
  by (induction sep ps rule: join.induct) auto

lemma pieces_ok_groups: "list_all group_ok ps \<Longrightarrow> pieces_ok ps"
  by (simp add: pieces_ok_def)

lemma spell_has_colon: "spell_ok sp \<Longrightarrow> CHR '':'' \<in> set (spell sp)"
proof (cases sp)
  case (Full ps)
  assume ok: "spell_ok sp"
  have "length (piece_groups p) \<le> 2" if "p \<in> set ps" for p
    using ok Full that group_piece quad_piece
    by (cases ps rule: rev_cases) (auto simp: pieces_ok_def list_all_iff)
  then have "length ps \<noteq> 0 \<and> length ps \<noteq> 1"
    using ok Full by (auto simp: length_Suc_conv pieces_groups_def)
  then obtain p q rs where "ps = p # q # rs" by (cases ps; cases "tl ps") auto
  then show ?thesis using Full by simp
qed simp

lemma spell_no_percent: "spell_ok sp \<Longrightarrow> CHR ''%'' \<notin> set (spell sp)"
  using pieces_chars pieces_ok_groups
  by (cases sp) (fastforce dest!: join_chars)+

lemma expandIPv6_spell:
  assumes "spell_ok sp"
  shows "expandIPv6 (spell sp) = spell_groups sp" and "isIPv6_body (spell sp)"
proof (atomize (full), cases sp)
  case (Full ps)
  then have ok: "pieces_ok ps" and len: "length (pieces_groups ps) = 8" using assms by simp_all
  have "join '':'' ps \<noteq> []" using spell_has_colon [OF assms] Full by auto
  then show "expandIPv6 (spell sp) = spell_groups sp \<and> isIPv6_body (spell sp)"
    using Full len break_dcolon_pieces(1) [of ps] pieces_chars [OF ok] part_groups_pieces(1,3) [OF ok]
    by (simp add: expandIPv6_def isIPv6_body_def)
next
  case (Compressed fs bs)
  then have f: "list_all group_ok fs" and b: "pieces_ok bs"
    and len: "length (pieces_groups fs) + length (pieces_groups bs) \<le> 7"
    using assms by simp_all
  have "break_dcolon (spell sp) = Some (join '':'' fs, join '':'' bs)"
    using Compressed break_dcolon_pieces(2) [of fs] pieces_chars [OF pieces_ok_groups [OF f]] by simp
  moreover have "break_dcolon (join '':'' bs) = None"
    using break_dcolon_pieces(1) [of bs] pieces_chars [OF b] by blast
  ultimately show "expandIPv6 (spell sp) = spell_groups sp \<and> isIPv6_body (spell sp)"
    using Compressed len part_groups_pieces(1,3) [OF b] part_groups_pieces(2,3) [OF pieces_ok_groups [OF f]] f
    by (simp add: expandIPv6_def isIPv6_body_def Let_def)
qed

lemma isIPv6_spell:
  assumes "spell_ok sp" and "zone = [] \<or> hd zone = CHR ''%''" and "zone_ok zone"
  shows "isIPv6 (spell sp @ zone)" and "hd (split_on (CHR ''%'') (spell sp @ zone)) = spell sp"
proof -
  have np: "CHR ''%'' \<notin> set (spell sp)" by (rule spell_no_percent [OF assms(1)])
  then have all: "x \<in> set (spell sp) \<Longrightarrow> x \<noteq> CHR ''%''" for x by blast
  have "takeWhile (\<lambda>c. c \<noteq> CHR ''%'') zone = []" "dropWhile (\<lambda>c. c \<noteq> CHR ''%'') zone = zone"
    using assms(2) by (cases zone; simp)+
  then have "takeWhile (\<lambda>c. c \<noteq> CHR ''%'') (spell sp @ zone) = spell sp"
    "dropWhile (\<lambda>c. c \<noteq> CHR ''%'') (spell sp @ zone) = zone"
    using takeWhile_append2 [of "spell sp" "\<lambda>c. c \<noteq> CHR ''%''" zone, OF all]
      dropWhile_append2 [of "spell sp" "\<lambda>c. c \<noteq> CHR ''%''" zone, OF all] by simp_all
  then show "isIPv6 (spell sp @ zone)"
    using expandIPv6_spell(2) [OF assms(1)] assms(3) by (simp add: isIPv6_def)
  show "hd (split_on (CHR ''%'') (spell sp @ zone)) = spell sp"
    using np assms(2) by (cases zone) (auto simp: split_on_no_sep split_on_append_sep)
qed

lemma replicate5: "replicate 5 x = [x, x, x, x, x]"
  by (simp add: numeral_eq_Suc)

lemmas address_eval = identity_of_groups_def pieces_ok_def pieces_groups_def piece_groups_def
  parseHex_def hex_value_def is_hex_def group_ok_def code_unit_def zone_ok_def zone_char_def
  show_hex.simps hex_char_def unit_char_def isIPv4_def octet_ok_def is_digit_def read_nat_def Let_def

section \<open>Addresses as numbers\<close>

text \<open>The reference: an address is a number of 128 bits, and its text is read digit by digit. A piece is up to four
  hexadecimal digits of either case, for 16 bits, or four decimal octets, for 32; octets only come last, and \<open>::\<close> stands
  for the zero bits that are missing in between.\<close>

definition written_digit :: "char \<Rightarrow> nat option" where
  "written_digit = map_of (zip ''0123456789abcdefABCDEF'' ([0..<16] @ [10..<16]))"

datatype piece = HexPiece string | QuadPiece nat nat nat nat

fun piece_text :: "piece \<Rightarrow> string" where
  "piece_text (HexPiece s) = s"
| "piece_text (QuadPiece a b c d) = join ''.'' (map show_nat [a, b, c, d])"

fun piece_ok :: "piece \<Rightarrow> bool" where
  "piece_ok (HexPiece s) \<longleftrightarrow> s \<noteq> [] \<and> length s \<le> 4 \<and> list_all (\<lambda>c. written_digit c \<noteq> None) s"
| "piece_ok (QuadPiece a b c d) \<longleftrightarrow> a < 256 \<and> b < 256 \<and> c < 256 \<and> d < 256"

fun piece_bits :: "piece \<Rightarrow> nat" where
  "piece_bits (HexPiece s) = 16"
| "piece_bits (QuadPiece a b c d) = 32"

fun piece_value :: "piece \<Rightarrow> nat" where
  "piece_value (HexPiece s) = foldl (\<lambda>v c. v * 16 + the (written_digit c)) 0 s"
| "piece_value (QuadPiece a b c d) = a * 2 ^ 24 + b * 2 ^ 16 + c * 2 ^ 8 + d"

definition written_ok :: "piece list \<Rightarrow> bool" where
  "written_ok ps \<longleftrightarrow> list_all piece_ok ps \<and> list_all (\<lambda>p. piece_bits p = 16) (butlast ps)"

definition bits_of :: "piece list \<Rightarrow> nat" where
  "bits_of ps = sum_list (map piece_bits ps)"

definition value_of :: "piece list \<Rightarrow> nat" where
  "value_of ps = foldl (\<lambda>v p. v * 2 ^ piece_bits p + piece_value p) 0 ps"

datatype ipv6_text = Written "piece list" | Shortened "piece list" "piece list"

fun text_ok :: "ipv6_text \<Rightarrow> bool" where
  "text_ok (Written ps) \<longleftrightarrow> written_ok ps \<and> bits_of ps = 128"
| "text_ok (Shortened fs bs) \<longleftrightarrow>
     list_all piece_ok fs \<and> list_all (\<lambda>p. piece_bits p = 16) fs \<and> written_ok bs \<and> bits_of fs + bits_of bs \<le> 112"

fun text_of :: "ipv6_text \<Rightarrow> string" where
  "text_of (Written ps) = join '':'' (map piece_text ps)"
| "text_of (Shortened fs bs) = join '':'' (map piece_text fs) @ ''::'' @ join '':'' (map piece_text bs)"

fun address_of :: "ipv6_text \<Rightarrow> nat" where
  "address_of (Written ps) = value_of ps"
| "address_of (Shortened fs bs) = value_of fs * 2 ^ (128 - bits_of fs) + value_of bs"

text \<open>What the limiter should count an address against.\<close>

definition bucket_text :: "nat \<Rightarrow> string" where
  "bucket_text v =
     (if v div 2 ^ 32 = 65535
      then join ''.'' (map show_nat [v div 2 ^ 24 mod 256, v div 2 ^ 16 mod 256, v div 2 ^ 8 mod 256, v mod 256])
      else join '':'' (map show_hex [v div 2 ^ 112, v div 2 ^ 96 mod 2 ^ 16, v div 2 ^ 80 mod 2 ^ 16, v div 2 ^ 64 mod 2 ^ 16]) @
        ''::/64'')"

lemma written_digit_hex: "written_digit c = hex_value c"
proof -
  have "written_digit c = hex_value c" if "c \<in> set ''0123456789abcdefABCDEF''"
    using that by (auto simp: written_digit_def hex_value_def code_unit_def Let_def upt_rec)
  moreover have "hex_value c = None" if "c \<notin> set ''0123456789abcdefABCDEF''"
  proof (rule ccontr)
    assume "hex_value c \<noteq> None"
    then have "48 \<le> code_unit c \<and> code_unit c < 58 \<or> 65 \<le> code_unit c \<and> code_unit c < 71 \<or> 97 \<le> code_unit c \<and> code_unit c < 103"
      by (simp add: hex_value_def Let_def split: if_splits)
    then have "code_unit c \<in> set ([48..<58] @ [65..<71] @ [97..<103])" unfolding set_append set_upt by (simp del: upt.simps)
    also have "[48..<58] @ [65..<71] @ [97..<103] = map code_unit ''0123456789ABCDEFabcdef''" by code_simp
    finally have "code_unit c \<in> code_unit ` set ''0123456789ABCDEFabcdef''" by (simp only: set_map)
    with that show False by auto
  qed
  moreover have "written_digit c = None" if "c \<notin> set ''0123456789abcdefABCDEF''"
  proof -
    have "map fst (zip ''0123456789abcdefABCDEF'' ([0..<16] @ [10..<16 :: nat])) = ''0123456789abcdefABCDEF''"
      by (rule map_fst_zip) simp
    then show ?thesis unfolding written_digit_def map_of_eq_None_iff using that by (metis set_map)
  qed
  ultimately show ?thesis by metis
qed

lemma HexPiece_group: "piece_ok (HexPiece s) \<longleftrightarrow> group_ok s"
  by (simp add: group_ok_def is_hex_def [abs_def] written_digit_hex)

lemma HexPiece_groups: "piece_ok (HexPiece s) \<Longrightarrow> piece_groups s = [piece_value (HexPiece s)]"
proof -
  assume "piece_ok (HexPiece s)"
  then have "CHR ''.'' \<notin> set s" using group_ok_chars unfolding HexPiece_group by blast
  then show ?thesis by (simp add: piece_groups_def parseHex_def written_digit_hex mult.commute)
qed

lemma hex_value_bound: "hex_value c = Some n \<Longrightarrow> n < 16"
  by (auto simp: hex_value_def Let_def split: if_splits)

lemma HexPiece_value_bound:
  assumes "piece_ok (HexPiece s)"
  shows "piece_value (HexPiece s) < 2 ^ 16"
proof -
  have "foldl (\<lambda>v c. v * 16 + the (hex_value c)) 0 t < 16 ^ length t" if "list_all (\<lambda>c. hex_value c \<noteq> None) t" for t
    using that
  proof (induction t rule: rev_induct)
    case (snoc c t)
    then obtain n where "hex_value c = Some n" "n < 16" using hex_value_bound by fastforce
    with snoc show ?case by (simp add: list_all_iff)
  qed simp
  from this [of s] have "piece_value (HexPiece s) < 16 ^ length s" using assms by (simp add: written_digit_hex)
  also have "(16 :: nat) ^ length s \<le> 16 ^ 4" using assms by (intro power_increasing) auto
  finally show ?thesis by simp
qed

lemma octet_written:
  assumes "a < 256"
  shows "octet_ok (show_nat a)"
proof -
  have zero: "d < 10 \<Longrightarrow> 0 < d \<Longrightarrow> digit_char d \<noteq> CHR ''0''" for d
    using code_unit_unit_char [of "48 + d"] by (auto simp: digit_char_def code_unit_def)
  consider "a < 10" | "10 \<le> a" "a < 100" | "100 \<le> a" by linarith
  then have "length (show_nat a) \<le> 3 \<and> (length (show_nat a) = 1 \<or> hd (show_nat a) \<noteq> CHR ''0'')"
  proof cases
    case 1
    then show ?thesis by (simp add: show_nat.simps [of a])
  next
    case 2
    then have "a div 10 < 10" "0 < a div 10" by simp_all
    with 2 zero [of "a div 10"] show ?thesis by (simp add: show_nat.simps [of a] show_nat.simps [of "a div 10"])
  next
    case 3
    then have "a div 10 div 10 < 10" "0 < a div 10 div 10" "\<not> a div 10 < 10" using assms by linarith+
    with 3 zero [of "a div 10 div 10"] show ?thesis
      by (simp add: show_nat.simps [of a] show_nat.simps [of "a div 10"] show_nat.simps [of "a div 10 div 10"] del: div_mult2_eq)
  qed
  then show ?thesis using assms show_nat_digits by (auto simp: octet_ok_def list_all_iff)
qed

lemma quad_split:
  "split_on (CHR ''.'') (piece_text (QuadPiece a b c d)) = [show_nat a, show_nat b, show_nat c, show_nat d]"
proof -
  have "CHR ''.'' \<notin> set (show_nat n)" for n using show_nat_digits digit_not_punct by blast
  then have "split_on (CHR ''.'') (join ''.'' (map show_nat [a, b, c, d])) = map show_nat [a, b, c, d]"
    by (intro split_on_join) auto
  then show ?thesis by simp
qed

lemma QuadPiece_ipv4: "piece_ok (QuadPiece a b c d) \<Longrightarrow> isIPv4 (piece_text (QuadPiece a b c d))"
  unfolding isIPv4_def quad_split by (simp add: octet_written)

lemma QuadPiece_groups:
  "piece_ok (QuadPiece a b c d) \<Longrightarrow> piece_groups (piece_text (QuadPiece a b c d)) = [a * 256 + b, c * 256 + d]"
  using isIPv4_dotted [OF QuadPiece_ipv4] unfolding piece_groups_def quad_groups_def quad_split by simp

text \<open>The groups of the code, read as one number.\<close>

definition groups_value :: "nat list \<Rightarrow> nat" where
  "groups_value gs = foldl (\<lambda>v g. v * 2 ^ 16 + g) 0 gs"

lemma groups_value_snoc [simp]: "groups_value (gs @ [g]) = groups_value gs * 2 ^ 16 + g"
  by (simp add: groups_value_def)

lemma groups_value_append: "groups_value (gs @ hs) = groups_value gs * 2 ^ (16 * length hs) + groups_value hs"
proof (induction hs rule: rev_induct)
  case (snoc h hs)
  have "groups_value (gs @ hs @ [h]) = groups_value (gs @ hs) * 2 ^ 16 + h" using groups_value_snoc [of "gs @ hs" h] by simp
  also have "\<dots> = groups_value gs * 2 ^ (16 * length (hs @ [h])) + groups_value (hs @ [h])"
    unfolding snoc by (simp add: power_add algebra_simps)
  finally show ?case .
qed (simp add: groups_value_def)

lemma groups_value_zeros [simp]: "groups_value (replicate n 0) = 0"
  by (induction n) (simp_all add: groups_value_def)

lemma pieces_groups_value:
  assumes "list_all piece_ok ps"
  shows "groups_value (pieces_groups (map piece_text ps)) = value_of ps \<and>
    16 * length (pieces_groups (map piece_text ps)) = bits_of ps \<and> list_all (\<lambda>g. g < 2 ^ 16) (pieces_groups (map piece_text ps))"
  using assms
proof (induction ps rule: rev_induct)
  case (snoc p ps)
  have one: "groups_value (piece_groups (piece_text p)) = piece_value p \<and> 16 * length (piece_groups (piece_text p)) = piece_bits p \<and>
      list_all (\<lambda>g. g < 2 ^ 16) (piece_groups (piece_text p))"
  proof (cases p)
    case (HexPiece s)
    with snoc.prems HexPiece_groups [of s] HexPiece_value_bound [of s] show ?thesis by (simp add: groups_value_def)
  next
    case (QuadPiece a b c d)
    with snoc.prems QuadPiece_groups [of a b c d] show ?thesis by (simp add: groups_value_def)
  qed
  then have "groups_value (pieces_groups (map piece_text (ps @ [p]))) =
      value_of ps * 2 ^ piece_bits p + piece_value p"
    using snoc groups_value_append [of "pieces_groups (map piece_text ps)" "piece_groups (piece_text p)"]
    by (simp add: pieces_groups_def)
  with one snoc show ?case by (simp add: value_of_def bits_of_def pieces_groups_def)
qed (simp add: groups_value_def value_of_def bits_of_def pieces_groups_def)


text \<open>A text of the reference is a spelling, and the code expands it to the groups of its number.\<close>

fun spelling_of :: "ipv6_text \<Rightarrow> spelling" where
  "spelling_of (Written ps) = Full (map piece_text ps)"
| "spelling_of (Shortened fs bs) = Compressed (map piece_text fs) (map piece_text bs)"

lemma spell_of: "spell (spelling_of x) = text_of x"
  by (cases x) simp_all

lemma hex_pieces: "list_all piece_ok ps \<Longrightarrow> list_all (\<lambda>p. piece_bits p = 16) ps \<Longrightarrow> list_all group_ok (map piece_text ps)"
proof -
  have "piece_ok p \<Longrightarrow> piece_bits p = 16 \<Longrightarrow> group_ok (piece_text p)" for p
    using HexPiece_group by (cases p) auto
  then show "list_all piece_ok ps \<Longrightarrow> list_all (\<lambda>p. piece_bits p = 16) ps \<Longrightarrow> list_all group_ok (map piece_text ps)"
    by (simp add: list_all_iff)
qed

lemma written_pieces_ok:
  assumes "written_ok ps"
  shows "pieces_ok (map piece_text ps)"
proof (cases ps rule: rev_cases)
  case Nil
  then show ?thesis by (simp add: pieces_ok_def)
next
  case (snoc qs p)
  then have qs: "list_all group_ok (map piece_text qs)" and p: "piece_ok p"
    using assms hex_pieces [of qs] by (simp_all add: written_ok_def)
  have "group_ok (piece_text p) \<or> isIPv4 (piece_text p)"
    using p HexPiece_group QuadPiece_ipv4 by (cases p) auto
  with qs snoc show ?thesis by (auto simp: pieces_ok_def)
qed

lemma spelling_of_ok:
  assumes "text_ok x"
  shows "spell_ok (spelling_of x) \<and> groups_value (spell_groups (spelling_of x)) = address_of x \<and>
    length (spell_groups (spelling_of x)) = 8 \<and> list_all (\<lambda>g. g < 2 ^ 16) (spell_groups (spelling_of x))"
proof (cases x)
  case (Written ps)
  with assms show ?thesis using pieces_groups_value [of ps] written_pieces_ok [of ps] by (auto simp: written_ok_def)
next
  case (Shortened fs bs)
  let ?f = "pieces_groups (map piece_text fs)" and ?b = "pieces_groups (map piece_text bs)"
  have f: "groups_value ?f = value_of fs" "16 * length ?f = bits_of fs" "list_all (\<lambda>g. g < 2 ^ 16) ?f"
    and b: "groups_value ?b = value_of bs" "16 * length ?b = bits_of bs" "list_all (\<lambda>g. g < 2 ^ 16) ?b"
    using assms Shortened pieces_groups_value [of fs] pieces_groups_value [of bs] by (auto simp: written_ok_def)
  have len: "length ?f + length ?b \<le> 7" using assms Shortened f(2) b(2) by simp
  have "16 * (8 - length ?f) = 128 - bits_of fs" using f(2) by (simp add: diff_mult_distrib2)
  then have "groups_value (?f @ replicate (8 - length ?f - length ?b) 0 @ ?b) = address_of x"
    using len f(1) b(1) Shortened
    by (simp add: groups_value_append algebra_simps)
  with assms Shortened len f b show ?thesis
    using written_pieces_ok [of bs] hex_pieces [of fs] by (auto simp: list_all_iff)
qed

lemma groups_value_div:
  assumes "list_all (\<lambda>g. g < 2 ^ 16) gs"
  shows "groups_value gs div 2 ^ (16 * k) = groups_value (take (length gs - k) gs)"
  using assms
proof (induction gs arbitrary: k rule: rev_induct)
  case (snoc g gs)
  show ?case
  proof (cases k)
    case (Suc j)
    have "(groups_value gs * 2 ^ 16 + g) div 2 ^ 16 = groups_value gs" using snoc.prems by simp
    then have "groups_value (gs @ [g]) div 2 ^ (16 + 16 * j) = groups_value gs div 2 ^ (16 * j)"
      unfolding power_add div_mult2_eq groups_value_snoc by (simp only:)
    also have "\<dots> = groups_value (take (length gs - j) gs)" using snoc by simp
    finally show ?thesis using Suc by simp
  qed simp
qed (simp add: groups_value_def)

lemma groups_value_mod: "g < 2 ^ 16 \<Longrightarrow> groups_value (gs @ [g]) mod 2 ^ 16 = g"
  unfolding groups_value_snoc by simp

lemma groups_value_quad:
  assumes "g < 2 ^ 16"
  shows "groups_value (gs @ [g]) div 2 ^ 8 mod 256 = g div 256 \<and> groups_value (gs @ [g]) mod 256 = g mod 256"
proof -
  have "(x * 2 ^ 16 + g) div 2 ^ 8 = x * 256 + g div 256" for x by simp
  moreover have "g div 256 < 256" using assms by simp
  moreover have "(x * 2 ^ 16 + g) mod 256 = g mod 256" for x by (simp add: mod_add_left_eq [symmetric])
  ultimately show ?thesis unfolding groups_value_snoc by simp
qed

lemma groups_value_zero: "groups_value gs = 0 \<longleftrightarrow> list_all (\<lambda>g. g = 0) gs"
  by (induction gs rule: rev_induct) (simp_all add: groups_value_def)

lemma groups_value_mapped:
  assumes "f < 2 ^ 16"
  shows "groups_value (gs @ [f]) = 65535 \<longleftrightarrow> list_all (\<lambda>g. g = 0) gs \<and> f = 65535"
proof -
  have "x * 2 ^ 16 + f = 65535 \<longleftrightarrow> x = 0 \<and> f = 65535" for x using assms by (cases x) auto
  then show ?thesis unfolding groups_value_snoc by (simp only: groups_value_zero)
qed

lemma identity_of_value:
  assumes "length gs = 8" and "list_all (\<lambda>g. g < 2 ^ 16) gs"
  shows "identity_of_groups gs = bucket_text (groups_value gs)"
proof -
  obtain a b c d e f g h where gs: "gs = [a, b, c, d, e, f, g, h]"
    using assms(1) by (auto simp: length_Suc_conv numeral_eq_Suc)
  have lt: "a < 65536" "b < 65536" "c < 65536" "d < 65536" "e < 65536" "f < 65536" "g < 65536" "h < 65536"
    using assms(2) gs by simp_all
  let ?v = "groups_value gs"
  have all: "list_all (\<lambda>g. g < 2 ^ 16) [a, b, c, d, e, f, g, h]" using assms(2) gs by simp
  have top: "?v div 2 ^ 112 = groups_value [a]" "?v div 2 ^ 96 = groups_value ([a] @ [b])"
    "?v div 2 ^ 80 = groups_value ([a, b] @ [c])" "?v div 2 ^ 64 = groups_value ([a, b, c] @ [d])"
    "?v div 2 ^ 32 = groups_value [a, b, c, d, e, f]" "?v div 2 ^ 16 = groups_value ([a, b, c, d, e, f] @ [g])"
    using groups_value_div [OF all, of 7] groups_value_div [OF all, of 6] groups_value_div [OF all, of 5]
      groups_value_div [OF all, of 4] groups_value_div [OF all, of 2] groups_value_div [OF all, of 1]
    unfolding gs by simp_all
  have "groups_value [a, b, c, d, e, f] = 65535 \<longleftrightarrow> a = 0 \<and> b = 0 \<and> c = 0 \<and> d = 0 \<and> e = 0 \<and> f = 65535"
    using groups_value_mapped [of f "[a, b, c, d, e]"] lt by simp
  then have mapped: "?v div 2 ^ 32 = 65535 \<longleftrightarrow> a = 0 \<and> b = 0 \<and> c = 0 \<and> d = 0 \<and> e = 0 \<and> f = 65535"
    unfolding top .
  have "?v div 2 ^ 24 = ?v div 2 ^ 16 div 2 ^ 8" by (simp add: div_mult2_eq)
  then have quad: "?v div 2 ^ 24 mod 256 = g div 256" "?v div 2 ^ 16 mod 256 = g mod 256"
    "?v div 2 ^ 8 mod 256 = h div 256" "?v mod 256 = h mod 256"
    using groups_value_quad [of g "[a, b, c, d, e, f]"] groups_value_quad [of h "[a, b, c, d, e, f, g]"] lt top(6) gs by simp_all
  have net: "?v div 2 ^ 112 = a" "?v div 2 ^ 96 mod 2 ^ 16 = b" "?v div 2 ^ 80 mod 2 ^ 16 = c" "?v div 2 ^ 64 mod 2 ^ 16 = d"
    unfolding top using lt groups_value_mod [of b "[a]"] groups_value_mod [of c "[a, b]"] groups_value_mod [of d "[a, b, c]"]
    by (simp_all add: groups_value_def [of "[a]"])
  show ?thesis unfolding identity_of_groups_def bucket_text_def mapped quad net by (simp add: gs)
qed

text \<open>The same client: the same IPv4-mapped address, or the same /64.\<close>

definition same_client :: "nat \<Rightarrow> nat \<Rightarrow> bool" where
  "same_client v w \<longleftrightarrow>
     (if v div 2 ^ 32 = 65535 \<or> w div 2 ^ 32 = 65535 then v = w else v div 2 ^ 64 = w div 2 ^ 64)"

lemma hex_char_value: "d < 16 \<Longrightarrow> hex_value (hex_char d) = Some d"
  by (auto simp: hex_char_def hex_value_def Let_def code_unit_unit_char)

lemma parse_show_hex: "parseHex (show_hex n) = n"
proof (induction n rule: show_hex.induct)
  case (1 n)
  have "parseHex (s @ [c]) = 16 * parseHex s + the (hex_value c)" for s c by (simp add: parseHex_def)
  then show ?case
    using 1 by (cases "n < 16") (simp_all add: show_hex.simps [of n] hex_char_value, simp add: parseHex_def hex_char_value)
qed

lemma show_hex_inject: "show_hex m = show_hex n \<longleftrightarrow> m = n"
  by (metis parse_show_hex)

lemma show_hex_no_colon: "CHR '':'' \<notin> set (show_hex n)"
proof (induction n rule: show_hex.induct)
  case (1 n)
  have "hex_char d \<noteq> CHR '':''" if "d < 16" for d
    using hex_char_value [OF that] hex_not_punct [of "hex_char d"] by (auto simp: is_hex_def)
  with 1 show ?case by (cases "n < 16") (simp_all add: show_hex.simps [of n] eq_commute [of "CHR '':''"])
qed

lemma join_inject:
  assumes "join [c] xs = join [c] ys" and "xs \<noteq> []" and "ys \<noteq> []"
    and "\<And>w. w \<in> set xs \<union> set ys \<Longrightarrow> c \<notin> set w"
  shows "xs = ys"
proof -
  have "split_on c (join [c] xs) = xs" "split_on c (join [c] ys) = ys"
    by (rule split_on_join [OF assms(2)], rule assms(4), simp) (rule split_on_join [OF assms(3)], rule assms(4), simp)
  with assms(1) show ?thesis by metis
qed

lemma div_digit: "(v :: nat) div 2 ^ n = v div 2 ^ (n + k) * 2 ^ k + v div 2 ^ n mod 2 ^ k"
  by (simp add: power_add div_mult2_eq div_mult_mod_eq)

lemma network_digits:
  "(v :: nat) div 2 ^ 64 =
     ((v div 2 ^ 112 * 2 ^ 16 + v div 2 ^ 96 mod 2 ^ 16) * 2 ^ 16 + v div 2 ^ 80 mod 2 ^ 16) * 2 ^ 16 + v div 2 ^ 64 mod 2 ^ 16"
  using div_digit [of v 64 16] div_digit [of v 80 16] div_digit [of v 96 16] by simp

lemma quad_digits:
  "(v :: nat) =
     (((v div 2 ^ 32 * 2 ^ 8 + v div 2 ^ 24 mod 2 ^ 8) * 2 ^ 8 + v div 2 ^ 16 mod 2 ^ 8) * 2 ^ 8 + v div 2 ^ 8 mod 2 ^ 8) * 2 ^ 8 + v mod 2 ^ 8"
  using div_digit [of v 24 8] div_digit [of v 16 8] div_digit [of v 8 8] div_digit [of v 0 8] by simp

lemma bucket_text_eq_iff: "bucket_text v = bucket_text w \<longleftrightarrow> same_client v w"
proof -
  let ?q = "\<lambda>v :: nat. map show_nat [v div 2 ^ 24 mod 256, v div 2 ^ 16 mod 256, v div 2 ^ 8 mod 256, v mod 256]"
  let ?n = "\<lambda>v :: nat. map show_hex [v div 2 ^ 112, v div 2 ^ 96 mod 2 ^ 16, v div 2 ^ 80 mod 2 ^ 16, v div 2 ^ 64 mod 2 ^ 16]"
  have dot: "CHR ''.'' \<notin> set (show_nat n)" for n using show_nat_digits digit_not_punct by blast
  have q: "join ''.'' (?q v) = join ''.'' (?q w) \<longleftrightarrow> ?q v = ?q w"
  proof
    assume "join ''.'' (?q v) = join ''.'' (?q w)"
    then show "?q v = ?q w" by (rule join_inject) (use dot in auto)
  qed simp
  have n: "join '':'' (?n v) = join '':'' (?n w) \<longleftrightarrow> ?n v = ?n w"
  proof
    assume "join '':'' (?n v) = join '':'' (?n w)"
    then show "?n v = ?n w" by (rule join_inject) (use show_hex_no_colon in auto)
  qed simp
  have mixed: "join ''.'' (?q x) \<noteq> join '':'' (?n y) @ ''::/64''" for x y
  proof -
    have "CHR '':'' \<notin> set (join ''.'' (?q x))" by (auto dest!: join_chars)
    moreover have "CHR '':'' \<in> set (join '':'' (?n y) @ ''::/64'')" by simp
    ultimately show ?thesis by metis
  qed
  have vq: "v = w" if "?q v = ?q w" "v div 2 ^ 32 = w div 2 ^ 32"
    using that quad_digits [of v] quad_digits [of w] by simp
  have vn: "?n v = ?n w \<longleftrightarrow> v div 2 ^ 64 = w div 2 ^ 64"
  proof
    assume "?n v = ?n w"
    then show "v div 2 ^ 64 = w div 2 ^ 64"
      using network_digits [of v] network_digits [of w] by (simp only: list.map list.inject show_hex_inject)
  next
    assume eq: "v div 2 ^ 64 = w div 2 ^ 64"
    have "v div 2 ^ (64 + k) = w div 2 ^ (64 + k)" for k unfolding power_add div_mult2_eq eq ..
    from this [of 48] this [of 32] this [of 16] eq show "?n v = ?n w" by simp
  qed
  show ?thesis
  proof (cases "v div 2 ^ 32 = 65535"; cases "w div 2 ^ 32 = 65535")
    assume both: "v div 2 ^ 32 = 65535" "w div 2 ^ 32 = 65535"
    then have "bucket_text v = bucket_text w \<longleftrightarrow> ?q v = ?q w" "same_client v w \<longleftrightarrow> v = w"
      unfolding bucket_text_def same_client_def by (simp_all only: if_True q simp_thms)
    moreover have "?q v = ?q w \<longleftrightarrow> v = w"
    proof
      assume "?q v = ?q w"
      then show "v = w" by (rule vq) (simp only: both)
    qed (simp only:)
    ultimately show ?thesis by (simp only:)
  next
    assume "v div 2 ^ 32 = 65535" "w div 2 ^ 32 \<noteq> 65535"
    then show ?thesis using mixed [of v w] unfolding bucket_text_def same_client_def by auto
  next
    assume "v div 2 ^ 32 \<noteq> 65535" "w div 2 ^ 32 = 65535"
    then show ?thesis using mixed [of w v, symmetric] unfolding bucket_text_def same_client_def by auto
  next
    assume "v div 2 ^ 32 \<noteq> 65535" "w div 2 ^ 32 \<noteq> 65535"
    then show ?thesis using n vn unfolding bucket_text_def same_client_def by simp
  qed
qed


lemma identity_of_text:
  assumes "text_ok x" and "zone = [] \<or> hd zone = CHR ''%''" and "zone_ok zone"
  shows "rateLimitIdentity (text_of x @ zone) = bucket_text (address_of x)"
proof -
  have ok: "spell_ok (spelling_of x)" using spelling_of_ok [OF assms(1)] by blast
  have "\<not> isIPv4 (spell (spelling_of x) @ zone)"
    using spell_has_colon [OF ok] isIPv4_no_colon by fastforce
  then have "rateLimitIdentity (text_of x @ zone) = identity_of_groups (spell_groups (spelling_of x))"
    using isIPv6_spell [OF ok assms(2,3)] expandIPv6_spell(1) [OF ok] by (simp add: rateLimitIdentity_def spell_of)
  then show ?thesis using spelling_of_ok [OF assms(1)] identity_of_value by simp
qed

text \<open>C28: The limiter identity of an IPv6 address depends on its 128-bit number only, not on how it is written: compressed or
  written out, upper or lower case, leading zeros, a dotted quad for the last 32 bits, with or without a zone. It is the dotted
  IPv4 address when the upper 96 bits mark an IPv4-mapped one, and otherwise the first 64 bits in four groups. Two written
  addresses share a bucket exactly when they are the same mapped address or, neither being mapped, lie in the same /64.\<close>

theorem rateLimitIdentity_spelling:
  assumes "text_ok x" and "zone = [] \<or> hd zone = CHR ''%''" and "zone_ok zone"
    and "text_ok y" and "zone' = [] \<or> hd zone' = CHR ''%''" and "zone_ok zone'"
  shows "rateLimitIdentity (text_of x @ zone) = bucket_text (address_of x) \<and>
    (rateLimitIdentity (text_of x @ zone) = rateLimitIdentity (text_of y @ zone') \<longleftrightarrow>
       same_client (address_of x) (address_of y))"
  using identity_of_text [OF assms(1-3)] identity_of_text [OF assms(4-6)] bucket_text_eq_iff by simp

theorem rateLimitIdentity_spelling_witness:
  "rateLimitIdentity ''2001:DB8::7%eth0'' = ''2001:db8:0:0::/64'' \<and>
   rateLimitIdentity ''2001:0db8:0:0:ffff:1:2:3'' = ''2001:db8:0:0::/64'' \<and>
   rateLimitIdentity ''::ffff:203.0.113.7'' = ''203.0.113.7'' \<and>
   rateLimitIdentity ''::ffff:203.0.113.7'' \<noteq> rateLimitIdentity ''2001:DB8::7%eth0''"
proof -
  let ?a = "Shortened [HexPiece ''2001'', HexPiece ''DB8''] [HexPiece ''7'']"
  let ?b = "Written (map HexPiece [''2001'', ''0db8'', ''0'', ''0'', ''ffff'', ''1'', ''2'', ''3''])"
  let ?c = "Shortened [] [HexPiece ''ffff'', QuadPiece 203 0 113 7]"
  have ok: "text_ok ?a" "text_ok ?b" "text_ok ?c" "zone_ok ''%eth0''" "zone_ok []"
    by (simp_all add: address_eval written_ok_def bits_of_def written_digit_hex)
  have num: "address_of ?a = 8193 * 2 ^ 112 + 3512 * 2 ^ 96 + 7"
    "address_of ?b = 8193 * 2 ^ 112 + 3512 * 2 ^ 96 + 65535 * 2 ^ 48 + 2 ^ 32 + 2 ^ 17 + 3"
    "address_of ?c = 65535 * 2 ^ 32 + 203 * 2 ^ 24 + 113 * 2 ^ 8 + 7"
    by (simp_all add: value_of_def bits_of_def written_digit_hex address_eval)
  have val: "bucket_text (address_of ?a) = ''2001:db8:0:0::/64''" "bucket_text (address_of ?b) = ''2001:db8:0:0::/64''"
    "bucket_text (address_of ?c) = ''203.0.113.7''"
    unfolding num by (simp_all add: bucket_text_def address_eval show_nat.simps digit_char_def char_of_def bit_iff_odd)
  have texts: "text_of ?a @ ''%eth0'' = ''2001:DB8::7%eth0''" "text_of ?b @ [] = ''2001:0db8:0:0:ffff:1:2:3''"
    "text_of ?c @ [] = ''::ffff:203.0.113.7''"
    by (simp_all add: show_nat.simps digit_char_def unit_char_def char_of_def bit_iff_odd)
  have differ: "\<not> same_client (address_of ?c) (address_of ?a)" unfolding num by (simp add: same_client_def)
  show ?thesis
    using rateLimitIdentity_spelling [OF ok(1) _ ok(4) ok(2) _ ok(5)] rateLimitIdentity_spelling [OF ok(2) _ ok(5) ok(1) _ ok(4)]
      rateLimitIdentity_spelling [OF ok(3) _ ok(5) ok(1) _ ok(4)] val differ unfolding texts by simp
qed

lemma show_read_nat_snoc:
  assumes "is_digit c" and "0 < n"
  shows "show_nat (10 * n + (code_unit c - 48)) = show_nat n @ [c]"
proof -
  have d: "code_unit c - 48 < 10" using assms(1) unfolding is_digit_def by linarith
  then have "(10 * n + (code_unit c - 48)) div 10 = n" "(10 * n + (code_unit c - 48)) mod 10 = code_unit c - 48"
    by simp_all
  moreover have "digit_char (code_unit c - 48) = c" using assms(1) by (simp add: digit_char_def is_digit_def)
  ultimately show ?thesis using assms(2) by (subst show_nat.simps) simp
qed

lemma show_read_nat:
  "s \<noteq> [] \<Longrightarrow> list_all is_digit s \<Longrightarrow> length s = 1 \<or> hd s \<noteq> CHR ''0'' \<Longrightarrow>
   show_nat (read_nat s) = s \<and> (hd s \<noteq> CHR ''0'' \<longrightarrow> 0 < read_nat s)"
proof (induction s rule: rev_induct)
  case (snoc c s)
  have z: "code_unit d = 48 \<longleftrightarrow> d = CHR ''0''" for d
    using code_unit_eq_iff [of d "CHR ''0''"] by (simp add: code_unit_def [of "CHR ''0''"] del: code_unit_eq_iff)
  show ?case
  proof (cases "s = []")
    case True
    then show ?thesis
      using snoc.prems(2) z [of c]
      by (simp add: read_nat_def is_digit_def digit_char_def show_nat.simps [of "code_unit c - 48"]) linarith
  next
    case False
    then have "show_nat (read_nat s) = s" "0 < read_nat s" using snoc by auto
    moreover have "read_nat (s @ [c]) = 10 * read_nat s + (code_unit c - 48)" by (simp add: read_nat_def)
    ultimately show ?thesis using snoc.prems(2) show_read_nat_snoc [of c "read_nat s"] by simp
  qed
qed simp

text \<open>An IPv4-mapped IPv6 address counts in the bucket of the plain IPv4 address, for every
  IPv4 address, so one client is not two.\<close>

theorem rateLimitIdentity_mapped:
  assumes "isIPv4 a"
  shows "rateLimitIdentity (''::ffff:'' @ a) = rateLimitIdentity a \<and> rateLimitIdentity a = a"
proof -
  obtain p q r s where ps: "split_on (CHR ''.'') a = [p, q, r, s]" and ok: "octet_ok p" "octet_ok q" "octet_ok r" "octet_ok s"
    using assms by (auto simp: isIPv4_def Let_def length_Suc_conv numeral_eq_Suc)
  have a: "a = join ''.'' [p, q, r, s]" using join_split_on [of "CHR ''.''" a] ps by simp
  have oct: "show_nat (read_nat x) = x" "read_nat x < 256" if "octet_ok x" for x
    using that show_read_nat [of x] by (auto simp: octet_ok_def)
  let ?sp = "Compressed [] [''ffff'', a]"
  have ff: "group_ok ''ffff''" "parseHex ''ffff'' = 65535" by (simp_all add: address_eval)
  have groups: "pieces_groups [''ffff'', a] =
      [65535, read_nat p * 256 + read_nat q, read_nat r * 256 + read_nat s]"
    using isIPv4_dotted [OF assms] ff(2) ps by (simp add: pieces_groups_def piece_groups_def quad_groups_def)
  have "spell_ok ?sp" using assms ff(1) groups by (simp add: pieces_ok_def pieces_groups_def)
  then have "rateLimitIdentity (spell ?sp @ []) = identity_of_groups (spell_groups ?sp)"
    using isIPv6_spell [of ?sp "[]"] expandIPv6_spell(1) [of ?sp] isIPv4_no_colon [of "spell ?sp"]
    by (auto simp: rateLimitIdentity_def zone_ok_def)
  moreover have "identity_of_groups (spell_groups ?sp) = a"
    using groups oct ok a
    by (simp add: identity_of_groups_def pieces_groups_def [of "[]"] replicate5)
  ultimately show ?thesis using assms by (simp add: rateLimitIdentity_def)
qed

theorem rateLimitIdentity_mapped_witness:
  "rateLimitIdentity ''::ffff:203.0.113.7'' = ''203.0.113.7''"
proof -
  have "isIPv4 ''203.0.113.7''" by (simp add: address_eval)
  from rateLimitIdentity_mapped [OF this] show ?thesis by simp
qed

end
