(* ===== verification/Login_Throttle.thy ===== *)
theory Login_Throttle
  imports Rate_Limit Client_Address
begin

text \<open>
  The login throttle, \<open>services/auth/src/auth/login-throttle.service.ts\<close>: failures counted per
  account and per source address on the store of Rate_Limit, and the check made before any
  password work. SHA-256 is the parameter \<open>sha\<close>.
\<close>

definition accountKey :: "(bytes \<Rightarrow> bytes) \<Rightarrow> string \<Rightarrow> string \<Rightarrow> string" where
  "accountKey sha tenantId email =
     ''login:acct:'' @
     take 32 (base64url_encode (sha (utf8 (tenantId @ '':'' @ toLowerCase (trim email)))))"

definition addressKey :: "string \<Rightarrow> string" where
  "addressKey ip = ''login:addr:'' @ rateLimitIdentity ip"

text \<open>The refusal, if any: None lets the attempt through.\<close>

definition assertWithinLimits ::
    "(bytes \<Rightarrow> bytes) \<Rightarrow> AppConfig \<Rightarrow> string \<Rightarrow> string \<Rightarrow> string \<Rightarrow> Redis \<Rightarrow> DomainError option \<times> Redis" where
  "assertWithinLimits sha config tenantId email ip r =
     (case peek (accountKey sha tenantId email) (cf_loginThrottleLimit config)
             (cf_loginThrottleWindowMs config) r of
        (account, r') \<Rightarrow>
          case peek (addressKey ip) (cf_loginThrottleLimit config)
                 (cf_loginThrottleWindowMs config) r' of
            (address, r'') \<Rightarrow>
              (if rl_degraded account \<or> rl_degraded address then Some LoginThrottleUnavailableError
               else if \<not> rl_allowed account \<or> \<not> rl_allowed address then
                 Some (TooManyRequestsError
                   (max (if rl_allowed account then 0 else rl_retryAfterMs account)
                        (if rl_allowed address then 0 else rl_retryAfterMs address)))
               else None,
               r''))"

definition recordFailure ::
    "(bytes \<Rightarrow> bytes) \<Rightarrow> AppConfig \<Rightarrow> string \<Rightarrow> string \<Rightarrow> string \<Rightarrow> store_state \<Rightarrow> store_state" where
  "recordFailure sha config tenantId email ip s =
     store_hit config (cf_loginThrottleLimit config) (cf_loginThrottleWindowMs config) (addressKey ip)
       (store_hit config (cf_loginThrottleLimit config) (cf_loginThrottleWindowMs config)
          (accountKey sha tenantId email) s)"

definition recordSuccess :: "(bytes \<Rightarrow> bytes) \<Rightarrow> string \<Rightarrow> string \<Rightarrow> store_state \<Rightarrow> store_state" where
  "recordSuccess sha tenantId email s = store_clear (accountKey sha tenantId email) s"

section \<open>Facts\<close>

lemma throttle_keys_differ [simp]:
  "accountKey sha t e \<noteq> addressKey ip" "addressKey ip \<noteq> accountKey sha t e"
  by (simp_all add: accountKey_def addressKey_def)

lemma accountKey_normalises: "accountKey sha t (toLowerCase (trim e)) = accountKey sha t e"
  by (simp add: accountKey_def toLowerCase_trim)

abbreviation throttle_count :: "AppConfig \<Rightarrow> store_state \<Rightarrow> string \<Rightarrow> int" where
  "throttle_count config \<equiv> store_count (cf_loginThrottleWindowMs config)"

abbreviation throttle_good :: "AppConfig \<Rightarrow> store_state \<Rightarrow> bool" where
  "throttle_good config \<equiv> store_good (cf_loginThrottleWindowMs config)"

lemma peek_as_read: "peek k l w r = (case store_read l w k (f, r) of (res, s) \<Rightarrow> (res, snd s))"
  by (simp add: store_read_def split: prod.splits)

lemma assertWithinLimits_iff:
  assumes "throttle_good config (f, r)"
  shows "fst (assertWithinLimits sha config t e ip r) = None \<longleftrightarrow>
     throttle_count config (f, r) (accountKey sha t e) < cf_loginThrottleLimit config \<and>
     throttle_count config (f, r) (addressKey ip) < cf_loginThrottleLimit config"
proof -
  let ?w = "cf_loginThrottleWindowMs config" and ?l = "cf_loginThrottleLimit config"
  let ?a = "accountKey sha t e" and ?b = "addressKey ip"
  obtain x s where x: "store_read ?l ?w ?a (f, r) = (x, s)" by (cases "store_read ?l ?w ?a (f, r)")
  obtain y u where y: "store_read ?l ?w ?b s = (y, u)" by (cases "store_read ?l ?w ?b s")
  have s: "store_good ?w s" "\<And>k. store_count ?w s k = store_count ?w (f, r) k"
    using counter.read_keeps [OF assms, of ?l ?a] x by simp_all
  have "\<not> rl_degraded x" "rl_allowed x \<longleftrightarrow> store_count ?w (f, r) ?a < ?l"
    using counter.read_reports [OF assms, of ?l ?a] x by simp_all
  moreover have "\<not> rl_degraded y" "rl_allowed y \<longleftrightarrow> store_count ?w (f, r) ?b < ?l"
    using counter.read_reports [OF s(1), of ?l ?b] y s(2) by simp_all
  moreover have "peek ?a ?l ?w r = (x, snd s)" "peek ?b ?l ?w (snd s) = (y, snd u)"
    using x y by (simp_all add: peek_as_read [of _ _ _ r f] peek_as_read [of _ _ _ "snd s" "fst s"])
  ultimately show ?thesis by (simp add: assertWithinLimits_def)
qed

lemma recordFailure_counts:
  assumes "throttle_good config s"
    and "throttle_count config s (accountKey sha t e) \<le> cf_loginThrottleLimit config"
    and "throttle_count config s (addressKey ip) \<le> cf_loginThrottleLimit config"
  shows "throttle_good config ((recordFailure sha config t e ip ^^ n) s) \<and>
    throttle_count config ((recordFailure sha config t e ip ^^ n) s) (accountKey sha t e) =
      min (cf_loginThrottleLimit config) (throttle_count config s (accountKey sha t e) + int n) \<and>
    throttle_count config ((recordFailure sha config t e ip ^^ n) s) (addressKey ip) =
      min (cf_loginThrottleLimit config) (throttle_count config s (addressKey ip) + int n)"
  using counter.paired_hits [OF assms(1) _ assms(2,3), where config = config]
  by (simp add: recordFailure_def [abs_def])

section \<open>A history of logins\<close>

text \<open>What the throttle hears of, at a time of the Redis clock.\<close>

datatype throttle_event = FailedLogin string string string | SucceededLogin string string

definition at_clock :: "nat \<Rightarrow> store_state \<Rightarrow> store_state" where
  "at_clock t s = (fst s, (snd s)\<lparr>rd_clock := t\<rparr>)"

fun throttle_run :: "(bytes \<Rightarrow> bytes) \<Rightarrow> AppConfig \<Rightarrow> (nat \<times> throttle_event) list \<Rightarrow> store_state \<Rightarrow> store_state" where
  "throttle_run sha config [] s = s"
| "throttle_run sha config ((t, FailedLogin tenant email ip) # es) s =
     throttle_run sha config es (recordFailure sha config tenant email ip (at_clock t s))"
| "throttle_run sha config ((t, SucceededLogin tenant email) # es) s =
     throttle_run sha config es (recordSuccess sha tenant email (at_clock t s))"

text \<open>The reference: for each key the times, in milliseconds, of the failures counted against it. A failure is counted
  unless the limit of failures within the last window already is; a success forgets the account's.\<close>

definition recent :: "int \<Rightarrow> int \<Rightarrow> int list \<Rightarrow> nat" where
  "recent w now ts = length (filter (\<lambda>u. now - w < u) ts)"

definition count_failure :: "int \<Rightarrow> int \<Rightarrow> int \<Rightarrow> string \<Rightarrow> (string \<Rightarrow> int list) \<Rightarrow> (string \<Rightarrow> int list)" where
  "count_failure l w now k logs = (if int (recent w now (logs k)) < l then logs(k := logs k @ [now]) else logs)"

fun failure_times :: "(bytes \<Rightarrow> bytes) \<Rightarrow> int \<Rightarrow> int \<Rightarrow> (nat \<times> throttle_event) list \<Rightarrow> (string \<Rightarrow> int list) \<Rightarrow> (string \<Rightarrow> int list)" where
  "failure_times sha l w [] logs = logs"
| "failure_times sha l w ((t, FailedLogin tenant email ip) # es) logs =
     failure_times sha l w es
       (count_failure l w (int t div 1000) (addressKey ip) (count_failure l w (int t div 1000) (accountKey sha tenant email) logs))"
| "failure_times sha l w ((t, SucceededLogin tenant email) # es) logs =
     failure_times sha l w es (logs(accountKey sha tenant email := []))"

text \<open>The store holds the reference's logs, with members that are ids of this process.\<close>

definition store_logs :: "int \<Rightarrow> int \<Rightarrow> store_state \<Rightarrow> (string \<Rightarrow> int list) \<Rightarrow> bool" where
  "store_logs l w s logs \<longleftrightarrow> rd_up (snd s) \<and> 0 < w \<and>
     (\<forall>k. \<exists>log. log_ok (keyPrefix @ k) l w (snd s) log \<and> map snd log = logs k \<and>
        (\<forall>m \<in> fst ` set log. \<exists>n \<le> mi_counter (fst s). m = memberId (mi_instanceId (fst s)) n))"

lemma filter_snd: "length (filter (\<lambda>(m, t). P t) xs) = length (filter P (map snd xs))"
  by (induction xs) auto

lemma store_logs_count:
  assumes "store_logs l w s logs"
  shows "store_count w s k = int (recent w (now_ms (snd s)) (logs k))"
proof -
  obtain log where "log_ok (keyPrefix @ k) l w (snd s) log" "map snd log = logs k"
    using assms by (auto simp: store_logs_def)
  then have "length (window_members (keyPrefix @ k) w (snd s)) = length (filter (\<lambda>u. now_ms (snd s) - w < u) (logs k))"
    using filter_snd [of "\<lambda>u. now_ms (snd s) - w < u" log] by (simp add: log_ok_def)
  then show ?thesis by (simp add: store_count_def recent_def)
qed

lemma store_logs_later:
  assumes "store_logs l w s logs" "rd_clock (snd s) \<le> t"
  shows "store_logs l w (at_clock t s) logs"
proof -
  have "now_ms (snd s) \<le> now_ms ((snd s)\<lparr>rd_clock := t\<rparr>)" using assms(2) by (simp add: now_ms_clock zdiv_mono1)
  then have "log_ok k l w ((snd s)\<lparr>rd_clock := t\<rparr>) log" if "log_ok k l w (snd s) log" for k log
    using log_ok_later [OF that, of "(snd s)\<lparr>rd_clock := t\<rparr>"] by simp
  with assms(1) show ?thesis unfolding store_logs_def at_clock_def fst_conv snd_conv by fastforce
qed

lemma store_logs_hit:
  assumes "store_logs l w s logs"
  shows "store_logs l w (store_hit config l w k s) (count_failure l w (now_ms (snd s)) k logs)"
    "rd_clock (snd (store_hit config l w k s)) = rd_clock (snd s)"
proof -
  obtain f r where s: "s = (f, r)" by (cases s)
  let ?m = "fst (nextMemberId f)" and ?K = "keyPrefix @ k"
  have up: "rd_up r" and w: "0 < w" using assms by (simp_all add: store_logs_def s)
  have hit: "store_hit config l w k s = (snd (nextMemberId f), snd (slidingWindow ?K w l ?m r))"
    by (simp add: store_hit_def s consume_up [OF up])
  have f': "mi_instanceId (snd (nextMemberId f)) = mi_instanceId f" "mi_counter (snd (nextMemberId f)) = Suc (mi_counter f)"
    and m: "?m = memberId (mi_instanceId f) (Suc (mi_counter f))"
    by (simp_all add: nextMemberId_def Let_def)
  have now: "now_ms (snd (slidingWindow ?K w l ?m r)) = now_ms r" by (simp add: now_ms_clock)
  show "rd_clock (snd (store_hit config l w k s)) = rd_clock (snd s)" unfolding hit by (simp add: s)
  have accepts: "(\<exists>c z. fst (slidingWindow ?K w l ?m r) = Some (1, c, z)) \<longleftrightarrow> int (recent w (now_ms r) (logs k)) < l"
    using store_logs_count [OF assms, of k] by (auto simp: slidingWindow_alt Let_def store_count_def s)
  have "\<exists>log. log_ok (keyPrefix @ k') l w (snd (slidingWindow ?K w l ?m r)) log \<and>
      map snd log = count_failure l w (now_ms r) k logs k' \<and>
      (\<forall>x \<in> fst ` set log. \<exists>n \<le> Suc (mi_counter f). x = memberId (mi_instanceId f) n)" for k'
  proof -
    obtain log where log: "log_ok (keyPrefix @ k') l w r log" "map snd log = logs k'"
        "\<forall>x \<in> fst ` set log. \<exists>n \<le> mi_counter f. x = memberId (mi_instanceId f) n"
      using assms unfolding store_logs_def s fst_conv snd_conv by blast
    have old: "\<forall>x \<in> fst ` set log. \<exists>n \<le> Suc (mi_counter f). x = memberId (mi_instanceId f) n" using log(3) le_Suc_eq by blast
    show ?thesis
    proof (cases "k' = k")
      case True
      have fresh: "?m \<notin> fst ` set log" using log(3) m by fastforce
      let ?log = "if int (recent w (now_ms r) (logs k)) < l then log @ [(?m, now_ms r)] else log"
      have "log_ok ?K l w (snd (slidingWindow ?K w l ?m r)) ?log"
        using log_ok_slide [OF log(1) [unfolded True] w fresh] unfolding accepts .
      moreover have "map snd ?log = count_failure l w (now_ms r) k logs k" using log(2) True by (simp add: count_failure_def)
      moreover have "\<forall>x \<in> fst ` set ?log. \<exists>n \<le> Suc (mi_counter f). x = memberId (mi_instanceId f) n"
        using old m by auto
      ultimately show ?thesis using True by blast
    next
      case False
      then have "rd_keys (snd (slidingWindow ?K w l ?m r)) (keyPrefix @ k') = rd_keys r (keyPrefix @ k')"
        by (intro rd_keys_other) simp
      from log_ok_later [OF log(1) this] now log(2) old False show ?thesis
        by (intro exI [of _ log]) (simp add: count_failure_def)
    qed
  qed
  then show "store_logs l w (store_hit config l w k s) (count_failure l w (now_ms (snd s)) k logs)"
    using up w unfolding store_logs_def hit fst_conv snd_conv f' by (simp add: s)
qed

lemma store_logs_clear:
  assumes "store_logs l w s logs"
  shows "store_logs l w (store_clear k s) (logs(k := []))" "rd_clock (snd (store_clear k s)) = rd_clock (snd s)"
proof -
  obtain f r where s: "s = (f, r)" by (cases s)
  have up: "rd_up r" using assms by (simp add: store_logs_def s)
  have now: "now_ms (DEL (keyPrefix @ k) r) = now_ms r" by (simp add: DEL_def now_ms_clock)
  show "rd_clock (snd (store_clear k s)) = rd_clock (snd s)" by (simp add: store_clear_def s reset_def up DEL_def)
  have "\<exists>log. log_ok (keyPrefix @ k') l w (DEL (keyPrefix @ k) r) log \<and> map snd log = (logs(k := [])) k' \<and>
      (\<forall>x \<in> fst ` set log. \<exists>n \<le> mi_counter f. x = memberId (mi_instanceId f) n)" for k'
  proof (cases "k' = k")
    case True
    then show ?thesis using log_ok_reset by (intro exI [of _ "[]"]) simp
  next
    case False
    obtain log where log: "log_ok (keyPrefix @ k') l w r log" "map snd log = logs k'"
        "\<forall>x \<in> fst ` set log. \<exists>n \<le> mi_counter f. x = memberId (mi_instanceId f) n"
      using assms unfolding store_logs_def s fst_conv snd_conv by blast
    have "rd_keys (DEL (keyPrefix @ k) r) (keyPrefix @ k') = rd_keys r (keyPrefix @ k')" using False by (intro rd_keys_other) simp
    from log_ok_later [OF log(1) this] now log(2,3) False show ?thesis by (intro exI [of _ log]) simp
  qed
  then show "store_logs l w (store_clear k s) (logs(k := []))"
    using assms up by (simp add: store_logs_def store_clear_def s reset_def DEL_def)
qed

text \<open>Times of a history that only advance from \<open>t\<close>.\<close>

fun advancing :: "nat \<Rightarrow> (nat \<times> throttle_event) list \<Rightarrow> nat \<Rightarrow> bool" where
  "advancing t [] now \<longleftrightarrow> t \<le> now"
| "advancing t ((u, e) # es) now \<longleftrightarrow> t \<le> u \<and> advancing u es now"

lemma at_clock_now [simp]: "now_ms (snd (at_clock t s)) = int t div 1000" "rd_clock (snd (at_clock t s)) = t"
  by (simp_all add: at_clock_def now_ms_clock)

lemma throttle_run_logs:
  assumes "store_logs (cf_loginThrottleLimit config) (cf_loginThrottleWindowMs config) s logs"
    and "advancing (rd_clock (snd s)) es now"
  shows "store_logs (cf_loginThrottleLimit config) (cf_loginThrottleWindowMs config) (throttle_run sha config es s)
      (failure_times sha (cf_loginThrottleLimit config) (cf_loginThrottleWindowMs config) es logs) \<and>
    rd_clock (snd (throttle_run sha config es s)) \<le> now"
  using assms
proof (induction sha config es s arbitrary: logs rule: throttle_run.induct)
  case (2 sha config t tenant email ip es s)
  let ?l = "cf_loginThrottleLimit config" and ?w = "cf_loginThrottleWindowMs config"
  let ?a = "accountKey sha tenant email" and ?b = "addressKey ip"
  have at: "store_logs ?l ?w (at_clock t s) logs" using 2(2,3) store_logs_later by simp
  note one = store_logs_hit [OF at, of config ?a]
  note two = store_logs_hit [OF one(1), of config ?b]
  have now: "now_ms (snd (store_hit config ?l ?w ?a (at_clock t s))) = int t div 1000" using one(2) by (simp add: now_ms_clock)
  show ?case
    using 2(1) [of "count_failure ?l ?w (int t div 1000) ?b (count_failure ?l ?w (int t div 1000) ?a logs)"] one two now 2(3)
    by (simp add: recordFailure_def)
next
  case (3 sha config t tenant email es s)
  let ?l = "cf_loginThrottleLimit config" and ?w = "cf_loginThrottleWindowMs config"
  have at: "store_logs ?l ?w (at_clock t s) logs" using 3(2,3) store_logs_later by simp
  note one = store_logs_clear [OF at, of "accountKey sha tenant email", folded recordSuccess_def]
  from 3(1) [OF one(1)] one(2) 3(3) show ?case by (simp add: fun_upd_def)
qed simp

lemma assertWithinLimits_counts:
  assumes "rd_up r"
  shows "fst (assertWithinLimits sha config t e ip r) = None \<longleftrightarrow>
     throttle_count config (f, r) (accountKey sha t e) < cf_loginThrottleLimit config \<and>
     throttle_count config (f, r) (addressKey ip) < cf_loginThrottleLimit config"
  using assms by (auto simp: assertWithinLimits_def peek_up store_count_def)

section \<open>Properties of the throttle\<close>

text \<open>C24: The throttle trips exactly at its limit, whatever logins came before. Start from an empty store with Redis
  answering throughout, and let logins of any accounts from any addresses fail and succeed at
  advancing times. An attempt is let through exactly when fewer failures than the limit lie within the
  window that ends at the attempt, both of those counted against its account and of those counted
  against its address; a failure ages out with the window, one beyond a full window is not counted,
  and a success forgets the failures of its account only.\<close>

theorem throttle_trips_exactly_at_limit:
  assumes "rd_keys (snd s) = Map.empty" and "rd_up (snd s)" and "0 < cf_loginThrottleWindowMs config"
    and "advancing (rd_clock (snd s)) es now"
    and "logs = failure_times sha (cf_loginThrottleLimit config) (cf_loginThrottleWindowMs config) es (\<lambda>_. [])"
  shows "fst (assertWithinLimits sha config tenant email ip (snd (at_clock now (throttle_run sha config es s)))) = None \<longleftrightarrow>
    (\<forall>k \<in> {accountKey sha tenant email, addressKey ip}.
       int (recent (cf_loginThrottleWindowMs config) (int now div 1000) (logs k)) < cf_loginThrottleLimit config)"
proof -
  let ?l = "cf_loginThrottleLimit config" and ?w = "cf_loginThrottleWindowMs config"
  have "log_ok k ?l ?w (snd s) []" for k
    using assms(1) by (simp add: log_ok_def bucket_ok_def window_members_def live_members_def stored_members_def in_window_def)
  then have "store_logs ?l ?w s (\<lambda>_. [])" using assms(2,3) by (auto simp: store_logs_def intro!: exI [of _ "[]"])
  from throttle_run_logs [OF this assms(4)] have run: "store_logs ?l ?w (throttle_run sha config es s) logs"
      "rd_clock (snd (throttle_run sha config es s)) \<le> now" using assms(5) by simp_all
  let ?s = "at_clock now (throttle_run sha config es s)"
  have s: "store_logs ?l ?w ?s logs" by (rule store_logs_later [OF run])
  then have "rd_up (snd ?s)" by (simp add: store_logs_def)
  from assertWithinLimits_counts [OF this, of sha config tenant email ip "fst ?s"] show ?thesis
    using store_logs_count [OF s] by simp
qed

lemma demo_store_good:
  "throttle_good demo_config (newMemberIdFactory [], demo_redis 5000000)"
  "throttle_count demo_config (newMemberIdFactory [], demo_redis 5000000) k = 0"
  by (simp_all add: store_good_def store_count_def window_members_def live_members_def demo_redis_def
      demo_config_def)

theorem throttle_trips_exactly_at_limit_witness:
  "fst (assertWithinLimits (\<lambda>x. x) demo_config ''t'' ''e'' ''10.0.0.1''
     (snd (at_clock 7000000 (throttle_run (\<lambda>x. x) demo_config
        [(5000000, FailedLogin ''t'' ''e'' ''10.0.0.1''), (6000000, FailedLogin ''t'' ''e'' ''10.0.0.2'')]
        (newMemberIdFactory [], demo_redis 5000000))))) \<noteq> None \<and>
   fst (assertWithinLimits (\<lambda>x. x) demo_config ''t'' ''e'' ''10.0.0.1''
     (snd (at_clock 905000000 (throttle_run (\<lambda>x. x) demo_config
        [(5000000, FailedLogin ''t'' ''e'' ''10.0.0.1''), (6000000, FailedLogin ''t'' ''e'' ''10.0.0.2'')]
        (newMemberIdFactory [], demo_redis 5000000))))) = None"
proof -
  let ?es = "[(5000000, FailedLogin ''t'' ''e'' ''10.0.0.1''), (6000000, FailedLogin ''t'' ''e'' ''10.0.0.2'')]"
  have cfg: "cf_loginThrottleLimit demo_config = 2" "cf_loginThrottleWindowMs demo_config = 900000"
    by (simp_all add: demo_config_def)
  have "addressKey ''10.0.0.1'' \<noteq> addressKey ''10.0.0.2''" by code_simp
  then have logs: "failure_times (\<lambda>x. x) 2 900000 ?es (\<lambda>_. []) (accountKey (\<lambda>x. x) ''t'' ''e'') = [5000, 6000]"
    "failure_times (\<lambda>x. x) 2 900000 ?es (\<lambda>_. []) (addressKey ''10.0.0.1'') = [5000]"
    by (simp_all add: count_failure_def recent_def)
  have "fst (assertWithinLimits (\<lambda>x. x) demo_config ''t'' ''e'' ''10.0.0.1''
     (snd (at_clock now (throttle_run (\<lambda>x. x) demo_config ?es (newMemberIdFactory [], demo_redis 5000000))))) = None \<longleftrightarrow>
     int (recent 900000 (int now div 1000) [5000, 6000]) < 2 \<and> int (recent 900000 (int now div 1000) [5000]) < 2"
    if "6000000 \<le> now" for now
    using throttle_trips_exactly_at_limit [of "(newMemberIdFactory [], demo_redis 5000000)" demo_config ?es now _ "\<lambda>x. x", OF _ _ _ _ refl]
      that logs
    by (simp add: cfg demo_redis_def)
  from this [of 7000000] this [of 905000000] show ?thesis by (simp add: recent_def)
qed

text \<open>A successful login clears the account's failure count and leaves the address's and every
  other account's as they were, so one valid account cannot be used to wipe an address budget.\<close>

theorem recordSuccess_clears_account_only:
  assumes "throttle_good config s"
  shows "throttle_count config (recordSuccess sha t e s) (accountKey sha t e) = 0 \<and>
     throttle_count config (recordSuccess sha t e s) (addressKey ip) = throttle_count config s (addressKey ip) \<and>
     (\<forall>k. k \<noteq> accountKey sha t e \<longrightarrow>
        throttle_count config (recordSuccess sha t e s) k = throttle_count config s k)"
  using counter.clear_clears [OF assms, of "accountKey sha t e"] by (simp add: recordSuccess_def)

theorem recordSuccess_clears_account_only_witness:
  "throttle_count demo_config
     (recordSuccess (\<lambda>x. x) ''t'' ''e'' (newMemberIdFactory [], demo_redis 5000000))
     (accountKey (\<lambda>x. x) ''t'' ''e'') = 0"
  using recordSuccess_clears_account_only [OF demo_store_good(1), of "\<lambda>x. x" "''t''" "''e''"] by simp

text \<open>C25: The throttle fails closed: with Redis unreachable every attempt is refused with the error
  that the audit trail tells apart, whatever the fail-open setting of the request limiter.\<close>

theorem throttle_fails_closed:
  assumes "\<not> rd_up r"
  shows "assertWithinLimits sha config t e ip r = (Some LoginThrottleUnavailableError, r)"
  using assms by (simp add: assertWithinLimits_def peek_def)

theorem throttle_fails_closed_witness:
  "cf_rateLimitFailOpen demo_config \<and>
   fst (assertWithinLimits (\<lambda>x. x) demo_config ''t'' ''e'' ''10.0.0.1'' ((demo_redis 0)\<lparr>rd_up := False\<rparr>)) =
     Some LoginThrottleUnavailableError"
  using throttle_fails_closed [of "(demo_redis 0)\<lparr>rd_up := False\<rparr>"]
  by (simp add: demo_config_def)

lemma peek_retry:
  assumes "rd_up r" and "\<not> rl_allowed (fst (peek k l w r))"
    and "int (length (window_members (keyPrefix @ k) w r)) \<le> l" and "0 < l"
  shows "fst (slidingWindow (keyPrefix @ k) w l m r) = Some (0, l, rl_retryAfterMs (fst (peek k l w r)))"
  using assms
  by (auto simp: peek_up [OF assms(1)] peekWindow_alt slidingWindow_alt Let_def)

lemma window_after_wait:
  assumes ok: "bucket_ok w r (keyPrefix @ k)" and w: "0 < w" and l: "0 < l" and up: "rd_up r"
    and le: "int (length (window_members (keyPrefix @ k) w r)) \<le> l"
    and later: "rd_keys r' = rd_keys r" "now_ms r \<le> now_ms r'"
    and wait: "\<not> rl_allowed (fst (peek k l w r)) \<Longrightarrow>
      now_ms r + rl_retryAfterMs (fst (peek k l w r)) \<le> now_ms r'"
  shows "int (length (window_members (keyPrefix @ k) w r')) < l"
proof (cases "rl_allowed (fst (peek k l w r))")
  case True
  have "window_members (keyPrefix @ k) w r' =
      filter (\<lambda>(m, s). now_ms r' - w < s) (window_members (keyPrefix @ k) w r)"
    unfolding window_members_stored [OF ok]
      window_members_stored [OF bucket_ok_later [OF ok fun_cong [OF later(1)] later(2)]]
    using later by (auto simp: stored_members_def intro!: filter_cong)
  then have "length (window_members (keyPrefix @ k) w r') \<le> length (window_members (keyPrefix @ k) w r)"
    by simp
  then show ?thesis using True by (simp add: peek_up [OF up])
next
  case False
  then show ?thesis
    using retry_exact(2) [OF ok w peek_retry [OF up False le l], of r'] later wait by simp
qed

lemma live_later:
  assumes "rd_keys r' = rd_keys r" and "now_ms r \<le> now_ms r'"
  shows "set (live_members r' k) \<subseteq> set (live_members r k)"
  using assms
  by (cases "rd_keys r k") (auto simp: live_members_def split: option.splits if_splits)

text \<open>The wait in the refusal is enough for both counters: a caller who returns after the
  milliseconds of the refusal, with nothing counted in between, is let through.\<close>

theorem throttle_wait_is_enough:
  assumes "fst (assertWithinLimits sha config t e ip r) = Some (TooManyRequestsError ms)"
    and "throttle_good config (f, r)" and "0 < cf_loginThrottleLimit config"
    and "\<And>k. bucket_ok (cf_loginThrottleWindowMs config) r (keyPrefix @ k)"
    and "\<And>k. throttle_count config (f, r) k \<le> cf_loginThrottleLimit config"
    and "rd_keys r' = rd_keys r" and "rd_up r'" and "now_ms r + ms \<le> now_ms r'" and "now_ms r \<le> now_ms r'"
  shows "fst (assertWithinLimits sha config t e ip r') = None"
proof -
  let ?w = "cf_loginThrottleWindowMs config" and ?l = "cf_loginThrottleLimit config"
  let ?a = "accountKey sha t e" and ?b = "addressKey ip"
  have up: "rd_up r" and w: "0 < ?w" using assms(2) by (simp_all add: store_good_def)
  define x y where "x = fst (peek ?a ?l ?w r)" and "y = fst (peek ?b ?l ?w r)"
  have "fst (peek ?b ?l ?w (snd (peek ?a ?l ?w r))) = y"
    unfolding y_def using up
    by (simp add: peek_up peekWindow_alt [of "keyPrefix @ ?b"] Let_def)
  then have "ms = max (if rl_allowed x then 0 else rl_retryAfterMs x) (if rl_allowed y then 0 else rl_retryAfterMs y)"
    using assms(1) by (auto simp: assertWithinLimits_def x_def split: prod.splits if_splits)
  then have wx: "\<not> rl_allowed x \<Longrightarrow> now_ms r + rl_retryAfterMs x \<le> now_ms r'"
    and wy: "\<not> rl_allowed y \<Longrightarrow> now_ms r + rl_retryAfterMs y \<le> now_ms r'"
    using assms(8) by auto
  have le: "int (length (window_members (keyPrefix @ k) ?w r)) \<le> ?l" for k
    using assms(5) [of k] by (simp add: store_count_def)
  have "throttle_count config (f, r') ?a < ?l" "throttle_count config (f, r') ?b < ?l"
    using window_after_wait [OF assms(4) w assms(3) up le assms(6,9) wx [unfolded x_def]]
      window_after_wait [OF assms(4) w assms(3) up le assms(6,9) wy [unfolded y_def]]
    by (simp_all add: store_count_def)
  moreover have "throttle_good config (f, r')"
    by (rule store_good_shrink [OF assms(2,7) live_later [OF assms(6,9)]])
  ultimately show ?thesis using assertWithinLimits_iff by blast
qed

definition throttled_redis :: Redis where
  "throttled_redis =
     (demo_redis 5000000)\<lparr>rd_keys :=
        [keyPrefix @ accountKey (\<lambda>x. x) ''t'' ''e'' \<mapsto>
           \<lparr>zs_members = [(''a:1'', 4000), (''a:2'', 4500)], zs_expireAt = Some 904500\<rparr>]\<rparr>"

lemma throttled_redis_facts:
  "rd_up throttled_redis" "now_ms throttled_redis = 5000" "bucket_ok 900000 throttled_redis k"
  "live_members throttled_redis k = (if k = keyPrefix @ accountKey (\<lambda>x. x) ''t'' ''e''
     then [(''a:1'', 4000), (''a:2'', 4500)] else [])"
  by (auto simp: throttled_redis_def demo_redis_def now_ms_clock bucket_ok_def live_members_def)

theorem throttle_wait_is_enough_witness:
  "fst (assertWithinLimits (\<lambda>x. x) demo_config ''t'' ''e'' ''10.0.0.1'' throttled_redis) =
     Some (TooManyRequestsError 899000) \<and>
   fst (assertWithinLimits (\<lambda>x. x) demo_config ''t'' ''e'' ''10.0.0.1''
      (throttled_redis\<lparr>rd_clock := 904000000\<rparr>)) = None"
proof -
  let ?f = "\<lparr>mi_instanceId = ''b'', mi_counter = 0\<rparr>" and ?r' = "throttled_redis\<lparr>rd_clock := 904000000\<rparr>"
  have cfg: "cf_loginThrottleLimit demo_config = 2" "cf_loginThrottleWindowMs demo_config = 900000"
    by (simp_all add: demo_config_def)
  have wm: "window_members k 900000 throttled_redis = live_members throttled_redis k" for k
    by (simp add: window_members_def throttled_redis_facts)
  have wm': "window_members (keyPrefix @ addressKey ip) 900000
      (ZREMRANGEBYSCORE (keyPrefix @ accountKey (\<lambda>x. x) ''t'' ''e'') lo hi throttled_redis) = []" for ip lo hi
    by (simp add: window_members_def ZREMRANGEBYSCORE_def throttled_redis_facts)
  have refused: "fst (assertWithinLimits (\<lambda>x. x) demo_config ''t'' ''e'' ''10.0.0.1'' throttled_redis) =
     Some (TooManyRequestsError 899000)"
    by (simp add: assertWithinLimits_def peek_up throttled_redis_facts cfg wm wm' peekWindow_alt Let_def)
  moreover have "throttle_good demo_config (?f, throttled_redis)"
    by (auto simp: store_good_def throttled_redis_facts cfg memberId_def split: if_splits)
  moreover have "throttle_count demo_config (?f, throttled_redis) k \<le> cf_loginThrottleLimit demo_config" for k
    by (simp add: store_count_def cfg wm throttled_redis_facts)
  moreover have "now_ms ?r' = 904000" by (simp add: now_ms_clock)
  ultimately show ?thesis
    using throttle_wait_is_enough [OF refused, of ?f ?r'] throttled_redis_facts(1,2,3) cfg by simp
qed

end
