(* ===== verification/Audit_Hash.thy ===== *)
theory Audit_Hash
  imports Kit_Common
begin

text \<open>
  The hash chain, \<open>packages/crypto/src/audit-hash.ts\<close>: the canonical serialisation of an
  event, the hash of an event given its predecessor's, and the verifier that walks a chain.
  SHA-256 (\<open>node:crypto\<close>) is the parameter \<open>sha\<close>.
\<close>

section \<open>Events and their canonical form\<close>

definition HASH_DOMAIN :: string where
  "HASH_DOMAIN = ''crbk.audit.v1''"

definition AUDIT_HASH_BYTES :: nat where
  "AUDIT_HASH_BYTES = 32"

definition GENESIS_HASH :: bytes where
  "GENESIS_HASH = replicate AUDIT_HASH_BYTES 0"

text \<open>A flat object of string values, as the association list of its own properties.\<close>

type_synonym AuditMetadata = "(string \<times> string) list"

record AuditEventInput =
  ae_action :: string
  ae_actorType :: string
  ae_actorId :: "string option"
  ae_resourceType :: "string option"
  ae_resourceId :: "string option"
  ae_traceId :: "string option"
  ae_sourceIp :: "string option"
  ae_occurredAt :: string
  ae_metadata :: AuditMetadata

definition scalars :: "'a AuditEventInput_scheme \<Rightarrow> (string \<times> string option) list" where
  "scalars e =
     [(''action'', Some (ae_action e)),
      (''actorType'', Some (ae_actorType e)),
      (''actorId'', ae_actorId e),
      (''occurredAt'', Some (ae_occurredAt e)),
      (''resourceId'', ae_resourceId e),
      (''resourceType'', ae_resourceType e),
      (''sourceIp'', ae_sourceIp e),
      (''traceId'', ae_traceId e)]"

definition scalar_part :: "string \<Rightarrow> string option \<Rightarrow> string" where
  "scalar_part key value =
     (case value of
        None \<Rightarrow> key @ '':null''
      | Some v \<Rightarrow> key @ '':'' @ show_nat (byteLength v) @ '':'' @ v)"

definition meta_part :: "string \<Rightarrow> string \<Rightarrow> string" where
  "meta_part key value =
     ''meta.'' @ show_nat (byteLength key) @ '':'' @ key @ '':'' @
     show_nat (byteLength value) @ '':'' @ value"

definition canonicalAuditForm :: "'a AuditEventInput_scheme \<Rightarrow> string" where
  "canonicalAuditForm e =
     HASH_DOMAIN @ newline @
     join newline
       (map (\<lambda>key. scalar_part key (the (map_of (scalars e) key))) (sort (map fst (scalars e))) @
        map (\<lambda>key. meta_part key (the (map_of (ae_metadata e) key)))
          (sort (map fst (ae_metadata e))))"

definition computeAuditHash ::
    "(bytes \<Rightarrow> bytes) \<Rightarrow> 'a AuditEventInput_scheme \<Rightarrow> bytes \<Rightarrow> string + bytes" where
  "computeAuditHash sha event prevHash =
     (if length prevHash \<noteq> AUDIT_HASH_BYTES
      then Inl (''prevHash must be exactly '' @ show_nat AUDIT_HASH_BYTES @ '' bytes, got '' @
                show_nat (length prevHash) @
                ''. Use GENESIS_HASH for the first event in a chain.'')
      else Inr (sha (prevHash @ utf8 (canonicalAuditForm event))))"

section \<open>Stored events and the verifier\<close>

record StoredAuditEvent = AuditEventInput +
  se_seq :: nat
  se_prevHash :: bytes
  se_hash :: bytes

record ChainBreak =
  cb_seq :: nat
  cb_reason :: string
  cb_expected :: "string option"
  cb_actual :: "string option"

definition hex_digit :: "nat \<Rightarrow> char" where
  "hex_digit d = (if d < 10 then unit_char (48 + d) else unit_char (87 + d))"

definition toHex :: "bytes \<Rightarrow> string" where
  "toHex bs = concat (map (\<lambda>b. [hex_digit (unat b div 16), hex_digit (unat b mod 16)]) bs)"

definition reason_genesis :: string where
  "reason_genesis =
     ''first event does not start from the genesis hash, so earlier events were removed''"

definition reason_link :: string where
  "reason_link =
     ''prev_hash does not match the previous event's hash, so an event was removed or reordered''"

definition reason_altered :: string where
  "reason_altered =
     ''stored hash does not match the event's contents, so a field was altered''"

fun verifyAuditChain ::
    "(bytes \<Rightarrow> bytes) \<Rightarrow> 'a StoredAuditEvent_scheme list \<Rightarrow> bytes \<Rightarrow> string + ChainBreak option" where
  "verifyAuditChain sha [] expectedPrev = Inr None"
| "verifyAuditChain sha (event # events) expectedPrev =
     (if se_prevHash event \<noteq> expectedPrev then
        Inr (Some \<lparr>cb_seq = se_seq event,
                   cb_reason = (if expectedPrev = GENESIS_HASH then reason_genesis
                                else reason_link),
                   cb_expected = Some (toHex expectedPrev),
                   cb_actual = Some (toHex (se_prevHash event))\<rparr>)
      else
        (case computeAuditHash sha event (se_prevHash event) of
           Inl err \<Rightarrow> Inl err
         | Inr recomputed \<Rightarrow>
             if recomputed \<noteq> se_hash event then
               Inr (Some \<lparr>cb_seq = se_seq event, cb_reason = reason_altered,
                          cb_expected = Some (toHex recomputed),
                          cb_actual = Some (toHex (se_hash event))\<rparr>)
             else verifyAuditChain sha events (se_hash event)))"

section \<open>The canonical form depends on content only, and determines it\<close>

text \<open>Two events carry the same evidence when every scalar field agrees and the metadata
  objects have the same properties, in whatever order they were assigned.\<close>

definition same_evidence ::
    "'a AuditEventInput_scheme \<Rightarrow> 'b AuditEventInput_scheme \<Rightarrow> bool" where
  "same_evidence e e' \<longleftrightarrow>
     ae_action e = ae_action e' \<and> ae_actorType e = ae_actorType e' \<and>
     ae_actorId e = ae_actorId e' \<and> ae_resourceType e = ae_resourceType e' \<and>
     ae_resourceId e = ae_resourceId e' \<and> ae_traceId e = ae_traceId e' \<and>
     ae_sourceIp e = ae_sourceIp e' \<and> ae_occurredAt e = ae_occurredAt e' \<and>
     map_of (ae_metadata e) = map_of (ae_metadata e')"

definition wf_metadata :: "AuditMetadata \<Rightarrow> bool" where
  "wf_metadata md \<longleftrightarrow> distinct (map fst md)"

definition sorted_metadata :: "AuditMetadata \<Rightarrow> AuditMetadata" where
  "sorted_metadata md = map (\<lambda>k. (k, the (map_of md k))) (sort (map fst md))"

lemma sort_scalar_keys:
  "sort (map fst (scalars e)) =
     [''action'', ''actorId'', ''actorType'', ''occurredAt'', ''resourceId'', ''resourceType'',
      ''sourceIp'', ''traceId'']"
proof -
  have "map fst (scalars e) =
      [''action'', ''actorType'', ''actorId'', ''occurredAt'', ''resourceId'', ''resourceType'',
       ''sourceIp'', ''traceId'']"
    by (simp add: scalars_def)
  moreover have "sort [''action'', ''actorType'', ''actorId'', ''occurredAt'', ''resourceId'',
       ''resourceType'', ''sourceIp'', ''traceId''] =
      [''action'', ''actorId'', ''actorType'', ''occurredAt'', ''resourceId'', ''resourceType'',
       ''sourceIp'', ''traceId'']"
    by code_simp
  ultimately show ?thesis by simp
qed

lemma join_append:
  "ws \<noteq> [] \<Longrightarrow> join sep (ws @ vs) = join sep ws @ concat (map (\<lambda>v. sep @ v) vs)"
proof (induction sep ws rule: join.induct)
  case (2 sep w)
  then show ?case by (induction vs arbitrary: w) auto
qed auto

lemma canonicalAuditForm_layout:
  "canonicalAuditForm e =
     HASH_DOMAIN @ newline @
     scalar_part ''action'' (Some (ae_action e)) @ newline @
     scalar_part ''actorId'' (ae_actorId e) @ newline @
     scalar_part ''actorType'' (Some (ae_actorType e)) @ newline @
     scalar_part ''occurredAt'' (Some (ae_occurredAt e)) @ newline @
     scalar_part ''resourceId'' (ae_resourceId e) @ newline @
     scalar_part ''resourceType'' (ae_resourceType e) @ newline @
     scalar_part ''sourceIp'' (ae_sourceIp e) @ newline @
     scalar_part ''traceId'' (ae_traceId e) @
     concat (map (\<lambda>(k, v). newline @ meta_part k v) (sorted_metadata (ae_metadata e)))"
  unfolding canonicalAuditForm_def sort_scalar_keys
  by (subst join_append) (simp_all add: scalars_def sorted_metadata_def o_def)

lemma scalar_part_cancel:
  assumes "scalar_part k v @ r = scalar_part k w @ q"
  shows "v = w \<and> r = q"
proof (cases v; cases w)
  fix x y
  assume v: "v = Some x" and w: "w = Some y"
  from assms have "show_nat (byteLength x) @ CHR '':'' # (x @ r) =
      show_nat (byteLength y) @ CHR '':'' # (y @ q)"
    by (simp add: scalar_part_def v w)
  then have "show_nat (byteLength x) = show_nat (byteLength y)" and eq: "x @ r = y @ q"
    by (auto dest!: split_at_first_sep)
  then have "x = y \<and> r = q" by (auto dest: byteLength_prefix_eq)
  with v w show ?thesis by simp
next
  have nd: "show_nat n @ u \<noteq> CHR ''n'' # t" for n u t
    using show_nat_digits [of "hd (show_nat n)" n]
    by (cases "show_nat n") (auto simp: is_digit_def code_unit_def)
  show ?thesis if "v = None" "w = Some y" for y
    using assms that nd [of "byteLength y"] by (auto simp: scalar_part_def dest: sym)
  show ?thesis if "v = Some x" "w = None" for x
    using assms that nd [of "byteLength x"] by (auto simp: scalar_part_def)
  show ?thesis if "v = None" "w = None"
    using assms that by (simp add: scalar_part_def)
qed

lemma meta_part_cancel:
  assumes "meta_part k v @ r = meta_part k' v' @ q"
  shows "k = k' \<and> v = v' \<and> r = q"
proof -
  let ?t = "\<lambda>v r. CHR '':'' # show_nat (byteLength v) @ CHR '':'' # (v @ r)"
  from assms have "show_nat (byteLength k) @ CHR '':'' # (k @ ?t v r) =
      show_nat (byteLength k') @ CHR '':'' # (k' @ ?t v' q)"
    by (simp add: meta_part_def)
  then have "show_nat (byteLength k) = show_nat (byteLength k')" and "k @ ?t v r = k' @ ?t v' q"
    by (auto dest!: split_at_first_sep)
  then have k: "k = k'" and "?t v r = ?t v' q" by (auto dest!: byteLength_prefix_eq)
  then have "show_nat (byteLength v) = show_nat (byteLength v')" and "v @ r = v' @ q"
    by (auto dest!: split_at_first_sep)
  with k show ?thesis by (auto dest: byteLength_prefix_eq)
qed

lemma meta_parts_inject:
  "concat (map (\<lambda>(k, v). newline @ meta_part k v) ms) =
   concat (map (\<lambda>(k, v). newline @ meta_part k v) ms') \<Longrightarrow> ms = ms'"
proof (induction ms arbitrary: ms')
  case Nil
  then show ?case by (cases ms') (auto simp: newline_def)
next
  case (Cons m ms)
  obtain k v where m: "m = (k, v)" by (cases m)
  from Cons.prems obtain k' v' ns where ms': "ms' = (k', v') # ns"
    using m by (cases ms') (auto simp: newline_def)
  from Cons.prems m ms' have "k = k' \<and> v = v' \<and>
      concat (map (\<lambda>(k, v). newline @ meta_part k v) ms) =
      concat (map (\<lambda>(k, v). newline @ meta_part k v) ns)"
    by (intro meta_part_cancel) simp
  with Cons.IH m ms' show ?case by auto
qed

lemma sorted_metadata_inject:
  assumes "sorted_metadata md = sorted_metadata md'"
  shows "map_of md = map_of md'"
proof -
  have keys: "sort (map fst md) = sort (map fst md')"
    using arg_cong [OF assms, of "map fst"] by (simp add: sorted_metadata_def o_def)
  then have dom: "set (map fst md) = set (map fst md')"
    by (metis set_sort)
  have "\<forall>k\<in>set (map fst md). the (map_of md k) = the (map_of md' k)"
    using assms unfolding sorted_metadata_def keys dom
    by (simp add: map_eq_conv)
  moreover have "map_of md k = Some (the (map_of md k))" "map_of md' k = Some (the (map_of md' k))"
    if "k \<in> set (map fst md)" for k
    using that dom by (auto simp: map_of_eq_None_iff simp flip: not_None_eq)
  moreover have "map_of md k = None" "map_of md' k = None" if "k \<notin> set (map fst md)" for k
    using that dom by (auto simp: map_of_eq_None_iff)
  ultimately show ?thesis by (intro ext) metis
qed

lemma sorted_metadata_cong:
  assumes "wf_metadata md" and "wf_metadata md'" and "map_of md = map_of md'"
  shows "sorted_metadata md = sorted_metadata md'"
proof -
  have "set (map fst md) = set (map fst md')"
    using assms(3) by (metis dom_map_of_conv_image_fst list.set_map)
  with assms(1,2) have "sort (map fst md) = sort (map fst md')"
    by (intro sorted_distinct_set_unique) (simp_all add: wf_metadata_def)
  with assms(3) show ?thesis by (simp add: sorted_metadata_def)
qed

lemma canonicalAuditForm_cong:
  assumes "same_evidence e e'" "wf_metadata (ae_metadata e)" "wf_metadata (ae_metadata e')"
  shows "canonicalAuditForm e = canonicalAuditForm e'"
  using assms sorted_metadata_cong [of "ae_metadata e" "ae_metadata e'"]
  by (simp add: canonicalAuditForm_layout same_evidence_def)

lemma canonicalAuditForm_same_evidence:
  assumes "canonicalAuditForm e = canonicalAuditForm e'"
  shows "same_evidence e e'"
  using assms unfolding canonicalAuditForm_layout same_evidence_def
  by (auto dest!: scalar_part_cancel meta_parts_inject dest: sorted_metadata_inject)

section \<open>What a verified chain is\<close>

definition hash_input :: "'a AuditEventInput_scheme \<Rightarrow> bytes \<Rightarrow> bytes" where
  "hash_input e prev = prev @ utf8 (canonicalAuditForm e)"

fun chain_ok :: "(bytes \<Rightarrow> bytes) \<Rightarrow> bytes \<Rightarrow> 'a StoredAuditEvent_scheme list \<Rightarrow> bool" where
  "chain_ok sha p [] \<longleftrightarrow> True"
| "chain_ok sha p (e # es) \<longleftrightarrow>
     se_prevHash e = p \<and> length p = AUDIT_HASH_BYTES \<and> se_hash e = sha (hash_input e p) \<and>
     chain_ok sha (se_hash e) es"

fun chain_head :: "bytes \<Rightarrow> 'a StoredAuditEvent_scheme list \<Rightarrow> bytes" where
  "chain_head p [] = p"
| "chain_head p (e # es) = chain_head (se_hash e) es"

definition chain_inputs :: "'a StoredAuditEvent_scheme list \<Rightarrow> bytes set" where
  "chain_inputs es = set (map (\<lambda>e. hash_input e (se_prevHash e)) es)"

lemma verifyAuditChain_None_iff:
  "verifyAuditChain sha es p = Inr None \<longleftrightarrow> chain_ok sha p es"
  by (induction es arbitrary: p) (auto simp: computeAuditHash_def hash_input_def)

lemma chain_ok_append [simp]:
  "chain_ok sha p (xs @ ys) \<longleftrightarrow> chain_ok sha p xs \<and> chain_ok sha (chain_head p xs) ys"
  by (induction xs arbitrary: p) auto

lemma chain_head_append [simp]: "chain_head p (xs @ ys) = chain_head (chain_head p xs) ys"
  by (induction xs arbitrary: p) auto

lemma chain_inputs_append [simp]: "chain_inputs (xs @ ys) = chain_inputs xs \<union> chain_inputs ys"
  by (auto simp: chain_inputs_def)

lemma length_GENESIS_HASH [simp]: "length GENESIS_HASH = AUDIT_HASH_BYTES"
  by (simp add: GENESIS_HASH_def)

lemma hash_input_inject:
  assumes "hash_input e p = hash_input e' p'"
    and "length p = AUDIT_HASH_BYTES" and "length p' = AUDIT_HASH_BYTES"
  shows "p = p' \<and> same_evidence e e'"
  using assms by (auto simp: hash_input_def intro: canonicalAuditForm_same_evidence)

text \<open>The interface a log with chained entries offers to the tools that walk it: a check
  relative to the hash the first entry must point at, and the head hash that check leaves.\<close>

locale chained_log =
  fixes ok :: "'h \<Rightarrow> 'e list \<Rightarrow> bool" and head :: "'h \<Rightarrow> 'e list \<Rightarrow> 'h"
  assumes ok_Nil: "ok h []"
    and ok_append: "ok h (xs @ ys) \<longleftrightarrow> ok h xs \<and> ok (head h xs) ys"
    and head_Nil: "head h [] = h"
    and head_append: "head h (xs @ ys) = head (head h xs) ys"
begin

lemma ok_take: "ok h xs \<Longrightarrow> ok h (take n xs)"
  by (metis append_take_drop_id ok_append)

lemma ok_pages: "ok h xs \<longleftrightarrow> ok h (take n xs) \<and> ok (head h (take n xs)) (drop n xs)"
  by (metis append_take_drop_id ok_append)

lemma head_pages: "head (head h (take n xs)) (drop n xs) = head h xs"
  by (metis append_take_drop_id head_append)

end

interpretation audit_log: chained_log "chain_ok sha" chain_head for sha
  by unfold_locales simp_all

text \<open>The verifier reports a break or accepts; it never throws, because every hash it
  compares against is a SHA-256 output or the genesis value.\<close>

lemma verifyAuditChain_no_throw:
  assumes "\<And>x. length (sha x) = AUDIT_HASH_BYTES" and "length p = AUDIT_HASH_BYTES"
  shows "\<exists>b. verifyAuditChain sha es p = Inr b"
  using assms(2)
proof (induction es arbitrary: p)
  case Nil
  then show ?case by simp
next
  case (Cons e es)
  have "length (se_hash e) = AUDIT_HASH_BYTES" if "sha (p @ utf8 (canonicalAuditForm e)) = se_hash e"
    using assms(1) that by metis
  with Cons show ?case by (auto simp: computeAuditHash_def)
qed

lemma verifyAuditChain_break_at:
  assumes "verifyAuditChain sha es p = Inr (Some b)"
  shows "\<exists>xs e ys. es = xs @ e # ys \<and> chain_ok sha p xs \<and> se_seq e = cb_seq b \<and>
           \<not> chain_ok sha (chain_head p xs) [e]"
  using assms
proof (induction es arbitrary: p)
  case Nil
  then show ?case by simp
next
  case (Cons e es)
  show ?case
  proof (cases "chain_ok sha p [e]")
    case True
    with Cons.prems have "verifyAuditChain sha es (se_hash e) = Inr (Some b)"
      by (auto simp: computeAuditHash_def hash_input_def)
    from Cons.IH [OF this] obtain xs e' ys where
      "es = xs @ e' # ys" "chain_ok sha (se_hash e) xs" "se_seq e' = cb_seq b"
      "\<not> chain_ok sha (chain_head (se_hash e) xs) [e']"
      by blast
    with True show ?thesis by (intro exI [of _ "e # xs"]) auto
  next
    case False
    with Cons.prems show ?thesis
      by (intro exI [of _ "[]"])
        (auto simp: computeAuditHash_def hash_input_def split: if_splits)
  qed
qed

section \<open>Tamper evidence\<close>

definition sha_collision :: "(bytes \<Rightarrow> bytes) \<Rightarrow> bytes set \<Rightarrow> bytes set \<Rightarrow> bool" where
  "sha_collision sha A B \<longleftrightarrow> (\<exists>x\<in>A. \<exists>y\<in>B. x \<noteq> y \<and> sha x = sha y)"

lemma same_head_agree:
  assumes "chain_ok sha GENESIS_HASH es" and "chain_ok sha GENESIS_HASH es'"
    and "chain_head GENESIS_HASH es = chain_head GENESIS_HASH es'"
  shows "list_all2 same_evidence es es' \<or> sha_collision sha (chain_inputs es) (chain_inputs es') \<or>
         GENESIS_HASH \<in> sha ` (chain_inputs es \<union> chain_inputs es')"
  using assms
proof (induction es arbitrary: es' rule: rev_induct)
  case Nil
  then show ?case
    by (cases es' rule: rev_cases) (auto simp: chain_inputs_def)
next
  case (snoc e es)
  show ?case
  proof (cases es' rule: rev_cases)
    case Nil
    with snoc.prems show ?thesis by (auto simp: chain_inputs_def)
  next
    case [simp]: (snoc es2 e')
    let ?p = "chain_head GENESIS_HASH es" and ?p' = "chain_head GENESIS_HASH es2"
    have hashes: "sha (hash_input e ?p) = sha (hash_input e' ?p')"
      and prevs: "se_prevHash e = ?p" "se_prevHash e' = ?p'"
      and lens: "length ?p = AUDIT_HASH_BYTES" "length ?p' = AUDIT_HASH_BYTES"
      using snoc.prems by auto
    show ?thesis
    proof (cases "hash_input e ?p = hash_input e' ?p'")
      case True
      then have "?p = ?p'" and same: "same_evidence e e'"
        using hash_input_inject lens by blast+
      with snoc.IH [of es2] snoc.prems
      have "list_all2 same_evidence es es2 \<or> sha_collision sha (chain_inputs es) (chain_inputs es2) \<or>
         GENESIS_HASH \<in> sha ` (chain_inputs es \<union> chain_inputs es2)"
        by auto
      with same show ?thesis
        by (auto simp: sha_collision_def list_all2_appendI)
    next
      case False
      with hashes have "sha_collision sha (chain_inputs (es @ [e])) (chain_inputs es')"
        unfolding sha_collision_def chain_inputs_def by (auto simp: prevs)
      then show ?thesis by simp
    qed
  qed
qed

section \<open>Properties of the hash chain\<close>

lemma verifyAuditChain_Some:
  assumes "verifyAuditChain sha es p = Inr (Some b)"
  shows "\<exists>xs e ys. es = xs @ e # ys \<and> chain_ok sha p xs \<and> cb_seq b = se_seq e \<and>
           (if se_prevHash e \<noteq> chain_head p xs
            then cb_reason b =
                   (if chain_head p xs = GENESIS_HASH then reason_genesis else reason_link)
            else cb_reason b = reason_altered \<and> sha (hash_input e (se_prevHash e)) \<noteq> se_hash e)"
  using assms
proof (induction es arbitrary: p)
  case Nil
  then show ?case by simp
next
  case (Cons e es)
  show ?case
  proof (cases "chain_ok sha p [e]")
    case True
    with Cons.prems have "verifyAuditChain sha es (se_hash e) = Inr (Some b)"
      by (auto simp: computeAuditHash_def hash_input_def)
    from Cons.IH [OF this] obtain xs e' ys where split: "es = xs @ e' # ys"
      and rest: "chain_ok sha (se_hash e) xs" "cb_seq b = se_seq e'"
        "if se_prevHash e' \<noteq> chain_head (se_hash e) xs
         then cb_reason b =
                (if chain_head (se_hash e) xs = GENESIS_HASH then reason_genesis else reason_link)
         else cb_reason b = reason_altered \<and> sha (hash_input e' (se_prevHash e')) \<noteq> se_hash e'"
      by blast
    have "chain_ok sha p (e # xs)" using True rest(1) by auto
    with split rest(2,3) show ?thesis
      by (intro exI [of _ "e # xs"], intro exI [of _ e'], intro exI [of _ ys])
        (simp only: append_Cons chain_head.simps simp_thms)
  next
    case False
    with Cons.prems show ?thesis
      by (intro exI [of _ "[]"], intro exI [of _ e], intro exI [of _ es])
        (auto simp: computeAuditHash_def hash_input_def split: if_splits)
  qed
qed

text \<open>A small concrete digest of the right width, for running the definitions.\<close>

definition sum_digest :: "bytes \<Rightarrow> bytes" where
  "sum_digest bs = replicate 31 1 @ [foldr (+) bs 0]"

definition sample_event :: "string \<Rightarrow> AuditMetadata \<Rightarrow> AuditEventInput" where
  "sample_event action md =
     \<lparr>ae_action = action, ae_actorType = ''user'', ae_actorId = Some ''u1'', ae_resourceType = None,
      ae_resourceId = None, ae_traceId = Some [], ae_sourceIp = None,
      ae_occurredAt = ''2026-01-01T00:00:00.000Z'', ae_metadata = md\<rparr>"

definition sample_stored :: "AuditEventInput \<Rightarrow> nat \<Rightarrow> bytes \<Rightarrow> StoredAuditEvent" where
  "sample_stored e n prev =
     AuditEventInput.extend e
       (StoredAuditEvent.fields n prev (sum_digest (prev @ utf8 (canonicalAuditForm e))))"

lemma length_sum_digest [simp]: "length (sum_digest bs) = AUDIT_HASH_BYTES"
  by (simp add: sum_digest_def AUDIT_HASH_BYTES_def)

lemma sample_stored_simps [simp]:
  "se_prevHash (sample_stored e n p) = p" "se_seq (sample_stored e n p) = n"
  "se_hash (sample_stored e n p) = sum_digest (hash_input e p)"
  "hash_input (sample_stored e n p) q = hash_input e q"
  "same_evidence (sample_stored e n p) (sample_stored e' n' p') \<longleftrightarrow> same_evidence e e'"
  by (simp_all add: sample_stored_def AuditEventInput.defs StoredAuditEvent.defs hash_input_def
      canonicalAuditForm_layout same_evidence_def)

lemma sum_digest_not_genesis [simp]: "sum_digest bs \<noteq> GENESIS_HASH" "GENESIS_HASH \<noteq> sum_digest bs"
  by (simp_all add: sum_digest_def GENESIS_HASH_def AUDIT_HASH_BYTES_def numeral_eq_Suc)

text \<open>C1: The canonical form of an audit event is injective and depends on content only: two
  events serialise to the same string exactly when every scalar field agrees (a null kept apart
  from an empty string) and their metadata objects have the same members, in whatever order
  those members were assigned.\<close>

theorem canonicalAuditForm_eq_iff:
  assumes "wf_metadata (ae_metadata e)" and "wf_metadata (ae_metadata e')"
  shows "canonicalAuditForm e = canonicalAuditForm e' \<longleftrightarrow> same_evidence e e'"
  using assms canonicalAuditForm_cong canonicalAuditForm_same_evidence by blast

theorem canonicalAuditForm_eq_iff_witness:
  "canonicalAuditForm (sample_event ''a'' [(''x'', ''1''), (''w'', ''2'')]) =
     canonicalAuditForm (sample_event ''a'' [(''w'', ''2''), (''x'', ''1'')]) \<and>
   canonicalAuditForm (sample_event ''a'' [(''x'', ''1'')]) \<noteq>
     canonicalAuditForm (sample_event ''a'' [(''x'', ''1'' @ newline @ ''meta.1:w:1:2'')])"
  using canonicalAuditForm_eq_iff [of "sample_event ''a'' [(''x'', ''1''), (''w'', ''2'')]"
      "sample_event ''a'' [(''w'', ''2''), (''x'', ''1'')]"]
    canonicalAuditForm_eq_iff [of "sample_event ''a'' [(''x'', ''1'')]"
      "sample_event ''a'' [(''x'', ''1'' @ newline @ ''meta.1:w:1:2'')]"]
  by (auto simp: sample_event_def wf_metadata_def same_evidence_def newline_def fun_eq_iff)

text \<open>C3: With a 32-byte digest the verifier never throws: it either accepts a chain whose
  every link and every content hash is right, or reports the first event that fails, all earlier
  ones being intact, with the reason that names the failure: a wrong first link, a wrong later
  link, or contents that do not match the stored hash.\<close>

theorem verifyAuditChain_first_break:
  assumes "\<And>x. length (sha x) = AUDIT_HASH_BYTES" and "length p = AUDIT_HASH_BYTES"
  shows "\<exists>r. verifyAuditChain sha es p = Inr r \<and>
     (case r of
        None \<Rightarrow> chain_ok sha p es
      | Some b \<Rightarrow>
          \<exists>xs e ys. es = xs @ e # ys \<and> chain_ok sha p xs \<and> cb_seq b = se_seq e \<and>
            (if se_prevHash e \<noteq> chain_head p xs
             then cb_reason b =
                    (if chain_head p xs = GENESIS_HASH then reason_genesis else reason_link)
             else cb_reason b = reason_altered \<and>
                  sha (hash_input e (se_prevHash e)) \<noteq> se_hash e))"
proof -
  obtain r where r: "verifyAuditChain sha es p = Inr r"
    using verifyAuditChain_no_throw [of sha] assms by blast
  then show ?thesis
    using verifyAuditChain_Some [of sha es p] verifyAuditChain_None_iff [of sha es p]
    by (cases r) simp_all
qed

theorem verifyAuditChain_first_break_witness:
  "\<exists>r. verifyAuditChain sum_digest [sample_stored (sample_event ''a'' []) 1 [7, 7]] GENESIS_HASH = Inr r"
  using verifyAuditChain_first_break [of sum_digest GENESIS_HASH
      "[sample_stored (sample_event ''a'' []) 1 [7, 7]]"]
  by auto

text \<open>C2: Tamper evidence: two chains that both verify from the genesis hash and end in the
  same head hash record the same events in the same order, unless the digest collides on two of
  the hashed inputs or maps one of them to the genesis value. A head hash kept elsewhere therefore
  pins the whole history.\<close>

theorem verifyAuditChain_head_pins_history:
  assumes "verifyAuditChain sha es GENESIS_HASH = Inr None"
    and "verifyAuditChain sha es' GENESIS_HASH = Inr None"
    and "chain_head GENESIS_HASH es = chain_head GENESIS_HASH es'"
    and "\<not> sha_collision sha (chain_inputs es) (chain_inputs es')"
    and "GENESIS_HASH \<notin> sha ` (chain_inputs es \<union> chain_inputs es')"
  shows "list_all2 same_evidence es es'"
  using assms same_head_agree [of sha es es'] by (simp add: verifyAuditChain_None_iff)

theorem verifyAuditChain_head_pins_history_witness:
  "list_all2 same_evidence
     [sample_stored (sample_event ''a'' [(''x'', ''1''), (''w'', ''2'')]) 1 GENESIS_HASH]
     [sample_stored (sample_event ''a'' [(''w'', ''2''), (''x'', ''1'')]) 4 GENESIS_HASH]"
proof -
  let ?e = "sample_event ''a'' [(''x'', ''1''), (''w'', ''2'')]"
    and ?e' = "sample_event ''a'' [(''w'', ''2''), (''x'', ''1'')]"
  have "same_evidence ?e ?e'"
    by (simp add: sample_event_def same_evidence_def fun_eq_iff)
  then have "canonicalAuditForm ?e = canonicalAuditForm ?e'"
    by (intro canonicalAuditForm_cong) (simp_all add: sample_event_def wf_metadata_def)
  then have "hash_input ?e GENESIS_HASH = hash_input ?e' GENESIS_HASH"
    by (simp add: hash_input_def)
  then show ?thesis
    by (intro verifyAuditChain_head_pins_history [of sum_digest])
      (simp_all add: verifyAuditChain_None_iff chain_inputs_def sha_collision_def
        del: verifyAuditChain.simps)
qed

end
