(* ===== verification/Audit_Chain.thy ===== *)
theory Audit_Chain
  imports Audit_Hash "HOL-Library.Sublist"
begin

text \<open>
  The audit log as a table: the constraints of \<open>audit_events\<close>
  (\<open>packages/db/sql/audit-immutability.sql\<close> and the unique indexes of the Prisma schema), the
  appending transaction \<open>packages/db/src/audit/audit-writer.ts\<close>, the paged verifier
  \<open>packages/db/src/audit/verify-chain.ts\<close> and the fail-open
  \<open>services/auth/src/audit/audit.service.ts\<close>.
  Strings that Postgres \<open>text\<close> cannot hold (U+0000) are outside the model.
\<close>

section \<open>The table and its constraints\<close>

datatype AuditActorType = at_user | at_control_plane | at_system | at_anonymous

fun actorTypeName :: "AuditActorType \<Rightarrow> string" where
  "actorTypeName at_user = ''user''"
| "actorTypeName at_control_plane = ''control_plane''"
| "actorTypeName at_system = ''system''"
| "actorTypeName at_anonymous = ''anonymous''"

record AuditTable =
  tb_rows :: "StoredAuditEvent list"
  tb_sequence :: nat
  tb_reachable :: bool

definition empty_audit_table :: AuditTable where
  "empty_audit_table = \<lparr>tb_rows = [], tb_sequence = 0, tb_reachable = True\<rparr>"

datatype db_error = UniqueViolation string | CheckViolation string | ConnectionError | QueryError string

text \<open>\<open>jsonb\<close> returns an object's members ordered by key length, then by bytes.\<close>

definition jsonb_object :: "AuditMetadata \<Rightarrow> AuditMetadata" where
  "jsonb_object md = sort_key (\<lambda>kv. length (fst kv)) (sort_key fst md)"

definition audit_events_hash_width_ck :: "StoredAuditEvent \<Rightarrow> bool" where
  "audit_events_hash_width_ck r \<longleftrightarrow> length (se_prevHash r) = 32 \<and> length (se_hash r) = 32"

definition audit_events_actor_ck :: "'a AuditEventInput_scheme \<Rightarrow> bool" where
  "audit_events_actor_ck r \<longleftrightarrow>
     ae_actorType r = ''user'' \<and> ae_actorId r \<noteq> None \<or>
     ae_actorType r \<in> {''control_plane'', ''anonymous''} \<and> ae_actorId r = None \<or>
     ae_actorType r = ''system''"

definition audit_events_action_ck :: "'a AuditEventInput_scheme \<Rightarrow> bool" where
  "audit_events_action_ck r \<longleftrightarrow> ae_action r \<noteq> []"

text \<open>\<open>INSERT ... RETURNING seq\<close> against the committed rows: the sequence advances whether or
  not the row is accepted.\<close>

definition check_audit_row :: "StoredAuditEvent list \<Rightarrow> StoredAuditEvent \<Rightarrow> db_error option" where
  "check_audit_row rows r =
     (if \<not> audit_events_hash_width_ck r then Some (CheckViolation ''audit_events_hash_width_ck'')
      else if \<not> audit_events_actor_ck r then Some (CheckViolation ''audit_events_actor_ck'')
      else if \<not> audit_events_action_ck r then Some (CheckViolation ''audit_events_action_ck'')
      else if se_prevHash r \<in> set (map se_prevHash rows)
        then Some (UniqueViolation ''audit_events_prev_hash_unique'')
      else if se_hash r \<in> set (map se_hash rows)
        then Some (UniqueViolation ''audit_events_hash_unique'')
      else None)"

section \<open>The writer\<close>

definition AUDIT_CHAIN_LOCK_KEY :: int where
  "AUDIT_CHAIN_LOCK_KEY = 0x6372626b41554454"

record AppendAuditEvent =
  ap_action :: string
  ap_actorType :: AuditActorType
  ap_actorId :: "string option"
  ap_resourceType :: "string option"
  ap_resourceId :: "string option"
  ap_traceId :: "string option"
  ap_sourceIp :: "string option"
  ap_metadata :: AuditMetadata

definition append_event :: "string \<Rightarrow> AuditActorType \<Rightarrow> AppendAuditEvent" where
  "append_event action actorType =
     \<lparr>ap_action = action, ap_actorType = actorType, ap_actorId = None, ap_resourceType = None,
      ap_resourceId = None, ap_traceId = None, ap_sourceIp = None, ap_metadata = []\<rparr>"

record AppendedAuditEvent =
  aa_seq :: nat
  aa_occurredAt :: string
  aa_hash :: bytes
  aa_prevHash :: bytes

text \<open>\<open>SELECT hash FROM audit_events ORDER BY seq DESC LIMIT 1\<close>, with the genesis value for an
  empty table.\<close>

definition head_hash :: "StoredAuditEvent list \<Rightarrow> bytes" where
  "head_hash rows =
     (case rev (sort_key se_seq rows) of [] \<Rightarrow> GENESIS_HASH | r # _ \<Rightarrow> se_hash r)"

definition audit_input :: "AppendAuditEvent \<Rightarrow> string \<Rightarrow> AuditEventInput" where
  "audit_input event now =
     \<lparr>ae_action = ap_action event, ae_actorType = actorTypeName (ap_actorType event),
      ae_actorId = ap_actorId event, ae_resourceType = ap_resourceType event,
      ae_resourceId = ap_resourceId event, ae_traceId = ap_traceId event,
      ae_sourceIp = ap_sourceIp event, ae_occurredAt = now, ae_metadata = ap_metadata event\<rparr>"

definition stored_row :: "AuditEventInput \<Rightarrow> nat \<Rightarrow> bytes \<Rightarrow> bytes \<Rightarrow> StoredAuditEvent" where
  "stored_row i seq prevHash hash =
     AuditEventInput.extend (i\<lparr>ae_metadata := jsonb_object (ae_metadata i)\<rparr>)
       (StoredAuditEvent.fields seq prevHash hash)"

definition appendAuditEvent ::
    "(bytes \<Rightarrow> bytes) \<Rightarrow> string \<Rightarrow> AppendAuditEvent \<Rightarrow> AuditTable \<Rightarrow>
     (db_error + AppendedAuditEvent) \<times> AuditTable" where
  "appendAuditEvent sha now event t =
     (if \<not> tb_reachable t then (Inl ConnectionError, t)
      else
        let prevHash = head_hash (tb_rows t);
            input = audit_input event now
        in case computeAuditHash sha input prevHash of
             Inl err \<Rightarrow> (Inl (QueryError err), t)
           | Inr hash \<Rightarrow>
               let seq = Suc (tb_sequence t);
                   row = stored_row input seq prevHash hash;
                   t' = t\<lparr>tb_sequence := seq\<rparr>
               in case check_audit_row (tb_rows t) row of
                    Some e \<Rightarrow> (Inl e, t')
                  | None \<Rightarrow>
                      (Inr \<lparr>aa_seq = seq, aa_occurredAt = now, aa_hash = hash,
                            aa_prevHash = prevHash\<rparr>,
                       t'\<lparr>tb_rows := tb_rows t @ [row]\<rparr>))"

section \<open>Recording events without failing the request\<close>

datatype audit_log_line =
    AppendFailed string AppendAuditEvent db_error
  | NoTenantContext AppendAuditEvent

definition audit_append ::
    "(bytes \<Rightarrow> bytes) \<Rightarrow> string \<Rightarrow> AuditTable \<Rightarrow> AppendAuditEvent \<Rightarrow> string \<Rightarrow>
     AuditTable \<times> audit_log_line list" where
  "audit_append sha now client event whereabouts =
     (case appendAuditEvent sha now event client of
        (Inr _, t) \<Rightarrow> (t, [])
      | (Inl err, t) \<Rightarrow> (t, [AppendFailed whereabouts event err]))"

text \<open>\<open>tenantEvent\<close> reads the request's tenant context; a request without one has no chain to
  append to.\<close>

definition tenantEvent ::
    "(bytes \<Rightarrow> bytes) \<Rightarrow> string \<Rightarrow> (Tenant \<times> AuditTable) option \<Rightarrow> AppendAuditEvent \<Rightarrow>
     (Tenant \<times> AuditTable) option \<times> audit_log_line list" where
  "tenantEvent sha now ctx event =
     (case ctx of
        None \<Rightarrow> (None, [NoTenantContext event])
      | Some (tenant, t) \<Rightarrow>
          (case audit_append sha now t event (''tenant '' @ tn_slug tenant) of
             (t', log) \<Rightarrow> (Some (tenant, t'), log)))"

definition controlPlaneEvent ::
    "(bytes \<Rightarrow> bytes) \<Rightarrow> string \<Rightarrow> AuditTable \<Rightarrow> AppendAuditEvent \<Rightarrow>
     AuditTable \<times> audit_log_line list" where
  "controlPlaneEvent sha now master event = audit_append sha now master event ''master''"

section \<open>The paged verifier\<close>

definition readPage :: "StoredAuditEvent list \<Rightarrow> nat \<Rightarrow> nat \<Rightarrow> StoredAuditEvent list" where
  "readPage rows afterSeq limit =
     take limit (sort_key se_seq (filter (\<lambda>r. afterSeq < se_seq r) rows))"

datatype VerifyOutcome =
    Broken ChainBreak nat
  | Empty
  | Intact nat "bytes option"
  | VerifyThrew string

fun findIndex :: "('a \<Rightarrow> bool) \<Rightarrow> 'a list \<Rightarrow> nat option" where
  "findIndex P [] = None"
| "findIndex P (x # xs) = (if P x then Some 0 else map_option Suc (findIndex P xs))"

lemma sort_key_readPage_last:
  assumes "readPage rows a n \<noteq> []"
  shows "last (readPage rows a n) \<in> set rows \<and> a < se_seq (last (readPage rows a n))"
proof -
  have "last (readPage rows a n) \<in> set (readPage rows a n)" using assms by simp
  then show ?thesis
    unfolding readPage_def by (auto dest!: in_set_takeD)
qed

lemma filter_above_shrinks:
  fixes f :: "'a \<Rightarrow> nat"
  assumes "x \<in> set xs" and "a < f x"
  shows "length (filter (\<lambda>r. f x < f r) xs) < length (filter (\<lambda>r. a < f r) xs)"
proof -
  have "filter (\<lambda>r. f x < f r) xs = filter (\<lambda>r. f x < f r) (filter (\<lambda>r. a < f r) xs)"
    using assms(2) by (auto intro!: filter_cong)
  also have "length \<dots> < length (filter (\<lambda>r. a < f r) xs)"
    using assms by (intro length_filter_less [of x]) auto
  finally show ?thesis .
qed

function verify_pages ::
    "(bytes \<Rightarrow> bytes) \<Rightarrow> StoredAuditEvent list \<Rightarrow> nat \<Rightarrow> nat \<Rightarrow> bytes \<Rightarrow> nat \<Rightarrow> bytes option \<Rightarrow>
     VerifyOutcome" where
  "verify_pages sha rows pageSize afterSeq expectedPrev verified headHash =
     (let events = readPage rows afterSeq pageSize in
      if events = [] then (if verified = 0 then Empty else Intact verified headHash)
      else
        (case verifyAuditChain sha events expectedPrev of
           Inl err \<Rightarrow> VerifyThrew err
         | Inr (Some broken) \<Rightarrow>
             Broken broken
               (verified + (case findIndex (\<lambda>e. se_seq e = cb_seq broken) events of
                           None \<Rightarrow> 0 | Some i \<Rightarrow> i))
         | Inr None \<Rightarrow>
             verify_pages sha rows pageSize (se_seq (last events)) (se_hash (last events))
               (verified + length events) (Some (se_hash (last events)))))"
  by pat_completeness auto
termination
proof (relation "measure (\<lambda>(sha, rows, n, a, p, t, h). length (filter (\<lambda>r. a < se_seq r) rows))",
    goal_cases)
  case 1
  show ?case by simp
next
  case (2 sha rows n a p t h events)
  then have "last events \<in> set rows \<and> a < se_seq (last events)"
    using sort_key_readPage_last [of rows a n] by simp
  then show ?case by (auto intro: filter_above_shrinks)
qed

declare verify_pages.simps [simp del]

definition verifyChain :: "(bytes \<Rightarrow> bytes) \<Rightarrow> StoredAuditEvent list \<Rightarrow> nat \<Rightarrow> VerifyOutcome" where
  "verifyChain sha rows pageSize = verify_pages sha rows pageSize 0 GENESIS_HASH 0 None"

section \<open>Facts about rows and pages\<close>

lemma stored_row_simps [simp]:
  "se_seq (stored_row i n p h) = n"
  "se_prevHash (stored_row i n p h) = p"
  "se_hash (stored_row i n p h) = h"
  "ae_action (stored_row i n p h) = ae_action i"
  "ae_actorType (stored_row i n p h) = ae_actorType i"
  "ae_actorId (stored_row i n p h) = ae_actorId i"
  "ae_resourceType (stored_row i n p h) = ae_resourceType i"
  "ae_resourceId (stored_row i n p h) = ae_resourceId i"
  "ae_traceId (stored_row i n p h) = ae_traceId i"
  "ae_sourceIp (stored_row i n p h) = ae_sourceIp i"
  "ae_occurredAt (stored_row i n p h) = ae_occurredAt i"
  "ae_metadata (stored_row i n p h) = jsonb_object (ae_metadata i)"
  by (simp_all add: stored_row_def AuditEventInput.defs StoredAuditEvent.defs)

lemma jsonb_object_wf [simp]: "wf_metadata (jsonb_object md) \<longleftrightarrow> wf_metadata md"
  by (simp add: wf_metadata_def jsonb_object_def distinct_map)

lemma jsonb_object_map_of [simp]: "wf_metadata md \<Longrightarrow> map_of (jsonb_object md) = map_of md"
  using jsonb_object_wf [of md]
  by (intro map_of_inject_set [THEN iffD2]) (simp_all add: wf_metadata_def jsonb_object_def)

lemma stored_row_evidence: "wf_metadata (ae_metadata i) \<Longrightarrow> same_evidence i (stored_row i n p h)"
  by (simp add: same_evidence_def)

lemma canonicalAuditForm_stored_row:
  assumes "wf_metadata (ae_metadata i)"
  shows "canonicalAuditForm (stored_row i n p h) = canonicalAuditForm i"
  using canonicalAuditForm_cong [OF stored_row_evidence [OF assms]] assms by simp

definition seqs_ok :: "StoredAuditEvent list \<Rightarrow> nat \<Rightarrow> bool" where
  "seqs_ok rows n \<longleftrightarrow>
     sorted_wrt (<) (map se_seq rows) \<and> (\<forall>r\<in>set rows. 1 \<le> se_seq r \<and> se_seq r \<le> n)"

definition table_ok :: "(bytes \<Rightarrow> bytes) \<Rightarrow> AuditTable \<Rightarrow> bool" where
  "table_ok sha t \<longleftrightarrow>
     chain_ok sha GENESIS_HASH (tb_rows t) \<and> seqs_ok (tb_rows t) (tb_sequence t) \<and>
     distinct (map se_hash (tb_rows t))"

lemma empty_audit_table_ok [simp]: "table_ok sha empty_audit_table"
  by (simp add: table_ok_def empty_audit_table_def seqs_ok_def)

lemma seqs_ok_sort: "seqs_ok rows n \<Longrightarrow> sort_key se_seq rows = rows"
  by (simp add: seqs_ok_def sort_key_id_if_sorted strict_sorted_imp_sorted)

lemma head_hash_chain_head:
  assumes "sort_key se_seq rows = rows"
  shows "head_hash rows = chain_head GENESIS_HASH rows"
  using assms unfolding head_hash_def
  by (cases rows rule: rev_cases) simp_all

lemma seqs_ok_snoc [simp]:
  "seqs_ok rows n \<Longrightarrow> seqs_ok (rows @ [stored_row i (Suc n) p h]) (Suc n)"
  by (fastforce simp: seqs_ok_def sorted_wrt_append)

lemma seqs_ok_Suc [simp]: "seqs_ok rows n \<Longrightarrow> seqs_ok rows (Suc n)"
  by (fastforce simp: seqs_ok_def)

lemma chain_ok_head_width:
  "chain_ok sha p es \<Longrightarrow> (\<And>x. length (sha x) = AUDIT_HASH_BYTES) \<Longrightarrow> length p = AUDIT_HASH_BYTES \<Longrightarrow>
   length (chain_head p es) = AUDIT_HASH_BYTES"
  by (induction es arbitrary: p) auto

lemma appendAuditEvent_table_ok:
  assumes "table_ok sha t" and "wf_metadata (ap_metadata event)"
    and "appendAuditEvent sha now event t = (r, t')"
  shows "table_ok sha t'"
proof -
  have s: "sort_key se_seq (tb_rows t) = tb_rows t"
    using assms(1) seqs_ok_sort by (auto simp: table_ok_def)
  have wf: "wf_metadata (ae_metadata (audit_input event now))"
    using assms(2) by (simp add: audit_input_def)
  show ?thesis
    using assms(1,3)
    by (auto simp: appendAuditEvent_def table_ok_def Let_def head_hash_chain_head [OF s]
        computeAuditHash_def hash_input_def canonicalAuditForm_stored_row [OF wf]
        check_audit_row_def split: if_splits sum.splits option.splits)
qed

lemma appendAuditEvent_appends:
  assumes "appendAuditEvent sha now event t = (Inr a, t')"
  shows "tb_rows t' = tb_rows t @
    [stored_row (audit_input event now) (aa_seq a) (aa_prevHash a) (aa_hash a)]"
    and "aa_prevHash a = head_hash (tb_rows t)" and "aa_seq a = Suc (tb_sequence t)"
    and "tb_sequence t' = aa_seq a" and "tb_reachable t'"
  using assms
  by (auto simp: appendAuditEvent_def Let_def split: if_splits sum.splits option.splits)

lemma appendAuditEvent_fails:
  assumes "appendAuditEvent sha now event t = (Inl e, t')"
  shows "tb_rows t' = tb_rows t"
  using assms
  by (auto simp: appendAuditEvent_def Let_def split: if_splits sum.splits option.splits)

subsection \<open>Pages\<close>

lemma verifyAuditChain_append:
  "verifyAuditChain sha (xs @ ys) p =
     (case verifyAuditChain sha xs p of
        Inr None \<Rightarrow> verifyAuditChain sha ys (chain_head p xs)
      | r \<Rightarrow> r)"
  by (induction xs arbitrary: p) (auto split: sum.splits option.splits)

lemma readPage_split:
  assumes "seqs_ok (xs @ ys) n" and "\<And>r. r \<in> set xs \<Longrightarrow> se_seq r \<le> a"
    and "\<And>r. r \<in> set ys \<Longrightarrow> a < se_seq r"
  shows "readPage (xs @ ys) a k = take k ys"
proof -
  have "filter (\<lambda>r. a < se_seq r) (xs @ ys) = ys"
    using assms(2,3) by (auto simp: filter_empty_conv not_less intro!: filter_True)
  moreover have "seqs_ok ys n" using assms(1) by (auto simp: seqs_ok_def sorted_wrt_append)
  ultimately show ?thesis by (simp add: readPage_def seqs_ok_sort)
qed

lemma findIndex_append:
  "findIndex P (xs @ ys) =
     (case findIndex P xs of Some i \<Rightarrow> Some i | None \<Rightarrow> map_option (\<lambda>i. length xs + i) (findIndex P ys))"
proof (induction xs)
  case Nil
  show ?case by (cases "findIndex P ys") simp_all
next
  case (Cons x xs)
  then show ?case by (cases "findIndex P ys") (auto split: option.splits)
qed

lemma findIndex_None_iff: "findIndex P xs = None \<longleftrightarrow> (\<forall>x\<in>set xs. \<not> P x)"
  by (induction xs) auto

text \<open>The verdict on a whole chain, for comparison with the paged walk.\<close>

definition whole_verdict :: "(bytes \<Rightarrow> bytes) \<Rightarrow> StoredAuditEvent list \<Rightarrow> VerifyOutcome" where
  "whole_verdict sha rows =
     (case verifyAuditChain sha rows GENESIS_HASH of
        Inl err \<Rightarrow> VerifyThrew err
      | Inr (Some b) \<Rightarrow>
          Broken b (case findIndex (\<lambda>e. se_seq e = cb_seq b) rows of None \<Rightarrow> 0 | Some i \<Rightarrow> i)
      | Inr None \<Rightarrow>
          if rows = [] then Empty
          else Intact (length rows) (Some (chain_head GENESIS_HASH rows)))"

lemma verify_pages_step:
  assumes ok: "seqs_ok (xs @ ys) n" and ys: "ys \<noteq> []" and k: "0 < k"
    and a: "\<And>r. r \<in> set xs \<Longrightarrow> se_seq r \<le> a" "\<And>r. r \<in> set ys \<Longrightarrow> a < se_seq r"
  shows "verify_pages sha (xs @ ys) k a p m h =
     (case verifyAuditChain sha (take k ys) p of
        Inl err \<Rightarrow> VerifyThrew err
      | Inr (Some b) \<Rightarrow>
          Broken b (m + (case findIndex (\<lambda>e. se_seq e = cb_seq b) (take k ys) of
                           None \<Rightarrow> 0 | Some i \<Rightarrow> i))
      | Inr None \<Rightarrow>
          verify_pages sha (xs @ ys) k (se_seq (last (take k ys))) (se_hash (last (take k ys)))
            (m + length (take k ys)) (Some (se_hash (last (take k ys)))))"
  using ys k readPage_split [OF ok a, of k]
  by (subst verify_pages.simps) (simp add: Let_def)

lemma seqs_ok_bounds:
  assumes "seqs_ok (xs @ ys) n" and "r \<in> set xs" and "q \<in> set ys"
  shows "se_seq r < se_seq q"
  using assms by (auto simp: seqs_ok_def sorted_wrt_append)

lemma findIndex_in_page:
  assumes ok: "seqs_ok (xs @ zs @ ys) n" and "verifyAuditChain sha zs p = Inr (Some b)"
  shows "(case findIndex (\<lambda>e. se_seq e = cb_seq b) (xs @ zs @ ys) of None \<Rightarrow> 0 | Some i \<Rightarrow> i) =
    length xs + (case findIndex (\<lambda>e. se_seq e = cb_seq b) zs of None \<Rightarrow> 0 | Some i \<Rightarrow> i)"
proof -
  let ?P = "\<lambda>e. se_seq e = cb_seq b"
  from verifyAuditChain_break_at [OF assms(2)] obtain e where e: "e \<in> set zs" "?P e"
    by (metis in_set_conv_decomp)
  then have "findIndex ?P zs \<noteq> None" by (auto simp: findIndex_None_iff)
  moreover have "findIndex ?P xs = None"
    using e seqs_ok_bounds [OF ok] by (fastforce simp: findIndex_None_iff)
  ultimately show ?thesis by (auto simp: findIndex_append)
qed

lemma chain_head_last: "es \<noteq> [] \<Longrightarrow> chain_head p es = se_hash (last es)"
  by (induction es arbitrary: p) auto

lemma verify_pages_whole:
  assumes "seqs_ok (xs @ ys) n" and "0 < k" and "chain_ok sha GENESIS_HASH xs"
  shows "verify_pages sha (xs @ ys) k (if xs = [] then 0 else se_seq (last xs))
      (chain_head GENESIS_HASH xs) (length xs)
      (if xs = [] then None else Some (chain_head GENESIS_HASH xs)) = whole_verdict sha (xs @ ys)"
  using assms
proof (induction "length ys" arbitrary: xs ys rule: less_induct)
  case less
  let ?a = "if xs = [] then 0 else se_seq (last xs)"
  have above: "se_seq r \<le> ?a" if "r \<in> set xs" for r
    using that less.prems(1)
    by (cases xs rule: rev_cases) (auto simp: seqs_ok_def sorted_wrt_append)
  have below: "?a < se_seq r" if "r \<in> set ys" for r
    using that less.prems(1) seqs_ok_bounds [OF less.prems(1), of "last xs" r]
    by (auto simp: seqs_ok_def Suc_le_eq)
  have verdict: "verifyAuditChain sha (xs @ zs) GENESIS_HASH =
      verifyAuditChain sha zs (chain_head GENESIS_HASH xs)" for zs
    using less.prems(3) by (simp add: verifyAuditChain_append verifyAuditChain_None_iff [THEN iffD2])
  show ?case
  proof (cases "ys = []")
    case True
    with less.prems above show ?thesis
      using readPage_split [of xs "[]" n ?a k]
      by (subst verify_pages.simps)
        (auto simp: whole_verdict_def verifyAuditChain_None_iff [THEN iffD2])
  next
    case False
    let ?zs = "take k ys" and ?ys = "drop k ys"
    note step = verify_pages_step [OF less.prems(1) False less.prems(2) above below]
    have zs: "?zs \<noteq> []" using False less.prems(2) by simp
    have split: "xs @ ys = (xs @ ?zs) @ ?ys" by simp
    show ?thesis
    proof (cases "verifyAuditChain sha ?zs (chain_head GENESIS_HASH xs)")
      case (Inl err)
      then show ?thesis
        using verdict [of ys] verifyAuditChain_append [of sha ?zs ?ys "chain_head GENESIS_HASH xs"]
        by (simp add: step whole_verdict_def)
    next
      case (Inr r)
      show ?thesis
      proof (cases r)
        case None
        have "chain_ok sha GENESIS_HASH (xs @ ?zs)"
          using less.prems(3) Inr None by (simp add: verifyAuditChain_None_iff)
        moreover have "length ?ys < length ys" using False less.prems(2) by simp
        ultimately have "verify_pages sha (xs @ ys) k (se_seq (last ?zs)) (se_hash (last ?zs))
            (length xs + length ?zs) (Some (se_hash (last ?zs))) = whole_verdict sha (xs @ ys)"
          using less.hyps [of ?ys "xs @ ?zs"] less.prems(1,2) zs by (simp add: chain_head_last)
        with Inr None show ?thesis by (simp add: step)
      next
        case (Some b)
        then have "verifyAuditChain sha (xs @ ys) GENESIS_HASH = Inr (Some b)"
          using Inr verdict [of ys]
            verifyAuditChain_append [of sha ?zs ?ys "chain_head GENESIS_HASH xs"]
          by simp
        with Inr Some findIndex_in_page [of xs ?zs ?ys n sha "chain_head GENESIS_HASH xs" b]
          less.prems(1)
        show ?thesis by (simp add: step whole_verdict_def)
      qed
    qed
  qed
qed

subsection \<open>Appending and recording\<close>

lemma chain_prev_in_hashes:
  "chain_ok sha p es \<Longrightarrow> h \<in> set (map se_prevHash es) \<Longrightarrow> h \<in> insert p (set (map se_hash (butlast es)))"
  by (induction es arbitrary: p) auto

lemma chain_head_unused:
  assumes "chain_ok sha p es" and "distinct (map se_hash es)" and "p \<notin> set (map se_hash es)"
    and "es \<noteq> []"
  shows "chain_head p es \<notin> set (map se_prevHash es)"
proof
  assume "chain_head p es \<in> set (map se_prevHash es)"
  with assms(1,4) have "se_hash (last es) \<in> insert p (set (map se_hash (butlast es)))"
    using chain_prev_in_hashes chain_head_last by metis
  moreover obtain xs e where "es = xs @ [e]" using assms(4) by (cases es rule: rev_cases) auto
  ultimately show False using assms(2,3) by auto
qed

lemma check_audit_row_accepts:
  assumes t: "table_ok sha t" and wf: "wf_metadata (ap_metadata event)"
    and width: "\<And>x. length (sha x) = AUDIT_HASH_BYTES"
    and gen: "GENESIS_HASH \<notin> set (map se_hash (tb_rows t))"
    and fresh: "sha (hash_input (audit_input event now) (head_hash (tb_rows t)))
      \<notin> set (map se_hash (tb_rows t))"
    and cks: "audit_events_actor_ck (audit_input event now)" "audit_events_action_ck (audit_input event now)"
  shows "check_audit_row (tb_rows t)
     (stored_row (audit_input event now) n (head_hash (tb_rows t))
        (sha (hash_input (audit_input event now) (head_hash (tb_rows t))))) = None"
proof -
  have ok: "chain_ok sha GENESIS_HASH (tb_rows t)" and d: "distinct (map se_hash (tb_rows t))"
    and s: "sort_key se_seq (tb_rows t) = tb_rows t"
    using t seqs_ok_sort by (auto simp: table_ok_def)
  have "length (chain_head GENESIS_HASH (tb_rows t)) = 32"
    using chain_ok_head_width [OF ok width] by (simp add: AUDIT_HASH_BYTES_def)
  moreover have "chain_head GENESIS_HASH (tb_rows t) \<notin> set (map se_prevHash (tb_rows t))"
    using chain_head_unused [OF ok d gen] by (cases "tb_rows t") auto
  ultimately show ?thesis
    using fresh cks width
    by (auto simp: head_hash_chain_head [OF s] check_audit_row_def audit_events_hash_width_ck_def
        audit_events_actor_ck_def audit_events_action_ck_def AUDIT_HASH_BYTES_def)
qed

lemma computeAuditHash_ok:
  "length p = AUDIT_HASH_BYTES \<Longrightarrow> computeAuditHash sha e p = Inr (sha (hash_input e p))"
  by (simp add: computeAuditHash_def hash_input_def)

lemma head_hash_width:
  assumes "table_ok sha t" and "\<And>x. length (sha x) = AUDIT_HASH_BYTES"
  shows "length (head_hash (tb_rows t)) = AUDIT_HASH_BYTES"
  using assms chain_ok_head_width [of sha GENESIS_HASH "tb_rows t"] seqs_ok_sort head_hash_chain_head
  by (metis length_GENESIS_HASH table_ok_def)

lemma verifyChain_whole:
  assumes "seqs_ok rows n" and "0 < pageSize"
  shows "verifyChain sha rows pageSize = whole_verdict sha rows"
  using verify_pages_whole [of "[]" rows n pageSize sha] assms by (simp add: verifyChain_def)

lemma verifyChain_table_ok:
  assumes "table_ok sha t" and "tb_rows t \<noteq> []" and "0 < pageSize"
  shows "verifyChain sha (tb_rows t) pageSize =
    Intact (length (tb_rows t)) (Some (se_hash (last (tb_rows t))))"
  using assms verifyChain_whole [of "tb_rows t" "tb_sequence t" pageSize sha]
  by (simp add: table_ok_def whole_verdict_def verifyAuditChain_None_iff [THEN iffD2] chain_head_last)

text \<open>A table grows: soundness is kept, and the rows that were there are still there, first and unchanged.\<close>

definition chain_grows :: "(bytes \<Rightarrow> bytes) \<Rightarrow> AuditTable \<Rightarrow> AuditTable \<Rightarrow> bool" where
  "chain_grows sha t t' \<longleftrightarrow> (table_ok sha t \<longrightarrow> table_ok sha t') \<and> prefix (tb_rows t) (tb_rows t')"

lemma chain_grows_refl [simp, intro!]: "chain_grows sha t t"
  by (simp add: chain_grows_def)

lemma chain_grows_trans: "chain_grows sha t t1 \<Longrightarrow> chain_grows sha t1 t2 \<Longrightarrow> chain_grows sha t t2"
  by (auto simp: chain_grows_def intro: prefix_order.trans)

lemma audit_append_grows:
  assumes "wf_metadata (ap_metadata ev)"
  shows "chain_grows sha t (fst (audit_append sha now t ev whereabouts))"
proof (cases "appendAuditEvent sha now ev t")
  case (Pair r t')
  have "prefix (tb_rows t) (tb_rows t')"
    using Pair appendAuditEvent_appends(1) appendAuditEvent_fails by (cases r) (force simp: prefix_def)+
  with appendAuditEvent_table_ok [OF _ assms Pair] Pair show ?thesis
    by (auto simp: chain_grows_def audit_append_def split: sum.split)
qed

text \<open>C18: The paged walk of the verifier gives, for every page size, the verdict of verifying
  the whole table at once: the same break at the same sequence number after the same count of
  verified events, or the same count and head hash.\<close>

theorem verifyChain_eq_whole_verdict:
  assumes "seqs_ok rows n" and "0 < pageSize"
  shows "verifyChain sha rows pageSize = whole_verdict sha rows"
  by (rule verifyChain_whole [OF assms])

theorem verifyChain_eq_whole_verdict_witness:
  "verifyChain sum_digest
     [sample_stored (sample_event ''a'' []) 1 GENESIS_HASH, sample_stored (sample_event ''b'' []) 3 [7]] 1 =
   whole_verdict sum_digest
     [sample_stored (sample_event ''a'' []) 1 GENESIS_HASH, sample_stored (sample_event ''b'' []) 3 [7]]"
  by (rule verifyChain_eq_whole_verdict [of _ 3]) (simp_all add: seqs_ok_def)

text \<open>C4: Appending to a sound table whose database is reachable succeeds when the event meets
  the actor and action constraints and its hash is new; it adds exactly one row after the
  existing ones, and the verifier then accepts the table with one more event and the returned
  hash as head.\<close>

theorem appendAuditEvent_verifies:
  assumes "table_ok sha t" and "tb_reachable t" and "wf_metadata (ap_metadata event)"
    and "\<And>x. length (sha x) = AUDIT_HASH_BYTES"
    and "GENESIS_HASH \<notin> set (map se_hash (tb_rows t))"
    and "sha (hash_input (audit_input event now) (head_hash (tb_rows t))) \<notin> set (map se_hash (tb_rows t))"
    and "audit_events_actor_ck (audit_input event now)"
    and "audit_events_action_ck (audit_input event now)"
    and "0 < pageSize"
  shows "\<exists>a t'. appendAuditEvent sha now event t = (Inr a, t') \<and> table_ok sha t' \<and>
     tb_rows t' = tb_rows t @
       [stored_row (audit_input event now) (Suc (tb_sequence t)) (head_hash (tb_rows t)) (aa_hash a)] \<and>
     verifyChain sha (tb_rows t') pageSize = Intact (Suc (length (tb_rows t))) (Some (aa_hash a))"
proof -
  obtain a t' where run: "appendAuditEvent sha now event t = (Inr a, t')"
    using assms(2)
    by (auto simp: appendAuditEvent_def Let_def check_audit_row_accepts [OF assms(1,3-8)]
        computeAuditHash_ok [OF head_hash_width [OF assms(1,4)]])
  note ap = appendAuditEvent_appends [OF run]
  moreover have "table_ok sha t'" by (rule appendAuditEvent_table_ok [OF assms(1,3) run])
  moreover from this have
    "verifyChain sha (tb_rows t') pageSize = Intact (Suc (length (tb_rows t))) (Some (aa_hash a))"
    using verifyChain_table_ok [of sha t' pageSize] ap(1) assms(9) by simp
  ultimately show ?thesis using run by auto
qed

theorem appendAuditEvent_verifies_witness:
  "\<exists>a t'. appendAuditEvent sum_digest ''2026-01-01T00:00:00.000Z''
       (append_event ''auth.login.failed'' at_anonymous) empty_audit_table = (Inr a, t') \<and>
     verifyChain sum_digest (tb_rows t') 500 = Intact 1 (Some (aa_hash a))"
  using appendAuditEvent_verifies [of sum_digest empty_audit_table
      "append_event ''auth.login.failed'' at_anonymous" "''2026-01-01T00:00:00.000Z''" 500]
  by (auto simp: table_ok_def empty_audit_table_def seqs_ok_def append_event_def wf_metadata_def
      audit_input_def audit_events_actor_ck_def audit_events_action_ck_def)

text \<open>Recording an event on a tenant's chain never fails the request and never loses the
  event silently: either its row was appended to that tenant's table and nothing was logged, or
  the stored rows are unchanged and exactly one log line carries the whole event.\<close>

theorem tenantEvent_recorded_or_logged:
  "\<exists>ctx' log. tenantEvent sha now ctx event = (ctx', log) \<and>
     (case ctx of
        None \<Rightarrow> ctx' = None \<and> log = [NoTenantContext event]
      | Some (tenant, t) \<Rightarrow>
          \<exists>t'. ctx' = Some (tenant, t') \<and>
            (log = [] \<and>
               (\<exists>n h. tb_rows t' = tb_rows t @
                  [stored_row (audit_input event now) n (head_hash (tb_rows t)) h]) \<or>
             (\<exists>e. log = [AppendFailed (''tenant '' @ tn_slug tenant) event e]) \<and>
               tb_rows t' = tb_rows t))"
proof (cases ctx)
  case None
  then show ?thesis by (simp add: tenantEvent_def)
next
  case (Some c)
  obtain tenant t where c: "c = (tenant, t)" by (cases c)
  obtain r t' where run: "appendAuditEvent sha now event t = (r, t')"
    by (cases "appendAuditEvent sha now event t")
  show ?thesis
  proof (cases r)
    case (Inl e)
    with run c Some appendAuditEvent_fails [of sha now event t e t'] show ?thesis
      by (auto simp: tenantEvent_def audit_append_def)
  next
    case (Inr a)
    with run c Some appendAuditEvent_appends [of sha now event t a t'] show ?thesis
      by (auto simp: tenantEvent_def audit_append_def)
  qed
qed

end
