(* ===== verification/Auth_Service.thy ===== *)
theory Auth_Service
  imports Login_Throttle Audit_Chain
begin

text \<open>
  Registration and login, \<open>services/auth/src/auth/auth.service.ts\<close>, with the password helpers of
  \<open>packages/crypto/src/passwords.ts\<close> and the tenant database they work on. Argon2 is a record of
  parameters (a hash that takes a salt, a verification and a parameter check that may throw); the
  token service is the parameter \<open>issue\<close>, a fresh row id and the server time are arguments.
\<close>

section \<open>The tenant database\<close>

datatype UserStatus = us_active | us_disabled

record UserRow =
  ur_id :: string
  ur_email :: string
  ur_passwordHash :: string
  ur_status :: UserStatus
  ur_createdAt :: string

record TenantData =
  td_users :: "UserRow list"
  td_roles :: "(string \<times> string) list"
  td_userRoles :: "(string \<times> string) list"
  td_rolePermissions :: "(string \<times> string) list"
  td_audit :: AuditTable

section \<open>Passwords\<close>

record ARGON2_OPTIONS_type =
  ag_memoryCost :: nat
  ag_timeCost :: nat
  ag_parallelism :: nat

definition ARGON2_OPTIONS :: ARGON2_OPTIONS_type where
  "ARGON2_OPTIONS = \<lparr>ag_memoryCost = 19456, ag_timeCost = 2, ag_parallelism = 1\<rparr>"

record Argon2 =
  a2_hash :: "string \<Rightarrow> string \<Rightarrow> ARGON2_OPTIONS_type \<Rightarrow> string"
  a2_verify :: "string \<Rightarrow> string \<Rightarrow> bool option"
  a2_needsRehash :: "string \<Rightarrow> ARGON2_OPTIONS_type \<Rightarrow> bool option"

definition hashPassword :: "Argon2 \<Rightarrow> string \<Rightarrow> string \<Rightarrow> string" where
  "hashPassword argon salt plaintext = a2_hash argon salt plaintext ARGON2_OPTIONS"

definition verifyPassword :: "Argon2 \<Rightarrow> string \<Rightarrow> string \<Rightarrow> bool" where
  "verifyPassword argon storedHash plaintext =
     (case a2_verify argon storedHash plaintext of None \<Rightarrow> False | Some b \<Rightarrow> b)"

definition needsRehash :: "Argon2 \<Rightarrow> string \<Rightarrow> bool" where
  "needsRehash argon storedHash =
     (case a2_needsRehash argon storedHash ARGON2_OPTIONS of None \<Rightarrow> False | Some b \<Rightarrow> b)"

definition DECOY_PLAINTEXT :: string where
  "DECOY_PLAINTEXT = ''decoy-value-never-a-real-password''"

section \<open>The service\<close>

text \<open>Everything a request works on. The counter counts Argon2 verifications, the cost that a
  caller can time; the decoy hash is computed once per process.\<close>

record AuthWorld =
  aw_store :: store_state
  aw_db :: TenantData
  aw_decoy :: "string option"
  aw_verifications :: nat
  aw_log :: "audit_log_line list"

definition normaliseEmail :: "string \<Rightarrow> string" where
  "normaliseEmail email = toLowerCase (trim email)"

definition verifyAgainstDecoy :: "Argon2 \<Rightarrow> string \<Rightarrow> string \<Rightarrow> AuthWorld \<Rightarrow> AuthWorld" where
  "verifyAgainstDecoy argon salt plaintext w =
     (let decoy = (case aw_decoy w of None \<Rightarrow> hashPassword argon salt DECOY_PLAINTEXT | Some h \<Rightarrow> h)
      in w\<lparr>aw_decoy := Some decoy, aw_verifications := Suc (aw_verifications w)\<rparr>)"

definition verify :: "Argon2 \<Rightarrow> string \<Rightarrow> string \<Rightarrow> AuthWorld \<Rightarrow> bool \<times> AuthWorld" where
  "verify argon storedHash plaintext w =
     (verifyPassword argon storedHash plaintext, w\<lparr>aw_verifications := Suc (aw_verifications w)\<rparr>)"

definition record_event ::
    "(bytes \<Rightarrow> bytes) \<Rightarrow> string \<Rightarrow> Tenant \<Rightarrow> AppendAuditEvent \<Rightarrow> AuthWorld \<Rightarrow> AuthWorld" where
  "record_event sha now tenant event w =
     (case tenantEvent sha now (Some (tenant, td_audit (aw_db w))) event of
        (Some (_, t), log) \<Rightarrow> w\<lparr>aw_db := (aw_db w)\<lparr>td_audit := t\<rparr>, aw_log := aw_log w @ log\<rparr>
      | (None, log) \<Rightarrow> w\<lparr>aw_log := aw_log w @ log\<rparr>)"

definition db_up :: "AuthWorld \<Rightarrow> bool" where
  "db_up w \<longleftrightarrow> tb_reachable (td_audit (aw_db w))"

definition throttledEvent :: "string \<Rightarrow> string \<Rightarrow> DomainError \<Rightarrow> AppendAuditEvent" where
  "throttledEvent email ip err =
     (append_event ''auth.login.throttled'' at_anonymous)
       \<lparr>ap_sourceIp := Some ip,
        ap_metadata := [(''email'', normaliseEmail email),
          (''reason'', if err = LoginThrottleUnavailableError then ''throttle_unavailable''
                     else ''limit_exceeded'')]\<rparr>"

definition notActiveEvent :: "string \<Rightarrow> string \<Rightarrow> UserRow option \<Rightarrow> AppendAuditEvent" where
  "notActiveEvent email ip user =
     (append_event ''auth.login.failed'' (if user = None then at_anonymous else at_user))
       \<lparr>ap_actorId := map_option ur_id user, ap_sourceIp := Some ip,
        ap_metadata := [(''email'', normaliseEmail email),
          (''reason'', if user = None then ''no_such_user'' else ''account_not_active'')]\<rparr>"

definition wrongPasswordEvent :: "string \<Rightarrow> string \<Rightarrow> UserRow \<Rightarrow> AppendAuditEvent" where
  "wrongPasswordEvent email ip user =
     (append_event ''auth.login.failed'' at_user)
       \<lparr>ap_actorId := Some (ur_id user), ap_sourceIp := Some ip,
        ap_metadata := [(''email'', normaliseEmail email), (''reason'', ''wrong_password'')]\<rparr>"

definition succeededEvent :: "string \<Rightarrow> UserRow \<Rightarrow> string list \<Rightarrow> AppendAuditEvent" where
  "succeededEvent ip user roles =
     (append_event ''auth.login.succeeded'' at_user)
       \<lparr>ap_actorId := Some (ur_id user), ap_resourceType := Some ''user'',
        ap_resourceId := Some (ur_id user), ap_sourceIp := Some ip,
        ap_metadata := [(''email'', ur_email user), (''roles'', join '','' roles)]\<rparr>"

definition registeredEvent :: "string \<Rightarrow> string \<Rightarrow> AppendAuditEvent" where
  "registeredEvent userId email =
     (append_event ''user.registered'' at_system)
       \<lparr>ap_resourceType := Some ''user'', ap_resourceId := Some userId,
        ap_metadata := [(''email'', email)]\<rparr>"

text \<open>Members of a \<open>Set\<close> in order of first insertion.\<close>

definition set_order :: "'a list \<Rightarrow> 'a list" where
  "set_order xs = rev (remdups (rev xs))"

definition loadAuthz :: "TenantData \<Rightarrow> string \<Rightarrow> string list \<times> string list" where
  "loadAuthz db userId =
     (let roleIds = map snd (filter (\<lambda>(u, r). u = userId) (td_userRoles db));
          roles = map (\<lambda>r. the (map_of (td_roles db) r)) roleIds;
          keys = concat (map (\<lambda>r. map snd (filter (\<lambda>(q, p). q = r) (td_rolePermissions db))) roleIds)
      in (roles, set_order keys))"

definition upgradeHashIfStale ::
    "Argon2 \<Rightarrow> string \<Rightarrow> string \<Rightarrow> string \<Rightarrow> string \<Rightarrow> AuthWorld \<Rightarrow> AuthWorld" where
  "upgradeHashIfStale argon salt userId storedHash password w =
     (if \<not> needsRehash argon storedHash then w
      else if \<not> db_up w then w
      else w\<lparr>aw_db := (aw_db w)\<lparr>td_users :=
               map (\<lambda>u. if ur_id u = userId then u\<lparr>ur_passwordHash := hashPassword argon salt password\<rparr>
                        else u) (td_users (aw_db w))\<rparr>\<rparr>)"

definition find_user :: "TenantData \<Rightarrow> string \<Rightarrow> UserRow option" where
  "find_user db email = find (\<lambda>u. ur_email u = email) (td_users db)"

definition database_error :: app_error where
  "database_error = OtherError ''database unreachable''"

definition register ::
    "(bytes \<Rightarrow> bytes) \<Rightarrow> Argon2 \<Rightarrow> string \<Rightarrow> string \<Rightarrow> string \<Rightarrow> Tenant option \<Rightarrow> string \<Rightarrow> string \<Rightarrow> AuthWorld \<Rightarrow>
     (app_error + string \<times> string) \<times> AuthWorld" where
  "register sha argon salt newId now ctx email password w =
     (let passwordHash = hashPassword argon salt password in
      case ctx of
        None \<Rightarrow> (Inl (Domain TenantContextMissingError), w)
      | Some tenant \<Rightarrow>
          if \<not> db_up w then (Inl database_error, w)
          else if find_user (aw_db w) (normaliseEmail email) \<noteq> None
            then (Inl (Domain EmailAlreadyRegisteredError), w)
          else
            let user = \<lparr>ur_id = newId, ur_email = normaliseEmail email, ur_passwordHash = passwordHash,
                        ur_status = us_active, ur_createdAt = now\<rparr>;
                w' = w\<lparr>aw_db := (aw_db w)\<lparr>td_users := td_users (aw_db w) @ [user]\<rparr>\<rparr>
            in (Inr (newId, normaliseEmail email),
                record_event sha now tenant (registeredEvent newId (normaliseEmail email)) w'))"

text \<open>The part of \<open>login\<close> after the password is proven.\<close>

definition login_proven ::
    "(bytes \<Rightarrow> bytes) \<Rightarrow> Argon2 \<Rightarrow> string \<Rightarrow> (AccessTokenClaims \<Rightarrow> app_error + string) \<Rightarrow> string \<Rightarrow> Tenant \<Rightarrow>
     string \<Rightarrow> string \<Rightarrow> string \<Rightarrow> UserRow \<Rightarrow> AuthWorld \<Rightarrow> (app_error + string) \<times> AuthWorld" where
  "login_proven sha argon salt issue now tenant email password ip user w0 =
     (let w1 = w0\<lparr>aw_store := recordSuccess sha (tn_id tenant) email (aw_store w0)\<rparr>;
          w2 = upgradeHashIfStale argon salt (ur_id user) (ur_passwordHash user) password w1
      in if \<not> db_up w2 then (Inl database_error, w2)
         else
           (case loadAuthz (aw_db w2) (ur_id user) of (roles, permissions) \<Rightarrow>
              case issue \<lparr>cl_sub = ur_id user, cl_tid = tn_id tenant, cl_roles = roles,
                          cl_permissions = permissions\<rparr> of
                Inl err \<Rightarrow> (Inl err, w2)
              | Inr accessToken \<Rightarrow>
                  (Inr accessToken, record_event sha now tenant (succeededEvent ip user roles) w2)))"

definition login ::
    "(bytes \<Rightarrow> bytes) \<Rightarrow> AppConfig \<Rightarrow> Argon2 \<Rightarrow> string \<Rightarrow> (AccessTokenClaims \<Rightarrow> app_error + string) \<Rightarrow> string \<Rightarrow>
     Tenant option \<Rightarrow> string \<Rightarrow> string \<Rightarrow> string \<Rightarrow> AuthWorld \<Rightarrow> (app_error + string) \<times> AuthWorld" where
  "login sha config argon salt issue now ctx email password ip w0 =
     (case ctx of
        None \<Rightarrow> (Inl (Domain TenantContextMissingError), w0)
      | Some tenant \<Rightarrow>
          (case assertWithinLimits sha config (tn_id tenant) email ip (snd (aw_store w0)) of
             (refusal, r) \<Rightarrow>
               let w = w0\<lparr>aw_store := (fst (aw_store w0), r)\<rparr> in
               (case refusal of
                  Some err \<Rightarrow>
                    (Inl (Domain err), record_event sha now tenant (throttledEvent email ip err) w)
                | None \<Rightarrow>
                    if \<not> db_up w then (Inl database_error, w)
                    else
                      let user = find_user (aw_db w) (normaliseEmail email);
                          fail = (\<lambda>w. w\<lparr>aw_store := recordFailure sha config (tn_id tenant) email ip (aw_store w)\<rparr>)
                      in if map_option ur_status user \<noteq> Some us_active then
                           (Inl (Domain InvalidCredentialsError),
                            record_event sha now tenant (notActiveEvent email ip user)
                              (fail (verifyAgainstDecoy argon salt password w)))
                         else
                           (case verify argon (ur_passwordHash (the user)) password w of
                              (ok, w') \<Rightarrow>
                                if \<not> ok then
                                  (Inl (Domain InvalidCredentialsError),
                                   record_event sha now tenant (wrongPasswordEvent email ip (the user)) (fail w'))
                                else
                                  login_proven sha argon salt issue now tenant email password ip
                                    (the user) w'))))"

section \<open>Facts\<close>

lemma normaliseEmail_idem [simp]: "normaliseEmail (normaliseEmail e) = normaliseEmail e"
  by (simp add: normaliseEmail_def toLowerCase_trim)

lemma record_event_simps [simp]:
  "aw_store (record_event sha now tenant ev w) = aw_store w"
  "aw_verifications (record_event sha now tenant ev w) = aw_verifications w"
  "aw_decoy (record_event sha now tenant ev w) = aw_decoy w"
  "td_users (aw_db (record_event sha now tenant ev w)) = td_users (aw_db w)"
  by (simp_all add: record_event_def tenantEvent_def split: prod.splits)

lemma event_metadata_wf [wf_intros]:
  "wf_metadata (ap_metadata (throttledEvent email ip err))"
  "wf_metadata (ap_metadata (notActiveEvent email ip user))"
  "wf_metadata (ap_metadata (wrongPasswordEvent email ip u))"
  "wf_metadata (ap_metadata (succeededEvent ip u roles))"
  "wf_metadata (ap_metadata (registeredEvent i email))"
  by (simp_all add: wf_metadata_def throttledEvent_def notActiveEvent_def wrongPasswordEvent_def
      succeededEvent_def registeredEvent_def)

lemma record_event_grows [wf_intros]:
  assumes "chain_grows sha t (td_audit (aw_db w))" and "wf_metadata (ap_metadata ev)"
  shows "chain_grows sha t (td_audit (aw_db (record_event sha now tenant ev w)))"
  using chain_grows_trans [OF assms(1) audit_append_grows [OF assms(2), of sha _ now "''tenant '' @ tn_slug tenant"]]
  by (auto simp: record_event_def tenantEvent_def split: prod.splits)

lemma event_constraints:
  "audit_events_actor_ck (audit_input (throttledEvent email ip err) now)"
  "audit_events_actor_ck (audit_input (notActiveEvent email ip user) now)"
  "audit_events_actor_ck (audit_input (wrongPasswordEvent email ip u) now)"
  "audit_events_actor_ck (audit_input (succeededEvent ip u roles) now)"
  "audit_events_actor_ck (audit_input (registeredEvent i email) now)"
  "audit_events_action_ck (audit_input (throttledEvent email ip err) now)"
  "audit_events_action_ck (audit_input (notActiveEvent email ip user) now)"
  "audit_events_action_ck (audit_input (wrongPasswordEvent email ip u) now)"
  "audit_events_action_ck (audit_input (succeededEvent ip u roles) now)"
  "audit_events_action_ck (audit_input (registeredEvent i email) now)"
  by (auto simp: audit_events_actor_ck_def audit_events_action_ck_def audit_input_def append_event_def
      throttledEvent_def notActiveEvent_def wrongPasswordEvent_def succeededEvent_def registeredEvent_def)

lemma upgrade_simps [simp]:
  "aw_store (upgradeHashIfStale a salt u h p w) = aw_store w"
  "aw_verifications (upgradeHashIfStale a salt u h p w) = aw_verifications w"
  "td_audit (aw_db (upgradeHashIfStale a salt u h p w)) = td_audit (aw_db w)"
  "td_roles (aw_db (upgradeHashIfStale a salt u h p w)) = td_roles (aw_db w)"
  "td_userRoles (aw_db (upgradeHashIfStale a salt u h p w)) = td_userRoles (aw_db w)"
  "td_rolePermissions (aw_db (upgradeHashIfStale a salt u h p w)) = td_rolePermissions (aw_db w)"
  "loadAuthz (aw_db (upgradeHashIfStale a salt u h p w)) v = loadAuthz (aw_db w) v"
  by (simp_all add: upgradeHashIfStale_def loadAuthz_def)

lemma set_set_order [simp]: "set (set_order xs) = set xs"
  by (simp add: set_order_def)

lemma distinct_set_order [simp]: "distinct (set_order xs)"
  by (simp add: set_order_def)

definition granted :: "TenantData \<Rightarrow> string \<Rightarrow> string set" where
  "granted db userId =
     {p. \<exists>r. (userId, r) \<in> set (td_userRoles db) \<and> (r, p) \<in> set (td_rolePermissions db)}"

lemma loadAuthz_permissions:
  assumes "loadAuthz db u = (roles, permissions)"
  shows "set permissions = granted db u \<and> distinct permissions"
  using assms by (force simp: loadAuthz_def Let_def granted_def)

lemma login_throttled:
  assumes "assertWithinLimits sha config (tn_id tenant) email ip (snd (aw_store w)) = (Some err, r)"
  shows "login sha config argon salt issue now (Some tenant) email password ip w =
     (Inl (Domain err),
      record_event sha now tenant (throttledEvent email ip err) (w\<lparr>aw_store := (fst (aw_store w), r)\<rparr>))"
  using assms by (simp add: login_def Let_def)

lemma login_failed:
  assumes "assertWithinLimits sha config (tn_id tenant) email ip (snd (aw_store w)) = (None, r)"
    and "db_up w"
    and "\<not> (\<exists>u. find_user (aw_db w) (normaliseEmail email) = Some u \<and> ur_status u = us_active \<and>
             verifyPassword argon (ur_passwordHash u) password)"
  shows "\<exists>ev w'. login sha config argon salt issue now (Some tenant) email password ip w =
      (Inl (Domain InvalidCredentialsError), record_event sha now tenant ev w') \<and>
     ap_action ev = ''auth.login.failed'' \<and> wf_metadata (ap_metadata ev) \<and>
     aw_store w' = recordFailure sha config (tn_id tenant) email ip (fst (aw_store w), r) \<and>
     aw_verifications w' = Suc (aw_verifications w) \<and> aw_db w' = aw_db w \<and> aw_log w' = aw_log w"
proof (cases "find_user (aw_db w) (normaliseEmail email)")
  case None
  with assms show ?thesis
    by (auto simp: login_def Let_def db_up_def verifyAgainstDecoy_def notActiveEvent_def append_event_def
        wf_metadata_def intro!: exI)
next
  case (Some u)
  show ?thesis
  proof (cases "ur_status u = us_active")
    case True
    with Some assms show ?thesis
      by (auto simp: login_def Let_def db_up_def verify_def wrongPasswordEvent_def append_event_def
          wf_metadata_def intro!: exI)
  next
    case False
    with Some assms show ?thesis
      by (auto simp: login_def Let_def db_up_def verifyAgainstDecoy_def notActiveEvent_def append_event_def
          wf_metadata_def intro!: exI)
  qed
qed

lemma login_proven_run:
  assumes "assertWithinLimits sha config (tn_id tenant) email ip (snd (aw_store w)) = (None, r)"
    and "db_up w" and "find_user (aw_db w) (normaliseEmail email) = Some u" and "ur_status u = us_active"
    and "verifyPassword argon (ur_passwordHash u) password"
  shows "login sha config argon salt issue now (Some tenant) email password ip w =
     login_proven sha argon salt issue now tenant email password ip u
       (w\<lparr>aw_store := (fst (aw_store w), r), aw_verifications := Suc (aw_verifications w)\<rparr>)"
  using assms by (simp add: login_def Let_def db_up_def verify_def)

text \<open>The four ways a login with a tenant context goes.\<close>

lemma login_cases:
  obtains (throttled) err r where
      "assertWithinLimits sha config (tn_id tenant) email ip (snd (aw_store w)) = (Some err, r)"
  | (down) r where
      "assertWithinLimits sha config (tn_id tenant) email ip (snd (aw_store w)) = (None, r)" "\<not> db_up w"
  | (failed) r where
      "assertWithinLimits sha config (tn_id tenant) email ip (snd (aw_store w)) = (None, r)" "db_up w"
      "\<not> (\<exists>u. find_user (aw_db w) (normaliseEmail email) = Some u \<and> ur_status u = us_active \<and>
             verifyPassword argon (ur_passwordHash u) password)"
  | (proven) r u where
      "assertWithinLimits sha config (tn_id tenant) email ip (snd (aw_store w)) = (None, r)" "db_up w"
      "find_user (aw_db w) (normaliseEmail email) = Some u" "ur_status u = us_active"
      "verifyPassword argon (ur_passwordHash u) password"
  by (metis (no_types, lifting) option.exhaust surj_pair)

lemma login_down:
  assumes "assertWithinLimits sha config (tn_id tenant) email ip (snd (aw_store w)) = (None, r)"
    and "\<not> db_up w"
  shows "login sha config argon salt issue now (Some tenant) email password ip w =
     (Inl database_error, w\<lparr>aw_store := (fst (aw_store w), r)\<rparr>)"
  using assms by (simp add: login_def Let_def db_up_def)

section \<open>Properties of registration and login\<close>

lemma login_Inr:
  assumes "login sha config argon salt issue now (Some tenant) email password ip w = (Inr token, w')"
  shows "\<exists>user roles permissions.
     fst (assertWithinLimits sha config (tn_id tenant) email ip (snd (aw_store w))) = None \<and>
     find_user (aw_db w) (normaliseEmail email) = Some user \<and> ur_status user = us_active \<and>
     verifyPassword argon (ur_passwordHash user) password \<and>
     issue \<lparr>cl_sub = ur_id user, cl_tid = tn_id tenant, cl_roles = roles, cl_permissions = permissions\<rparr> =
       Inr token \<and>
     set permissions = granted (aw_db w) (ur_id user) \<and> distinct permissions"
proof (cases rule: login_cases [where sha = sha and config = config and tenant = tenant and email = email
      and ip = ip and w = w and argon = argon and password = password])
  case (failed r)
  from login_failed [OF failed, of salt issue now] assms show ?thesis by auto
next
  case (proven r u)
  obtain roles permissions where a: "loadAuthz (aw_db w) (ur_id u) = (roles, permissions)"
    by (cases "loadAuthz (aw_db w) (ur_id u)")
  from assms login_proven_run [OF proven] have
    "issue \<lparr>cl_sub = ur_id u, cl_tid = tn_id tenant, cl_roles = roles, cl_permissions = permissions\<rparr> = Inr token"
    using a by (auto simp: login_proven_def Let_def split: if_splits sum.splits)
  with proven loadAuthz_permissions [OF a] show ?thesis by auto
qed (use assms login_throttled login_down in fastforce)+

text \<open>A token is issued only for proven credentials and carries only that user's rights in that
  tenant: a login that succeeds passed the throttle, found an active user with the normalised
  address whose stored hash verifies the password, and the claims it signed name that user and the
  resolved tenant, with exactly the permissions the user's roles grant, each once.\<close>

theorem login_issues_only_own_rights:
  assumes "login sha config argon salt issue now (Some tenant) email password ip w = (Inr token, w')"
  shows "\<exists>user roles permissions.
     fst (assertWithinLimits sha config (tn_id tenant) email ip (snd (aw_store w))) = None \<and>
     find_user (aw_db w) (normaliseEmail email) = Some user \<and> ur_status user = us_active \<and>
     verifyPassword argon (ur_passwordHash user) password \<and>
     issue \<lparr>cl_sub = ur_id user, cl_tid = tn_id tenant, cl_roles = roles, cl_permissions = permissions\<rparr> =
       Inr token \<and>
     set permissions = granted (aw_db w) (ur_id user) \<and> distinct permissions"
  by (rule login_Inr [OF assms])

text \<open>C20: Failed logins do not tell why: an unknown address, a disabled account and a wrong password
  all end in the same error after exactly one Argon2 verification and one counted failure, with the
  users unchanged.\<close>

theorem login_failures_indistinguishable:
  assumes "assertWithinLimits sha config (tn_id tenant) email ip (snd (aw_store w)) = (None, r)"
    and "db_up w"
    and "\<not> (\<exists>u. find_user (aw_db w) (normaliseEmail email) = Some u \<and> ur_status u = us_active \<and>
             verifyPassword argon (ur_passwordHash u) password)"
    and "login sha config argon salt issue now (Some tenant) email password ip w = (res, w')"
  shows "res = Inl (Domain InvalidCredentialsError) \<and>
     aw_store w' = recordFailure sha config (tn_id tenant) email ip (fst (aw_store w), r) \<and>
     aw_verifications w' = Suc (aw_verifications w) \<and> td_users (aw_db w') = td_users (aw_db w)"
  using login_failed [OF assms(1-3), of salt issue now] assms(4) by fastforce

text \<open>A refused attempt costs no password work: when the throttle refuses, the error is the
  throttle's, no verification runs and neither counter nor user table changes beyond the look at
  the two windows.\<close>

theorem login_throttled_does_no_work:
  assumes "assertWithinLimits sha config (tn_id tenant) email ip (snd (aw_store w)) = (Some err, r)"
    and "login sha config argon salt issue now (Some tenant) email password ip w = (res, w')"
  shows "res = Inl (Domain err) \<and> aw_verifications w' = aw_verifications w \<and>
     aw_store w' = (fst (aw_store w), r) \<and> td_users (aw_db w') = td_users (aw_db w)"
  using login_throttled [OF assms(1), of argon salt issue now password] assms(2) by auto

text \<open>Whatever its outcome, a login or a registration only adds to the tenant's audit chain, and leaves a
  sound chain sound.\<close>

lemma register_grows:
  "chain_grows sha (td_audit (aw_db w)) (td_audit (aw_db (snd (register sha argon salt newId now ctx email password w))))"
  by (auto simp: register_def Let_def intro!: wf_intros split: option.splits)

lemma login_grows:
  "chain_grows sha (td_audit (aw_db w))
     (td_audit (aw_db (snd (login sha config argon salt issue now ctx email password ip w))))"
proof (cases ctx)
  case (Some tenant)
  show ?thesis
  proof (cases rule: login_cases [where sha = sha and config = config and tenant = tenant and email = email
      and ip = ip and w = w and argon = argon and password = password])
    case (throttled err r)
    with Some show ?thesis by (auto simp: login_throttled intro!: wf_intros)
  next
    case (failed r)
    from login_failed [OF failed, of salt issue now] Some show ?thesis by (auto intro!: wf_intros)
  next
    case (proven r u)
    with Some show ?thesis
      by (auto simp: login_proven_run login_proven_def Let_def intro!: wf_intros split: prod.splits sum.splits)
  qed (use Some in \<open>simp add: login_down\<close>)
qed (simp add: login_def)




subsection \<open>A tenant with one administrator\<close>

definition demo_tenant :: Tenant where
  "demo_tenant = \<lparr>tn_id = ''t1'', tn_slug = ''acme'', tn_databaseName = ''tenant_acme'', tn_status = ts_active\<rparr>"

definition demo_argon :: Argon2 where
  "demo_argon =
     \<lparr>a2_hash = (\<lambda>salt p opts. ''h:'' @ p), a2_verify = (\<lambda>h p. Some (h = ''h:'' @ p)),
      a2_needsRehash = (\<lambda>h opts. Some False)\<rparr>"

definition demo_issue :: "AccessTokenClaims \<Rightarrow> app_error + string" where
  "demo_issue c = Inr (cl_sub c @ ''@'' @ cl_tid c)"

definition demo_world :: AuthWorld where
  "demo_world =
     \<lparr>aw_store = (newMemberIdFactory [], demo_redis 5000000),
      aw_db = \<lparr>td_users = [\<lparr>ur_id = ''u1'', ur_email = ''ann@x'', ur_passwordHash = ''h:pw'',
                              ur_status = us_active, ur_createdAt = []\<rparr>],
                td_roles = [(''r1'', TENANT_ADMIN_ROLE_NAME)], td_userRoles = [(''u1'', ''r1'')],
                td_rolePermissions = [(''r1'', usersRead)], td_audit = empty_audit_table\<rparr>,
      aw_decoy = None, aw_verifications = 0, aw_log = []\<rparr>"

lemma demo_within_limits:
  "\<exists>r. assertWithinLimits sha demo_config t e ip (snd (aw_store demo_world)) = (None, r)"
proof -
  have "fst (assertWithinLimits sha demo_config t e ip (demo_redis 5000000)) = None"
    using assertWithinLimits_iff [OF demo_store_good(1)] by (simp add: demo_store_good) (simp add: demo_config_def)
  then show ?thesis by (metis (no_types, lifting) AuthWorld.select_convs(1) demo_world_def prod.collapse snd_conv)
qed

lemma demo_email [simp]: "normaliseEmail '' Ann@X '' = ''ann@x''"
  by code_simp

lemma demo_find [simp]:
  "find_user (aw_db demo_world) ''ann@x'' = Some \<lparr>ur_id = ''u1'', ur_email = ''ann@x'',
     ur_passwordHash = ''h:pw'', ur_status = us_active, ur_createdAt = []\<rparr>"
  "db_up demo_world" "td_audit (aw_db demo_world) = empty_audit_table"
  by (simp_all add: demo_world_def find_user_def db_up_def empty_audit_table_def)

theorem login_issues_only_own_rights_witness:
  "\<exists>w' roles permissions.
     login sum_digest demo_config demo_argon [] demo_issue [] (Some demo_tenant) '' Ann@X '' ''pw'' ''10.0.0.1''
       demo_world = (Inr ''u1@t1'', w') \<and>
     demo_issue \<lparr>cl_sub = ''u1'', cl_tid = ''t1'', cl_roles = roles, cl_permissions = permissions\<rparr> = Inr ''u1@t1'' \<and>
     set permissions = {usersRead}"
proof -
  obtain r where r: "assertWithinLimits sum_digest demo_config (tn_id demo_tenant) '' Ann@X '' ''10.0.0.1''
      (snd (aw_store demo_world)) = (None, r)"
    using demo_within_limits by blast
  let ?run = "login sum_digest demo_config demo_argon [] demo_issue [] (Some demo_tenant) '' Ann@X '' ''pw''
      ''10.0.0.1'' demo_world"
  have "fst ?run = Inr ''u1@t1''"
    using login_proven_run [OF r, of _ demo_argon "''pw''" "[]" demo_issue "[]"]
    by (simp add: demo_argon_def verifyPassword_def login_proven_def Let_def upgradeHashIfStale_def
        needsRehash_def demo_issue_def demo_tenant_def db_up_def empty_audit_table_def split: prod.splits)
  then obtain w' where run: "?run = (Inr ''u1@t1'', w')" by (metis prod.collapse)
  have "granted (aw_db demo_world) ''u1'' = {usersRead}" by (auto simp: granted_def demo_world_def)
  then have "\<exists>roles permissions. demo_issue \<lparr>cl_sub = ''u1'', cl_tid = ''t1'', cl_roles = roles,
      cl_permissions = permissions\<rparr> = Inr ''u1@t1'' \<and> set permissions = {usersRead}"
    using login_issues_only_own_rights [OF run] by (auto simp: demo_tenant_def)
  then show ?thesis using run by blast
qed

theorem login_failures_indistinguishable_witness:
  "fst (login sum_digest demo_config demo_argon [] demo_issue [] (Some demo_tenant) ''bob@x'' ''pw'' ''10.0.0.1''
     demo_world) = Inl (Domain InvalidCredentialsError) \<and>
   fst (login sum_digest demo_config demo_argon [] demo_issue [] (Some demo_tenant) '' Ann@X '' ''no'' ''10.0.0.1''
     demo_world) = Inl (Domain InvalidCredentialsError)"
proof -
  have bob: "normaliseEmail ''bob@x'' = ''bob@x''" "find_user (aw_db demo_world) ''bob@x'' = None"
    by (code_simp, simp add: demo_world_def find_user_def)
  have a: "fst (login sum_digest demo_config demo_argon [] demo_issue [] (Some demo_tenant) e p ''10.0.0.1''
      demo_world) = Inl (Domain InvalidCredentialsError)"
    if no: "\<not> (\<exists>u. find_user (aw_db demo_world) (normaliseEmail e) = Some u \<and> ur_status u = us_active \<and>
       verifyPassword demo_argon (ur_passwordHash u) p)" for e p
  proof -
    obtain r where "assertWithinLimits sum_digest demo_config (tn_id demo_tenant) e ''10.0.0.1''
        (snd (aw_store demo_world)) = (None, r)" using demo_within_limits by blast
    from login_failures_indistinguishable [OF this demo_find(2) no] show ?thesis by (metis prod.collapse)
  qed
  have b: "\<not> verifyPassword demo_argon ''h:pw'' ''no''" by (simp add: demo_argon_def verifyPassword_def)
  show ?thesis using a [of "''bob@x''" "''pw''"] a [of "'' Ann@X ''" "''no''"] bob b by simp
qed

theorem login_throttled_does_no_work_witness:
  "aw_verifications (snd (login (\<lambda>x. x) demo_config demo_argon [] demo_issue [] (Some (demo_tenant\<lparr>tn_id := ''t''\<rparr>))
     ''e'' ''pw'' ''10.0.0.1'' (demo_world\<lparr>aw_store := (newMemberIdFactory [], (demo_redis 0)\<lparr>rd_up := False\<rparr>)\<rparr>))) = 0"
proof -
  let ?w = "demo_world\<lparr>aw_store := (newMemberIdFactory [], (demo_redis 0)\<lparr>rd_up := False\<rparr>)\<rparr>"
  have "assertWithinLimits (\<lambda>x. x) demo_config (tn_id (demo_tenant\<lparr>tn_id := ''t''\<rparr>)) ''e'' ''10.0.0.1''
      (snd (aw_store ?w)) = (Some LoginThrottleUnavailableError, (demo_redis 0)\<lparr>rd_up := False\<rparr>)"
    by (simp add: assertWithinLimits_def peek_def)
  from login_throttled_does_no_work [OF this] have
    "aw_verifications (snd (login (\<lambda>x. x) demo_config demo_argon [] demo_issue [] (Some (demo_tenant\<lparr>tn_id := ''t''\<rparr>))
     ''e'' ''pw'' ''10.0.0.1'' ?w)) = aw_verifications ?w" by (metis prod.collapse)
  then show ?thesis by (simp add: demo_world_def)
qed



end
