(* ===== verification/Provisioning.thy ===== *)
theory Provisioning
  imports Auth_Service
begin

text \<open>
  Tenant resolution and provisioning, \<open>packages/db/src/connection-manager.ts\<close>, the service that
  records it, \<open>services/auth/src/tenants/tenants.service.ts\<close>, and the administrator seed,
  \<open>packages/db/src/seed/seed-tenant-admin.ts\<close>. The cluster is a map from database names to
  databases. Every statement may fail before or after it took effect: the fault of each step is an
  argument. Connection pools are not modelled.
\<close>

section \<open>Names and markers\<close>

definition lower_alpha :: "char \<Rightarrow> bool" where
  "lower_alpha c \<longleftrightarrow> 97 \<le> code_unit c \<and> code_unit c \<le> 122"

definition name_char :: "char \<Rightarrow> bool" where
  "name_char c \<longleftrightarrow> lower_alpha c \<or> is_digit c \<or> c = CHR ''_''"

definition SAFE_DB_NAME :: "string \<Rightarrow> bool" where
  "SAFE_DB_NAME s \<longleftrightarrow>
     (case s of [] \<Rightarrow> False | c # cs \<Rightarrow> lower_alpha c \<and> list_all name_char cs \<and> length cs \<le> 62)"

definition hex_digit :: "char \<Rightarrow> bool" where
  "hex_digit c \<longleftrightarrow> is_digit c \<or> 97 \<le> code_unit c \<and> code_unit c \<le> 102 \<or> 65 \<le> code_unit c \<and> code_unit c \<le> 70"

definition UUID :: "string \<Rightarrow> bool" where
  "UUID s \<longleftrightarrow>
     (let parts = split_on (CHR ''-'') s
      in map length parts = [8, 4, 4, 4, 12] \<and> list_all (list_all hex_digit) parts)"

definition tenantDatabaseName :: "string \<Rightarrow> string option" where
  "tenantDatabaseName slug =
     (let databaseName = map (\<lambda>c. if name_char c then c else CHR ''_'') (toLowerCase (''tenant_'' @ slug))
      in if SAFE_DB_NAME databaseName then Some databaseName else None)"

definition PROVISIONING_LOCK_NAMESPACE :: int where
  "PROVISIONING_LOCK_NAMESPACE = 1668440683"

definition readInt32BE :: "bytes \<Rightarrow> int" where
  "readInt32BE bs =
     (let n = foldl (\<lambda>acc b. acc * 256 + uint b) 0 (take 4 bs) in if 2 ^ 31 \<le> n then n - 2 ^ 32 else n)"

definition provisioningLockKeys :: "(bytes \<Rightarrow> bytes) \<Rightarrow> string \<Rightarrow> int \<times> int" where
  "provisioningLockKeys sha databaseName =
     (PROVISIONING_LOCK_NAMESPACE, readInt32BE (sha (utf8 databaseName)))"

definition tenantDatabaseMarker :: "string \<Rightarrow> string" where
  "tenantDatabaseMarker tenantId = ''crbk-tenant:'' @ tenantId"

section \<open>The registry and the cluster\<close>

record TenantRecord =
  tr_id :: string
  tr_slug :: string
  tr_name :: string
  tr_databaseName :: string
  tr_status :: TenantStatus

text \<open>\<open>cd_tables\<close> is None while the database holds no tenant tables.\<close>

record ClusterDatabase =
  cd_marker :: "string option"
  cd_permissions :: "(string \<times> string) list"
  cd_tables :: "TenantData option"

record ProvisionWorld =
  pw_tenants :: "TenantRecord list"
  pw_cluster :: "string \<Rightarrow> ClusterDatabase option"
  pw_locks :: "(int \<times> int) list"

datatype ProvisionError =
    ProvisionDomain DomainError
  | TenantDatabaseConflictError string string
  | UnsafeName
  | StepFailed

datatype fault = Works | FailsBefore | FailsAfter

record Faults =
  ft_lock :: fault
  ft_find :: fault
  ft_register :: fault
  ft_create :: fault
  ft_build :: fault
  ft_activate :: fault

definition no_faults :: Faults where
  "no_faults = \<lparr>ft_lock = Works, ft_find = Works, ft_register = Works, ft_create = Works, ft_build = Works,
                ft_activate = Works\<rparr>"

text \<open>A write under a fault: it may be lost, or take effect with its answer lost.\<close>

definition write_step :: "fault \<Rightarrow> 'a \<Rightarrow> 's \<Rightarrow> 's \<Rightarrow> (ProvisionError + 'a) \<times> 's" where
  "write_step f result s s' =
     (case f of Works \<Rightarrow> (Inr result, s') | FailsBefore \<Rightarrow> (Inl StepFailed, s) | FailsAfter \<Rightarrow> (Inl StepFailed, s'))"

section \<open>Resolution\<close>

definition toTenant :: "TenantRecord \<Rightarrow> Tenant" where
  "toTenant row = \<lparr>tn_id = tr_id row, tn_slug = tr_slug row, tn_databaseName = tr_databaseName row,
                   tn_status = tr_status row\<rparr>"

text \<open>The id column is a uuid, stored and compared in lower case.\<close>

definition resolveTenant :: "TenantRecord list \<Rightarrow> string \<Rightarrow> DomainError + Tenant" where
  "resolveTenant tenants idOrSlug =
     (case (if UUID idOrSlug then find (\<lambda>r. tr_id r = toLowerCase idOrSlug) tenants
            else find (\<lambda>r. tr_slug r = idOrSlug) tenants) of
        None \<Rightarrow> Inl (TenantNotFoundError idOrSlug)
      | Some row \<Rightarrow>
          if tr_status row \<noteq> ts_active then Inl (TenantNotFoundError idOrSlug) else Inr (toTenant row))"

section \<open>Provisioning\<close>

definition lockProvisioning ::
    "(bytes \<Rightarrow> bytes) \<Rightarrow> fault \<Rightarrow> string \<Rightarrow> ProvisionWorld \<Rightarrow> (ProvisionError + bool) \<times> ProvisionWorld" where
  "lockProvisioning sha f databaseName w =
     (if f \<noteq> Works then (Inl StepFailed, w)
      else
        let key = provisioningLockKeys sha databaseName in
        if key \<in> set (pw_locks w) then (Inr False, w)
        else (Inr True, w\<lparr>pw_locks := key # pw_locks w\<rparr>))"

definition releaseLock :: "(bytes \<Rightarrow> bytes) \<Rightarrow> string \<Rightarrow> ProvisionWorld \<Rightarrow> ProvisionWorld" where
  "releaseLock sha databaseName w = w\<lparr>pw_locks := removeAll (provisioningLockKeys sha databaseName) (pw_locks w)\<rparr>"

definition tenant_constraints :: "TenantRecord \<Rightarrow> TenantRecord list \<Rightarrow> bool" where
  "tenant_constraints row rows \<longleftrightarrow>
     tr_id row \<notin> set (map tr_id rows) \<and> tr_slug row \<notin> set (map tr_slug rows) \<and>
     tr_databaseName row \<notin> set (map tr_databaseName rows)"

definition registerOrResume ::
    "Faults \<Rightarrow> string \<Rightarrow> string \<Rightarrow> string \<Rightarrow> string \<Rightarrow> ProvisionWorld \<Rightarrow>
     (ProvisionError + TenantRecord \<times> bool) \<times> ProvisionWorld" where
  "registerOrResume fs newId slug name databaseName w =
     (if ft_find fs \<noteq> Works then (Inl StepFailed, w)
      else
        (case find (\<lambda>r. tr_slug r = slug) (pw_tenants w) of
           Some existing \<Rightarrow>
             if tr_status existing \<noteq> ts_provisioning \<or> tr_name existing \<noteq> name
             then (Inl (ProvisionDomain (TenantAlreadyExistsError slug)), w)
             else if tr_databaseName existing \<noteq> databaseName
             then (Inl (TenantDatabaseConflictError databaseName
                     (''the registry row for \"'' @ slug @ ''\" names database \"'' @ tr_databaseName existing @ ''\"'')), w)
             else (Inr (existing, True), w)
         | None \<Rightarrow>
             let row = \<lparr>tr_id = newId, tr_slug = slug, tr_name = name, tr_databaseName = databaseName,
                        tr_status = ts_provisioning\<rparr>
             in if \<not> tenant_constraints row (pw_tenants w)
                then (Inl (ProvisionDomain (TenantAlreadyExistsError slug)), w)
                else write_step (ft_register fs) (row, False) w (w\<lparr>pw_tenants := pw_tenants w @ [row]\<rparr>)))"

definition createDatabase :: "Faults \<Rightarrow> string \<Rightarrow> ProvisionWorld \<Rightarrow> (ProvisionError + unit) \<times> ProvisionWorld" where
  "createDatabase fs databaseName w =
     (case pw_cluster w databaseName of
        Some _ \<Rightarrow> write_step (ft_create fs) () w w
      | None \<Rightarrow>
          write_step (ft_create fs) () w
            (w\<lparr>pw_cluster := (pw_cluster w)(databaseName \<mapsto>
                 \<lparr>cd_marker = None, cd_permissions = [], cd_tables = None\<rparr>)\<rparr>))"

text \<open>What the build transaction commits: the empty tables, the permission catalogue, the administrator
  role with every permission, and the marker.\<close>

definition built :: "string \<Rightarrow> string \<Rightarrow> ClusterDatabase" where
  "built roleId tenantId =
     \<lparr>cd_marker = Some (tenantDatabaseMarker tenantId), cd_permissions = DEFAULT_PERMISSIONS,
      cd_tables = Some \<lparr>td_users = [], td_roles = [(roleId, TENANT_ADMIN_ROLE_NAME)], td_userRoles = [],
                        td_rolePermissions = map (\<lambda>(key, _). (roleId, key)) DEFAULT_PERMISSIONS,
                        td_audit = empty_audit_table\<rparr>\<rparr>"

definition initializeTenantDatabase ::
    "Faults \<Rightarrow> string \<Rightarrow> string \<Rightarrow> string \<Rightarrow> ProvisionWorld \<Rightarrow> (ProvisionError + unit) \<times> ProvisionWorld" where
  "initializeTenantDatabase fs roleId databaseName tenantId w =
     (if \<not> SAFE_DB_NAME databaseName \<or> \<not> UUID tenantId then (Inl UnsafeName, w)
      else
        (case pw_cluster w databaseName of
           None \<Rightarrow> (Inl StepFailed, w)
         | Some db \<Rightarrow>
             let marker = tenantDatabaseMarker tenantId in
             if cd_marker db = Some marker then write_step (ft_build fs) () w w
             else
               (case cd_marker db of
                  Some current \<Rightarrow>
                    (Inl (TenantDatabaseConflictError databaseName
                       (''it is marked \"'' @ current @ ''\", not \"'' @ marker @ ''\"'')), w)
                | None \<Rightarrow>
                    if cd_tables db \<noteq> None
                    then (Inl (TenantDatabaseConflictError databaseName
                           ''it already holds tenant tables and carries no provisioning marker''), w)
                    else write_step (ft_build fs) () w
                           (w\<lparr>pw_cluster := (pw_cluster w)(databaseName \<mapsto> built roleId tenantId)\<rparr>))))"

definition set_active :: "string \<Rightarrow> TenantRecord \<Rightarrow> TenantRecord" where
  "set_active tenantId r = (if tr_id r = tenantId then r\<lparr>tr_status := ts_active\<rparr> else r)"

definition activateTenant :: "Faults \<Rightarrow> string \<Rightarrow> ProvisionWorld \<Rightarrow> (ProvisionError + TenantRecord) \<times> ProvisionWorld" where
  "activateTenant fs tenantId w =
     (case find (\<lambda>r. tr_id r = tenantId) (pw_tenants w) of
        None \<Rightarrow> (Inl StepFailed, w)
      | Some row \<Rightarrow>
          write_step (ft_activate fs) (set_active tenantId row) w
            (w\<lparr>pw_tenants := map (set_active tenantId) (pw_tenants w)\<rparr>))"

text \<open>The part of \<open>provisionTenant\<close> that runs under the lock.\<close>

definition provision_locked ::
    "Faults \<Rightarrow> string \<Rightarrow> string \<Rightarrow> string \<Rightarrow> string \<Rightarrow> string \<Rightarrow> ProvisionWorld \<Rightarrow>
     (ProvisionError + Tenant \<times> bool) \<times> ProvisionWorld" where
  "provision_locked fs newId roleId slug name databaseName w =
     (case registerOrResume fs newId slug name databaseName w of
        (Inl e, w1) \<Rightarrow> (Inl e, w1)
      | (Inr (row, resumed), w1) \<Rightarrow>
          (case createDatabase fs databaseName w1 of
             (Inl e, w2) \<Rightarrow> (Inl e, w2)
           | (Inr _, w2) \<Rightarrow>
               (case initializeTenantDatabase fs roleId databaseName (tr_id row) w2 of
                  (Inl e, w3) \<Rightarrow> (Inl e, w3)
                | (Inr _, w3) \<Rightarrow>
                    (case activateTenant fs (tr_id row) w3 of
                       (Inl e, w4) \<Rightarrow> (Inl e, w4)
                     | (Inr active, w4) \<Rightarrow> (Inr (toTenant active, resumed), w4)))))"

definition provisionTenant ::
    "(bytes \<Rightarrow> bytes) \<Rightarrow> Faults \<Rightarrow> string \<Rightarrow> string \<Rightarrow> string \<Rightarrow> string \<Rightarrow> ProvisionWorld \<Rightarrow>
     (ProvisionError + Tenant \<times> bool) \<times> ProvisionWorld" where
  "provisionTenant sha fs newId roleId slug name w =
     (case tenantDatabaseName slug of
        None \<Rightarrow> (Inl UnsafeName, w)
      | Some databaseName \<Rightarrow>
          (case lockProvisioning sha (ft_lock fs) databaseName w of
             (Inl e, w1) \<Rightarrow> (Inl e, w1)
           | (Inr False, w1) \<Rightarrow> (Inl (ProvisionDomain (TenantProvisioningInProgressError slug)), w1)
           | (Inr True, w1) \<Rightarrow>
               (case provision_locked fs newId roleId slug name databaseName w1 of
                  (result, w2) \<Rightarrow> (result, releaseLock sha databaseName w2))))"

section \<open>The tenants service and the administrator seed\<close>

definition provisionedEvent :: "Tenant \<Rightarrow> bool \<Rightarrow> AppendAuditEvent" where
  "provisionedEvent tenant resumed =
     (append_event ''tenant.provisioned'' at_control_plane)
       \<lparr>ap_resourceType := Some ''tenant'', ap_resourceId := Some (tn_id tenant),
        ap_metadata := [(''slug'', tn_slug tenant), (''databaseName'', tn_databaseName tenant)] @
          (if resumed then [(''resumed'', ''true'')] else [])\<rparr>"

text \<open>The control plane's own chain is the table beside the world.\<close>

definition provision ::
    "(bytes \<Rightarrow> bytes) \<Rightarrow> string \<Rightarrow> Faults \<Rightarrow> string \<Rightarrow> string \<Rightarrow> string \<Rightarrow> string \<Rightarrow> ProvisionWorld \<Rightarrow> AuditTable \<Rightarrow>
     (ProvisionError + Tenant) \<times> ProvisionWorld \<times> AuditTable \<times> audit_log_line list" where
  "provision sha now fs newId roleId slug name w chain =
     (case provisionTenant sha fs newId roleId slug name w of
        (Inl e, w') \<Rightarrow> (Inl e, w', chain, [])
      | (Inr (tenant, resumed), w') \<Rightarrow>
          (case controlPlaneEvent sha now chain (provisionedEvent tenant resumed) of
             (chain', log) \<Rightarrow> (Inr tenant, w', chain', log)))"

record SeedResult =
  sr_tenantSlug :: string
  sr_databaseName :: string
  sr_userId :: string
  sr_email :: string
  sr_role :: string
  sr_created :: bool

datatype SeedError = SeedDomain DomainError | NoAdminRole string | SeedDatabaseDown

text \<open>\<open>upsert\<close> with an empty update: the pair is there afterwards, once.\<close>

definition upsert_pair :: "'a \<times> 'b \<Rightarrow> ('a \<times> 'b) list \<Rightarrow> ('a \<times> 'b) list" where
  "upsert_pair p xs = (if p \<in> set xs then xs else xs @ [p])"

definition seed_tables ::
    "Argon2 \<Rightarrow> string \<Rightarrow> string \<Rightarrow> string \<Rightarrow> Tenant \<Rightarrow> string \<Rightarrow> string \<Rightarrow> TenantData \<Rightarrow>
     (SeedError + SeedResult) \<times> TenantData" where
  "seed_tables argon salt newId now tenant email password db =
     (case find (\<lambda>(_, name). name = TENANT_ADMIN_ROLE_NAME) (td_roles db) of
        None \<Rightarrow> (Inl (NoAdminRole (tn_slug tenant)), db)
      | Some (roleId, _) \<Rightarrow>
          let existing = find_user db email;
              user = (case existing of
                        Some u \<Rightarrow> u
                      | None \<Rightarrow> \<lparr>ur_id = newId, ur_email = email, ur_passwordHash = hashPassword argon salt password,
                                 ur_status = us_active, ur_createdAt = now\<rparr>);
              db' = db\<lparr>td_users := (if existing = None then td_users db @ [user] else td_users db),
                       td_userRoles := upsert_pair (ur_id user, roleId) (td_userRoles db)\<rparr>
          in (Inr \<lparr>sr_tenantSlug = tn_slug tenant, sr_databaseName = tn_databaseName tenant, sr_userId = ur_id user,
                   sr_email = email, sr_role = TENANT_ADMIN_ROLE_NAME, sr_created = (existing = None)\<rparr>, db'))"

definition seedTenantAdmin ::
    "Argon2 \<Rightarrow> string \<Rightarrow> string \<Rightarrow> string \<Rightarrow> string \<Rightarrow> string \<Rightarrow> string \<Rightarrow> ProvisionWorld \<Rightarrow>
     (SeedError + SeedResult) \<times> ProvisionWorld" where
  "seedTenantAdmin argon salt newId now idOrSlug rawEmail password w =
     (case resolveTenant (pw_tenants w) idOrSlug of
        Inl e \<Rightarrow> (Inl (SeedDomain e), w)
      | Inr tenant \<Rightarrow>
          let email = toLowerCase (trim rawEmail) in
          (case pw_cluster w (tn_databaseName tenant) of
             None \<Rightarrow> (Inl SeedDatabaseDown, w)
           | Some cd \<Rightarrow>
               (case cd_tables cd of
                  None \<Rightarrow> (Inl SeedDatabaseDown, w)
                | Some db \<Rightarrow>
                    (case seed_tables argon salt newId now tenant email password db of
                       (result, db') \<Rightarrow>
                         (result, w\<lparr>pw_cluster := (pw_cluster w)(tn_databaseName tenant \<mapsto> cd\<lparr>cd_tables := Some db'\<rparr>)\<rparr>)))))"

section \<open>The CLI arguments\<close>

text \<open>\<open>parseArgs\<close> of the seed and key commands: \<open>split("=", 2)\<close> keeps the first two pieces; the value of a
  flag without one is the next argument, consumed, or the empty string.\<close>

definition split_flag :: "string \<Rightarrow> string \<times> string option" where
  "split_flag arg =
     (case split_on (CHR ''='') arg of
        [] \<Rightarrow> ([], None) | [flag] \<Rightarrow> (flag, None) | flag # v # _ \<Rightarrow> (flag, Some v))"

fun parseArgs :: "string list \<Rightarrow> (string \<Rightarrow> string option) \<Rightarrow> (string \<Rightarrow> string option)" where
  "parseArgs [] out = out"
| "parseArgs (arg # rest) out =
     (if \<not> startsWith arg ''--'' then parseArgs rest out
      else
        (case split_flag (drop 2 arg) of
           (flag, Some v) \<Rightarrow> parseArgs rest (out(flag \<mapsto> v))
         | (flag, None) \<Rightarrow>
             (case rest of
                [] \<Rightarrow> out(flag \<mapsto> [])
              | v # rest' \<Rightarrow> parseArgs rest' (out(flag \<mapsto> v)))))"

section \<open>What provisioning keeps\<close>

definition marked_for :: "ProvisionWorld \<Rightarrow> string \<Rightarrow> string \<Rightarrow> bool" where
  "marked_for w databaseName tenantId \<longleftrightarrow>
     (case pw_cluster w databaseName of
        None \<Rightarrow> False
      | Some db \<Rightarrow> cd_marker db = Some (tenantDatabaseMarker tenantId) \<and> cd_tables db \<noteq> None)"

text \<open>The unique constraints, and: an active tenant's database is built and marked for it.\<close>

definition registry_ok :: "ProvisionWorld \<Rightarrow> bool" where
  "registry_ok w \<longleftrightarrow>
     distinct (map tr_id (pw_tenants w)) \<and> distinct (map tr_slug (pw_tenants w)) \<and>
     distinct (map tr_databaseName (pw_tenants w)) \<and>
     list_all (\<lambda>row. tr_status row = ts_active \<longrightarrow> marked_for w (tr_databaseName row) (tr_id row)) (pw_tenants w)"

text \<open>A database is marked only together with its tables.\<close>

definition cluster_ok :: "ProvisionWorld \<Rightarrow> bool" where
  "cluster_ok w \<longleftrightarrow> (\<forall>n db. pw_cluster w n = Some db \<and> cd_marker db \<noteq> None \<longrightarrow> cd_tables db \<noteq> None)"

definition world_ok :: "ProvisionWorld \<Rightarrow> bool" where
  "world_ok w \<longleftrightarrow> registry_ok w \<and> cluster_ok w"

definition same_identity :: "TenantRecord \<Rightarrow> TenantRecord \<Rightarrow> bool" where
  "same_identity r r' \<longleftrightarrow>
     tr_id r' = tr_id r \<and> tr_slug r' = tr_slug r \<and> tr_name r' = tr_name r \<and> tr_databaseName r' = tr_databaseName r"

definition row_kept :: "TenantRecord \<Rightarrow> TenantRecord \<Rightarrow> bool" where
  "row_kept r r' \<longleftrightarrow> same_identity r r' \<and> (tr_status r' = tr_status r \<or> tr_status r' = ts_active)"

text \<open>No row is lost or renamed, no marker is lost, and a database that holds tenant tables is not
  touched.\<close>

definition keeps :: "ProvisionWorld \<Rightarrow> ProvisionWorld \<Rightarrow> bool" where
  "keeps w w' \<longleftrightarrow>
     list_all (\<lambda>r. list_ex (row_kept r) (pw_tenants w')) (pw_tenants w) \<and>
     (\<forall>n db. pw_cluster w n = Some db \<and> cd_tables db \<noteq> None \<longrightarrow> pw_cluster w' n = Some db)"

lemmas world_defs = world_ok_def registry_ok_def cluster_ok_def marked_for_def

lemma same_identity_refl [simp]: "same_identity r r"
  by (simp add: same_identity_def)

lemma row_kept_refl [simp]: "row_kept r r"
  by (simp add: row_kept_def)

lemma row_kept_trans: "row_kept a b \<Longrightarrow> row_kept b c \<Longrightarrow> row_kept a c"
  by (auto simp: row_kept_def same_identity_def)

lemma row_kept_self: "r \<in> set rows \<Longrightarrow> list_ex (row_kept r) rows"
  by (metis list_ex_iff row_kept_refl)

lemma keeps_same_rows:
  "pw_tenants w' = pw_tenants w \<Longrightarrow>
     keeps w w' \<longleftrightarrow> (\<forall>n db. pw_cluster w n = Some db \<and> cd_tables db \<noteq> None \<longrightarrow> pw_cluster w' n = Some db)"
  by (simp add: keeps_def list_all_iff row_kept_self)

lemma keeps_refl [simp]: "keeps w w"
  by (simp add: keeps_same_rows)

lemma keeps_trans:
  assumes "keeps a b" "keeps b c"
  shows "keeps a c"
proof -
  have "list_ex (row_kept r) (pw_tenants c)" if "r \<in> set (pw_tenants a)" for r
    using assms that unfolding keeps_def list_all_iff list_ex_iff by (meson row_kept_trans)
  with assms show ?thesis unfolding keeps_def list_all_iff by blast
qed

lemma write_step_cases: "snd (write_step f r s s') = s \<or> snd (write_step f r s s') = s'"
  by (cases f) (simp_all add: write_step_def)

lemma write_step_Inr: "write_step f r s s' = (Inr x, t) \<Longrightarrow> f = Works \<and> x = r \<and> t = s'"
  by (cases f) (simp_all add: write_step_def)

lemma locks_ok:
  "world_ok (w\<lparr>pw_locks := l\<rparr>) = world_ok w" "keeps w (w\<lparr>pw_locks := l\<rparr>)"
  by (simp_all add: world_defs keeps_same_rows)

lemma lockProvisioning_keeps:
  "world_ok w \<Longrightarrow> world_ok (snd (lockProvisioning sha f n w)) \<and> keeps w (snd (lockProvisioning sha f n w))"
  by (auto simp: lockProvisioning_def Let_def locks_ok)

lemma insert_tenant_keeps:
  assumes "world_ok w" "tenant_constraints row (pw_tenants w)" "tr_status row = ts_provisioning"
  shows "world_ok (w\<lparr>pw_tenants := pw_tenants w @ [row]\<rparr>) \<and> keeps w (w\<lparr>pw_tenants := pw_tenants w @ [row]\<rparr>)"
proof
  show "keeps w (w\<lparr>pw_tenants := pw_tenants w @ [row]\<rparr>)"
    by (simp add: keeps_def list_all_iff row_kept_self)
  show "world_ok (w\<lparr>pw_tenants := pw_tenants w @ [row]\<rparr>)"
    using assms by (auto simp: world_defs tenant_constraints_def list_all_iff split: option.splits)
qed

lemma registerOrResume_keeps:
  assumes "world_ok w"
  shows "world_ok (snd (registerOrResume fs newId slug name n w)) \<and> keeps w (snd (registerOrResume fs newId slug name n w))"
proof -
  let ?row = "\<lparr>tr_id = newId, tr_slug = slug, tr_name = name, tr_databaseName = n, tr_status = ts_provisioning\<rparr>"
  have "snd (registerOrResume fs newId slug name n w) = w \<or>
      tenant_constraints ?row (pw_tenants w) \<and>
      snd (registerOrResume fs newId slug name n w) = w\<lparr>pw_tenants := pw_tenants w @ [?row]\<rparr>"
    using write_step_cases [of "ft_register fs" "(?row, False)" w "w\<lparr>pw_tenants := pw_tenants w @ [?row]\<rparr>"]
    by (auto simp: registerOrResume_def Let_def split: option.split)
  then show ?thesis using assms insert_tenant_keeps [OF assms, of ?row] by auto
qed

lemma cluster_update_keeps:
  assumes "world_ok w" "\<And>db. pw_cluster w n = Some db \<Longrightarrow> cd_marker db = None \<and> cd_tables db = None"
    and "cd_marker d \<noteq> None \<Longrightarrow> cd_tables d \<noteq> None"
  shows "world_ok (w\<lparr>pw_cluster := (pw_cluster w)(n \<mapsto> d)\<rparr>) \<and> keeps w (w\<lparr>pw_cluster := (pw_cluster w)(n \<mapsto> d)\<rparr>)"
proof
  show "keeps w (w\<lparr>pw_cluster := (pw_cluster w)(n \<mapsto> d)\<rparr>)"
    using assms(2) by (auto simp: keeps_same_rows)
  show "world_ok (w\<lparr>pw_cluster := (pw_cluster w)(n \<mapsto> d)\<rparr>)"
    using assms by (auto simp: world_defs list_all_iff split: option.splits)
qed

lemma createDatabase_keeps:
  assumes "world_ok w"
  shows "world_ok (snd (createDatabase fs n w)) \<and> keeps w (snd (createDatabase fs n w))"
proof (cases "pw_cluster w n")
  case None
  with assms write_step_cases [of "ft_create fs" "()" w
      "w\<lparr>pw_cluster := (pw_cluster w)(n \<mapsto> \<lparr>cd_marker = None, cd_permissions = [], cd_tables = None\<rparr>)\<rparr>"]
    cluster_update_keeps [OF assms, of n "\<lparr>cd_marker = None, cd_permissions = [], cd_tables = None\<rparr>"]
  show ?thesis by (auto simp: createDatabase_def)
next
  case (Some db)
  with assms write_step_cases [of "ft_create fs" "()" w w] show ?thesis by (auto simp: createDatabase_def)
qed

lemma built_tables [simp]: "\<exists>y. cd_tables (built roleId tid) = Some y" "cd_marker (built roleId tid) = Some (tenantDatabaseMarker tid)"
  by (simp_all add: built_def)

text \<open>The build changes nothing, or turns an empty database into the built one.\<close>

lemma initialize_cases:
  obtains "snd (initializeTenantDatabase fs roleId n tid w) = w"
  | "snd (initializeTenantDatabase fs roleId n tid w) = w\<lparr>pw_cluster := (pw_cluster w)(n \<mapsto> built roleId tid)\<rparr>"
    and "\<And>db. pw_cluster w n = Some db \<Longrightarrow> cd_marker db = None \<and> cd_tables db = None"
proof (cases "pw_cluster w n")
  case None
  with that(1) show ?thesis by (auto simp: initializeTenantDatabase_def)
next
  case (Some db)
  show ?thesis
  proof (cases "SAFE_DB_NAME n \<and> UUID tid \<and> cd_marker db = None \<and> cd_tables db = None")
    case True
    with Some write_step_cases [of "ft_build fs" "()" w "w\<lparr>pw_cluster := (pw_cluster w)(n \<mapsto> built roleId tid)\<rparr>"]
    show ?thesis using that by (auto simp: initializeTenantDatabase_def Let_def)
  next
    case False
    with Some write_step_cases [of "ft_build fs" "()" w w] that(1) show ?thesis
      by (auto simp: initializeTenantDatabase_def Let_def split: option.splits)
  qed
qed

lemma initialize_keeps:
  assumes "world_ok w"
  shows "world_ok (snd (initializeTenantDatabase fs roleId n tid w)) \<and> keeps w (snd (initializeTenantDatabase fs roleId n tid w))"
proof (cases rule: initialize_cases [of fs roleId n tid w])
  case 1
  then show ?thesis using assms by simp
next
  case 2
  then show ?thesis using cluster_update_keeps [OF assms 2(2), where d = "built roleId tid"] by simp
qed

lemma initialize_Inr:
  assumes "initializeTenantDatabase fs roleId n tid w = (Inr u, w')" "cluster_ok w"
  shows "marked_for w' n tid"
  using assms
  by (auto simp: initializeTenantDatabase_def Let_def marked_for_def cluster_ok_def dest!: write_step_Inr
      split: if_splits option.splits)

lemma keeps_marked:
  assumes "keeps w w'" "marked_for w n tid"
  shows "marked_for w' n tid"
proof -
  obtain db where db: "pw_cluster w n = Some db" "cd_tables db \<noteq> None" "cd_marker db = Some (tenantDatabaseMarker tid)"
    using assms(2) by (auto simp: marked_for_def split: option.splits)
  then have "pw_cluster w' n = Some db" using assms(1) unfolding keeps_def by blast
  with db show ?thesis by (simp add: marked_for_def)
qed

lemma set_active_simps [simp]:
  "tr_id (set_active tid r) = tr_id r" "tr_slug (set_active tid r) = tr_slug r"
  "tr_name (set_active tid r) = tr_name r" "tr_databaseName (set_active tid r) = tr_databaseName r"
  by (simp_all add: set_active_def)

lemma map_set_active [simp]:
  "tr_id \<circ> set_active tid = tr_id" "tr_slug \<circ> set_active tid = tr_slug"
  "tr_databaseName \<circ> set_active tid = tr_databaseName"
  by (simp_all add: fun_eq_iff)

lemma set_active_kept: "row_kept r (set_active tid r)"
  by (simp add: row_kept_def same_identity_def set_active_def)

lemma set_active_keeps:
  assumes "world_ok w" "\<And>row. row \<in> set (pw_tenants w) \<Longrightarrow> tr_id row = tid \<Longrightarrow> marked_for w (tr_databaseName row) tid"
  shows "world_ok (w\<lparr>pw_tenants := map (set_active tid) (pw_tenants w)\<rparr>) \<and>
    keeps w (w\<lparr>pw_tenants := map (set_active tid) (pw_tenants w)\<rparr>)"
proof
  have "list_ex (row_kept r) (map (set_active tid) (pw_tenants w))" if "r \<in> set (pw_tenants w)" for r
    using that set_active_kept by (auto simp: list_ex_iff)
  then show "keeps w (w\<lparr>pw_tenants := map (set_active tid) (pw_tenants w)\<rparr>)"
    by (simp add: keeps_def list_all_iff)
  have m: "marked_for (w\<lparr>pw_tenants := rows\<rparr>) = marked_for w" for rows
    by (simp add: fun_eq_iff marked_for_def)
  have "marked_for w (tr_databaseName row) (tr_id row)"
    if "row \<in> set (pw_tenants w)" "tr_status (set_active tid row) = ts_active" for row
    using that assms by (auto simp: set_active_def world_ok_def registry_ok_def list_all_iff split: if_splits)
  then show "world_ok (w\<lparr>pw_tenants := map (set_active tid) (pw_tenants w)\<rparr>)"
    using assms(1) by (auto simp: world_ok_def registry_ok_def cluster_ok_def list_all_iff m)
qed

lemma activateTenant_keeps:
  assumes "world_ok w" "row \<in> set (pw_tenants w)" "tr_id row = tid" "marked_for w (tr_databaseName row) tid"
  shows "world_ok (snd (activateTenant fs tid w)) \<and> keeps w (snd (activateTenant fs tid w))"
proof -
  have marked: "marked_for w (tr_databaseName row') tid" if "row' \<in> set (pw_tenants w)" "tr_id row' = tid" for row'
  proof -
    have "row' = row"
      using that assms(1-3) by (auto simp: world_ok_def registry_ok_def distinct_map inj_on_def)
    with assms(4) show ?thesis by simp
  qed
  have "world_ok (w\<lparr>pw_tenants := map (set_active tid) (pw_tenants w)\<rparr>) \<and>
      keeps w (w\<lparr>pw_tenants := map (set_active tid) (pw_tenants w)\<rparr>)"
    by (rule set_active_keeps [OF assms(1) marked])
  moreover have "snd (activateTenant fs tid w) = w \<or>
      snd (activateTenant fs tid w) = w\<lparr>pw_tenants := map (set_active tid) (pw_tenants w)\<rparr>"
    unfolding activateTenant_def by (cases "find (\<lambda>r. tr_id r = tid) (pw_tenants w)") (simp_all add: write_step_cases)
  ultimately show ?thesis using assms(1) by auto
qed

lemma registerOrResume_Inr:
  assumes "registerOrResume fs newId slug name n w = (Inr (row, resumed), w')"
  shows "row \<in> set (pw_tenants w') \<and> tr_databaseName row = n \<and> tr_slug row = slug \<and> tr_status row = ts_provisioning"
  using assms
  by (auto simp: registerOrResume_def Let_def find_Some_iff dest!: write_step_Inr split: if_splits option.splits)

text \<open>A run that has registered its row: whatever else happens, its row stays, for its database.\<close>

definition registered :: "ProvisionWorld \<Rightarrow> string \<Rightarrow> string \<Rightarrow> bool" where
  "registered w n tid \<longleftrightarrow> list_ex (\<lambda>row. tr_id row = tid \<and> tr_databaseName row = n) (pw_tenants w)"

lemma keeps_registered: "keeps w w' \<Longrightarrow> registered w n tid \<Longrightarrow> registered w' n tid"
  by (fastforce simp: keeps_def registered_def list_all_iff list_ex_iff row_kept_def same_identity_def)

lemma activate_registered_keeps:
  assumes "world_ok w" "registered w n tid" "marked_for w n tid"
  shows "world_ok (snd (activateTenant fs tid w)) \<and> keeps w (snd (activateTenant fs tid w))"
  using assms activateTenant_keeps [OF assms(1)] by (auto simp: registered_def list_ex_iff)

section \<open>Interleaved runs\<close>

text \<open>A run of \<open>provisionTenant\<close> between two of its steps, with the id of its registry row once it has
  one. A step may fail before or after it took effect, and a run may die at any time; either ends it.
  Besides provisioning, the service of a built tenant writes to its tables, and a lock may be lost
  with its connection.\<close>

datatype RunPc = AtStart | AtLocked | AtRegistered string | AtCreated string | AtBuilt string | AtEnd

record Run =
  rn_slug :: string
  rn_name :: string
  rn_db :: string
  rn_pc :: RunPc

record RunSystem =
  rs_world :: ProvisionWorld
  rs_run :: "nat \<Rightarrow> Run"

definition moved :: "RunSystem \<Rightarrow> nat \<Rightarrow> ProvisionWorld \<Rightarrow> RunPc \<Rightarrow> RunSystem" where
  "moved s i w pc = s\<lparr>rs_world := w, rs_run := (rs_run s)(i := (rs_run s i)\<lparr>rn_pc := pc\<rparr>)\<rparr>"

definition next_pc :: "('e + 'a) \<Rightarrow> ('a \<Rightarrow> RunPc) \<Rightarrow> RunPc" where
  "next_pc result k = (case result of Inl _ \<Rightarrow> AtEnd | Inr x \<Rightarrow> k x)"

inductive run_step :: "(bytes \<Rightarrow> bytes) \<Rightarrow> RunSystem \<Rightarrow> RunSystem \<Rightarrow> bool" for sha where
  run_locks: "rn_pc (rs_run s i) = AtStart \<Longrightarrow>
    lockProvisioning sha f (rn_db (rs_run s i)) (rs_world s) = (r, w) \<Longrightarrow>
    run_step sha s (moved s i w (next_pc r (\<lambda>locked. if locked then AtLocked else AtEnd)))"
| run_registers: "rn_pc (rs_run s i) = AtLocked \<Longrightarrow>
    registerOrResume fs newId (rn_slug (rs_run s i)) (rn_name (rs_run s i)) (rn_db (rs_run s i)) (rs_world s) = (r, w) \<Longrightarrow>
    run_step sha s (moved s i w (next_pc r (\<lambda>(row, _). AtRegistered (tr_id row))))"
| run_creates: "rn_pc (rs_run s i) = AtRegistered tid \<Longrightarrow>
    createDatabase fs (rn_db (rs_run s i)) (rs_world s) = (r, w) \<Longrightarrow>
    run_step sha s (moved s i w (next_pc r (\<lambda>_. AtCreated tid)))"
| run_builds: "rn_pc (rs_run s i) = AtCreated tid \<Longrightarrow>
    initializeTenantDatabase fs roleId (rn_db (rs_run s i)) tid (rs_world s) = (r, w) \<Longrightarrow>
    run_step sha s (moved s i w (next_pc r (\<lambda>_. AtBuilt tid)))"
| run_activates: "rn_pc (rs_run s i) = AtBuilt tid \<Longrightarrow> activateTenant fs tid (rs_world s) = (r, w) \<Longrightarrow>
    run_step sha s (moved s i w AtEnd)"
| run_dies: "run_step sha s (moved s i (rs_world s) AtEnd)"
| lock_freed: "run_step sha s (s\<lparr>rs_world := releaseLock sha n (rs_world s)\<rparr>)"
| tenant_writes: "pw_cluster (rs_world s) n = Some db \<Longrightarrow> cd_tables db = Some t \<Longrightarrow>
    run_step sha s (s\<lparr>rs_world := (rs_world s)\<lparr>pw_cluster := (pw_cluster (rs_world s))(n \<mapsto> db\<lparr>cd_tables := Some t'\<rparr>)\<rparr>\<rparr>)"

definition pc_ok :: "ProvisionWorld \<Rightarrow> string \<Rightarrow> RunPc \<Rightarrow> bool" where
  "pc_ok w n pc =
     (case pc of
        AtRegistered tid \<Rightarrow> registered w n tid
      | AtCreated tid \<Rightarrow> registered w n tid
      | AtBuilt tid \<Rightarrow> registered w n tid \<and> marked_for w n tid
      | _ \<Rightarrow> True)"

definition system_ok :: "RunSystem \<Rightarrow> bool" where
  "system_ok s \<longleftrightarrow> world_ok (rs_world s) \<and> (\<forall>i. pc_ok (rs_world s) (rn_db (rs_run s i)) (rn_pc (rs_run s i)))"

lemma keeps_pc_ok: "keeps w w' \<Longrightarrow> pc_ok w n pc \<Longrightarrow> pc_ok w' n pc"
  by (auto simp: pc_ok_def intro: keeps_registered keeps_marked split: RunPc.splits)

lemma moved_ok:
  assumes "system_ok s" "world_ok w \<and> keeps (rs_world s) w" "pc_ok w (rn_db (rs_run s i)) pc"
  shows "system_ok (moved s i w pc)"
  using assms keeps_pc_ok [of "rs_world s" w] by (auto simp: system_ok_def moved_def)

lemma pc_ok_end [simp]: "pc_ok w n AtEnd" "pc_ok w n AtLocked" "pc_ok w n AtStart"
  by (simp_all add: pc_ok_def)

lemma system_world: "system_ok s \<Longrightarrow> world_ok (rs_world s)"
  by (simp add: system_ok_def)

lemma system_pc: "system_ok s \<Longrightarrow> rn_pc (rs_run s i) = pc \<Longrightarrow> pc_ok (rs_world s) (rn_db (rs_run s i)) pc"
  by (auto simp: system_ok_def)

lemma tenant_writes_ok:
  assumes "system_ok s" "pw_cluster (rs_world s) n = Some db" "cd_tables db = Some t"
  shows "system_ok (s\<lparr>rs_world := (rs_world s)\<lparr>pw_cluster := (pw_cluster (rs_world s))(n \<mapsto> db\<lparr>cd_tables := Some t'\<rparr>)\<rparr>\<rparr>)"
proof -
  let ?w = "(rs_world s)\<lparr>pw_cluster := (pw_cluster (rs_world s))(n \<mapsto> db\<lparr>cd_tables := Some t'\<rparr>)\<rparr>"
  have m: "marked_for ?w = marked_for (rs_world s)"
    using assms(2,3) by (auto simp: fun_eq_iff marked_for_def)
  have "world_ok ?w" using assms by (auto simp: system_ok_def world_ok_def registry_ok_def m cluster_ok_def)
  moreover have "pc_ok ?w = pc_ok (rs_world s)"
    by (auto simp: fun_eq_iff pc_ok_def m registered_def split: RunPc.split)
  ultimately show ?thesis using assms(1) by (simp add: system_ok_def)
qed

lemma run_step_ok:
  assumes "run_step sha s t" "system_ok s"
  shows "system_ok t"
  using assms(1)
proof (cases rule: run_step.cases)
  case (run_locks i f r w)
  then show ?thesis
    using moved_ok [OF assms(2)] lockProvisioning_keeps [OF system_world [OF assms(2)], of sha f "rn_db (rs_run s i)"]
    by (auto simp: next_pc_def split: sum.split)
next
  case (run_registers i fs newId r w)
  have "world_ok w \<and> keeps (rs_world s) w"
    using registerOrResume_keeps [OF system_world [OF assms(2)]] run_registers(3) by (metis snd_conv)
  moreover have "pc_ok w (rn_db (rs_run s i)) (next_pc r (\<lambda>(row, _). AtRegistered (tr_id row)))"
    using run_registers(3) registerOrResume_Inr
    by (cases r) (fastforce simp: next_pc_def pc_ok_def registered_def list_ex_iff split: prod.split)+
  ultimately show ?thesis using moved_ok [OF assms(2)] run_registers(1) by simp
next
  case (run_creates i tid fs r w)
  have k: "world_ok w \<and> keeps (rs_world s) w"
    using createDatabase_keeps [OF system_world [OF assms(2)]] run_creates(3) by (metis snd_conv)
  moreover have "pc_ok w (rn_db (rs_run s i)) (next_pc r (\<lambda>_. AtCreated tid))"
    using system_pc [OF assms(2) run_creates(2)] k
    by (cases r) (auto simp: next_pc_def pc_ok_def intro: keeps_registered)
  ultimately show ?thesis using moved_ok [OF assms(2)] run_creates(1) by simp
next
  case (run_builds i tid fs roleId r w)
  have k: "world_ok w \<and> keeps (rs_world s) w"
    using initialize_keeps [OF system_world [OF assms(2)]] run_builds(3) by (metis snd_conv)
  moreover have "pc_ok w (rn_db (rs_run s i)) (next_pc r (\<lambda>_. AtBuilt tid))"
    using system_pc [OF assms(2) run_builds(2)] k run_builds(3) system_world [OF assms(2)]
    by (cases r) (auto simp: next_pc_def pc_ok_def world_ok_def intro: keeps_registered initialize_Inr)
  ultimately show ?thesis using moved_ok [OF assms(2)] run_builds(1) by simp
next
  case (run_activates i tid fs r w)
  have "world_ok w \<and> keeps (rs_world s) w"
    using activate_registered_keeps [OF system_world [OF assms(2)], of "rn_db (rs_run s i)" tid fs]
      system_pc [OF assms(2) run_activates(2)] run_activates(3) by (simp add: pc_ok_def)
  then show ?thesis using moved_ok [OF assms(2)] run_activates(1) by simp
next
  case (run_dies i)
  then show ?thesis using moved_ok [OF assms(2)] system_world [OF assms(2)] by simp
next
  case (lock_freed n)
  have "pc_ok ((rs_world s)\<lparr>pw_locks := l\<rparr>) = pc_ok (rs_world s)" for l
    by (auto simp: fun_eq_iff pc_ok_def marked_for_def registered_def split: RunPc.split)
  then show ?thesis using lock_freed assms(2) by (simp add: system_ok_def releaseLock_def locks_ok)
next
  case (tenant_writes n db t t')
  then show ?thesis using tenant_writes_ok [OF assms(2)] by simp
qed

interpretation provisioning: invariant_system
  "\<lambda>s. world_ok (rs_world s) \<and> (\<forall>i. rn_pc (rs_run s i) = AtStart)" "run_step sha" system_ok
  for sha
proof
  show "system_ok t" if "system_ok s" "run_step sha s t" for s t
    using that by (blast intro: run_step_ok)
qed (simp add: system_ok_def)

lemma marker_inject [simp]: "tenantDatabaseMarker a = tenantDatabaseMarker b \<longleftrightarrow> a = b"
  by (simp add: tenantDatabaseMarker_def)

text \<open>C10: However many provisioning runs interleave, whichever of their steps fail, die or lose their
  lock, and whatever built tenants write meanwhile: every active tenant has a database that was built
  in full and is marked for exactly its registry row, and no two active tenants share a database.\<close>

theorem provisioning_isolates_tenants:
  assumes "world_ok (rs_world s)" and "\<forall>i. rn_pc (rs_run s i) = AtStart"
    and "reaches (run_step sha) s t"
    and "a \<in> set (pw_tenants (rs_world t))" and "tr_status a = ts_active"
  shows "(\<exists>db. pw_cluster (rs_world t) (tr_databaseName a) = Some db \<and>
        cd_marker db = Some (tenantDatabaseMarker (tr_id a)) \<and> cd_tables db \<noteq> None) \<and>
     (\<forall>b \<in> set (pw_tenants (rs_world t)). tr_databaseName b = tr_databaseName a \<longrightarrow> b = a)"
proof -
  have "system_ok t" using provisioning.reachable_inv [OF _ assms(3)] assms(1,2) by simp
  then have ok: "registry_ok (rs_world t)" by (simp add: system_ok_def world_ok_def)
  then have "marked_for (rs_world t) (tr_databaseName a) (tr_id a)"
    using assms(4,5) by (simp add: registry_ok_def list_all_iff)
  moreover have "b = a" if "b \<in> set (pw_tenants (rs_world t))" "tr_databaseName b = tr_databaseName a" for b
    using that ok assms(4) by (auto simp: registry_ok_def distinct_map inj_on_def)
  ultimately show ?thesis by (auto simp: marked_for_def split: option.splits)
qed

section \<open>Retries\<close>

definition tenant_row :: "string \<Rightarrow> string \<Rightarrow> string \<Rightarrow> string \<Rightarrow> TenantStatus \<Rightarrow> TenantRecord" where
  "tenant_row tid slug name n st =
     \<lparr>tr_id = tid, tr_slug = slug, tr_name = name, tr_databaseName = n, tr_status = st\<rparr>"

definition empty_database :: ClusterDatabase where
  "empty_database = \<lparr>cd_marker = None, cd_permissions = [], cd_tables = None\<rparr>"

definition at_world :: "ProvisionWorld \<Rightarrow> TenantRecord list \<Rightarrow> (string \<Rightarrow> ClusterDatabase option) \<Rightarrow> ProvisionWorld" where
  "at_world w0 rows cl = w0\<lparr>pw_tenants := rows, pw_cluster := cl\<rparr>"

lemma at_world_simps [simp]:
  "pw_tenants (at_world w0 rows cl) = rows" "pw_cluster (at_world w0 rows cl) = cl"
  "pw_locks (at_world w0 rows cl) = pw_locks w0"
  "(at_world w0 rows cl)\<lparr>pw_tenants := rows'\<rparr> = at_world w0 rows' cl"
  "(at_world w0 rows cl)\<lparr>pw_cluster := cl'\<rparr> = at_world w0 rows cl'"
  "(at_world w0 rows cl)\<lparr>pw_locks := l\<rparr> = at_world (w0\<lparr>pw_locks := l\<rparr>) rows cl"
  "at_world (at_world w0 rows cl) rows' cl' = at_world w0 rows' cl'"
  "at_world w0 (pw_tenants w0) (pw_cluster w0) = w0"
  by (simp_all add: at_world_def)

lemma at_world_update: "w0\<lparr>pw_tenants := rows\<rparr> = at_world w0 rows (pw_cluster w0)"
  by (simp add: at_world_def)

text \<open>How far the attempts to provision one new tenant have come, from the world before the first.\<close>

inductive stage :: "string \<Rightarrow> string \<Rightarrow> string \<Rightarrow> ProvisionWorld \<Rightarrow> ProvisionWorld \<Rightarrow> bool" for slug name n w0 where
  stage_none: "stage slug name n w0 w0"
| stage_registered: "UUID tid \<Longrightarrow> tid \<notin> set (map tr_id (pw_tenants w0)) \<Longrightarrow>
    stage slug name n w0 (at_world w0 (pw_tenants w0 @ [tenant_row tid slug name n ts_provisioning]) (pw_cluster w0))"
| stage_created: "UUID tid \<Longrightarrow> tid \<notin> set (map tr_id (pw_tenants w0)) \<Longrightarrow>
    stage slug name n w0 (at_world w0 (pw_tenants w0 @ [tenant_row tid slug name n ts_provisioning]) ((pw_cluster w0)(n \<mapsto> empty_database)))"
| stage_built: "UUID tid \<Longrightarrow> tid \<notin> set (map tr_id (pw_tenants w0)) \<Longrightarrow>
    stage slug name n w0 (at_world w0 (pw_tenants w0 @ [tenant_row tid slug name n ts_provisioning]) ((pw_cluster w0)(n \<mapsto> built roleId tid)))"
| stage_active: "UUID tid \<Longrightarrow> tid \<notin> set (map tr_id (pw_tenants w0)) \<Longrightarrow>
    stage slug name n w0 (at_world w0 (pw_tenants w0 @ [tenant_row tid slug name n ts_active]) ((pw_cluster w0)(n \<mapsto> built roleId tid)))"

text \<open>The slug and the database name are free.\<close>

definition unused :: "string \<Rightarrow> string \<Rightarrow> ProvisionWorld \<Rightarrow> bool" where
  "unused slug n w \<longleftrightarrow> slug \<notin> set (map tr_slug (pw_tenants w)) \<and> n \<notin> set (map tr_databaseName (pw_tenants w)) \<and>
     pw_cluster w n = None"

lemma find_append: "find P (xs @ ys) = (case find P xs of None \<Rightarrow> find P ys | Some x \<Rightarrow> Some x)"
  by (induction xs) auto

lemma find_none: "k \<notin> f ` set rows \<Longrightarrow> find (\<lambda>r. f r = k) rows = None"
  by (auto simp: find_None_iff)

lemma set_active_other: "tid \<notin> tr_id ` set rows \<Longrightarrow> map (set_active tid) rows = rows"
  by (intro map_idI) (auto simp: set_active_def)

lemmas run_defs = provision_locked_def registerOrResume_def createDatabase_def initializeTenantDatabase_def
  activateTenant_def write_step_def tenant_constraints_def Let_def

lemma tenant_row_simps [simp]:
  "tr_id (tenant_row tid slug name n st) = tid" "tr_slug (tenant_row tid slug name n st) = slug"
  "tr_name (tenant_row tid slug name n st) = name" "tr_databaseName (tenant_row tid slug name n st) = n"
  "tr_status (tenant_row tid slug name n st) = st"
  "set_active tid (tenant_row tid slug name n st) = tenant_row tid slug name n ts_active"
  by (simp_all add: tenant_row_def set_active_def)

text \<open>The steps of one attempt in a world that has its row.\<close>

lemma finding:
  assumes "unused slug n w0" "tid \<notin> tr_id ` set (pw_tenants w0)"
  shows "find (\<lambda>r. tr_slug r = slug) (pw_tenants w0) = None"
    "find (\<lambda>r. tr_slug r = slug) (pw_tenants w0 @ [tenant_row tid slug name n st]) = Some (tenant_row tid slug name n st)"
    "find (\<lambda>r. tr_id r = tid) (pw_tenants w0 @ [tenant_row tid slug name n st]) = Some (tenant_row tid slug name n st)"
    "map (set_active tid) (pw_tenants w0 @ [tenant_row tid slug name n st]) = pw_tenants w0 @ [tenant_row tid slug name n ts_active]"
    "tenant_constraints (tenant_row tid slug name n st) (pw_tenants w0)" "pw_cluster w0 n = None"
  using assms by (auto simp: unused_def find_append find_none set_active_other tenant_constraints_def)

text \<open>From the creation of the database on, in each of the three states the database can be in.\<close>

lemma registered_steps:
  assumes "unused slug n w0" "tid \<notin> tr_id ` set (pw_tenants w0)" "UUID tid" "SAFE_DB_NAME n"
    and "W = (\<lambda>st. at_world w0 (pw_tenants w0 @ [tenant_row tid slug name n st]))"
    and "C = (\<lambda>d. (pw_cluster w0)(n \<mapsto> d))"
  shows "registerOrResume fs newId slug name n (W ts_provisioning cl) =
      (if ft_find fs \<noteq> Works then (Inl StepFailed, W ts_provisioning cl)
       else (Inr (tenant_row tid slug name n ts_provisioning, True), W ts_provisioning cl))"
    and "registerOrResume fs newId slug name n (W ts_active cl) =
      (Inl (if ft_find fs \<noteq> Works then StepFailed else ProvisionDomain (TenantAlreadyExistsError slug)), W ts_active cl)"
    and "createDatabase fs n (W ts_provisioning (pw_cluster w0)) =
      write_step (ft_create fs) () (W ts_provisioning (pw_cluster w0)) (W ts_provisioning (C empty_database))"
    and "createDatabase fs n (W ts_provisioning (C d)) =
      write_step (ft_create fs) () (W ts_provisioning (C d)) (W ts_provisioning (C d))"
    and "initializeTenantDatabase fs roleId n tid (W ts_provisioning (C empty_database)) =
      write_step (ft_build fs) () (W ts_provisioning (C empty_database)) (W ts_provisioning (C (built roleId tid)))"
    and "initializeTenantDatabase fs roleId n tid (W ts_provisioning (C (built roleId' tid))) =
      write_step (ft_build fs) () (W ts_provisioning (C (built roleId' tid))) (W ts_provisioning (C (built roleId' tid)))"
    and "activateTenant fs tid (W ts_provisioning (C d)) =
      write_step (ft_activate fs) (tenant_row tid slug name n ts_active) (W ts_provisioning (C d)) (W ts_active (C d))"
  using assms(3,4)
  by (simp_all add: assms(5,6) registerOrResume_def createDatabase_def initializeTenantDatabase_def activateTenant_def
      finding [OF assms(1,2)] Let_def empty_database_def del: map_append)

lemmas stage_rows = stage_registered stage_created stage_built stage_active

lemma provision_locked_new:
  assumes "unused slug n w0" "tid \<notin> tr_id ` set (pw_tenants w0)"
  shows "registerOrResume fs tid slug name n w0 =
      (if ft_find fs \<noteq> Works then (Inl StepFailed, w0)
       else write_step (ft_register fs) (tenant_row tid slug name n ts_provisioning, False) w0
              (at_world w0 (pw_tenants w0 @ [tenant_row tid slug name n ts_provisioning]) (pw_cluster w0)))"
  using finding [OF assms] by (simp add: registerOrResume_def Let_def tenant_row_def at_world_update)

text \<open>The tenant is there: its row is active and its database is the one a build commits.\<close>

definition provisioned :: "string \<Rightarrow> string \<Rightarrow> string \<Rightarrow> ProvisionWorld \<Rightarrow> string \<Rightarrow> ProvisionWorld \<Rightarrow> bool" where
  "provisioned slug name n w0 tid w \<longleftrightarrow>
     (\<exists>roleId. w = at_world w0 (pw_tenants w0 @ [tenant_row tid slug name n ts_active])
        ((pw_cluster w0)(n \<mapsto> built roleId tid)))"

text \<open>One attempt from a world that has the row, whatever has become of the database: it ends in a stage,
  and without faults it succeeds.\<close>

lemma provision_locked_registered:
  assumes "unused slug n w0" "tid \<notin> set (map tr_id (pw_tenants w0))" "UUID tid" "SAFE_DB_NAME n"
    and "cl = pw_cluster w0 \<or> cl = (pw_cluster w0)(n \<mapsto> empty_database) \<or> cl = (pw_cluster w0)(n \<mapsto> built roleId' tid)"
    and "w = at_world w0 (pw_tenants w0 @ [tenant_row tid slug name n ts_provisioning]) cl"
  shows "stage slug name n w0 (snd (provision_locked fs newId roleId slug name n w))"
    and "\<exists>w'. provision_locked no_faults newId roleId slug name n w =
        (Inr (toTenant (tenant_row tid slug name n ts_active), True), w') \<and> provisioned slug name n w0 tid w'"
proof -
  have notin: "tid \<notin> tr_id ` set (pw_tenants w0)" using assms(2) by simp
  note steps = registered_steps [OF assms(1) notin assms(3,4) refl refl]
    and stages = stage_rows [OF assms(3,2)]
  show "stage slug name n w0 (snd (provision_locked fs newId roleId slug name n w))"
    unfolding assms(6) provision_locked_def steps
    using assms(5) stages by (auto simp: write_step_def steps split: fault.split)
  show "\<exists>w'. provision_locked no_faults newId roleId slug name n w =
        (Inr (toTenant (tenant_row tid slug name n ts_active), True), w') \<and> provisioned slug name n w0 tid w'"
    unfolding assms(6) provision_locked_def steps
    using assms(5) by (auto simp: write_step_def no_faults_def steps provisioned_def)
qed

text \<open>The worlds of the stages: no row yet, the row being provisioned, or the active tenant.\<close>

lemma stage_cases:
  assumes "stage slug name n w0 w"
  obtains (untouched) "w = w0"
  | (registered) tid roleId' cl where "UUID tid" "tid \<notin> set (map tr_id (pw_tenants w0))"
      "cl = pw_cluster w0 \<or> cl = (pw_cluster w0)(n \<mapsto> empty_database) \<or> cl = (pw_cluster w0)(n \<mapsto> built roleId' tid)"
      "w = at_world w0 (pw_tenants w0 @ [tenant_row tid slug name n ts_provisioning]) cl"
  | (active) tid roleId' where "UUID tid" "tid \<notin> set (map tr_id (pw_tenants w0))"
      "w = at_world w0 (pw_tenants w0 @ [tenant_row tid slug name n ts_active]) ((pw_cluster w0)(n \<mapsto> built roleId' tid))"
  using assms by (cases rule: stage.cases) (metis that)+

lemma provision_locked_stage:
  assumes "unused slug n w0" "SAFE_DB_NAME n" "UUID newId" "newId \<notin> tr_id ` set (pw_tenants w0)"
    and "stage slug name n w0 w"
  shows "stage slug name n w0 (snd (provision_locked fs newId roleId slug name n w))"
  using assms(5)
proof (cases rule: stage_cases)
  case untouched
  have notin: "newId \<notin> set (map tr_id (pw_tenants w0))" using assms(4) by simp
  note steps = registered_steps [OF assms(1,4,3,2) refl refl] provision_locked_new [OF assms(1,4)]
  show ?thesis
    unfolding untouched provision_locked_def steps
    using stage_rows [OF assms(3) notin] stage.stage_none by (auto simp: write_step_def steps split: fault.split)
next
  case (registered tid roleId' cl)
  then show ?thesis using provision_locked_registered(1) [OF assms(1) _ _ assms(2)] by blast
next
  case (active tid roleId')
  then have notin: "tid \<notin> tr_id ` set (pw_tenants w0)" by simp
  note steps = registered_steps [OF assms(1) notin active(1) assms(2) refl refl]
  show ?thesis
    unfolding active(3) provision_locked_def steps using stage_rows [OF active(1,2)] by auto
qed

lemma provision_locked_succeeds:
  assumes "unused slug n w0" "SAFE_DB_NAME n" "UUID newId" "newId \<notin> tr_id ` set (pw_tenants w0)"
    and "stage slug name n w0 w"
  shows "(\<exists>tid. provisioned slug name n w0 tid w) \<or>
    (\<exists>tid w'. provision_locked no_faults newId roleId slug name n w =
        (Inr (toTenant (tenant_row tid slug name n ts_active), pw_tenants w \<noteq> pw_tenants w0), w') \<and>
      provisioned slug name n w0 tid w')"
  using assms(5)
proof (cases rule: stage_cases)
  case untouched
  note steps = registered_steps [OF assms(1,4,3,2) refl refl] provision_locked_new [OF assms(1,4)]
  show ?thesis
    unfolding untouched provision_locked_def steps
    by (rule disjI2) (auto simp: write_step_def no_faults_def steps provisioned_def intro!: exI)
next
  case (registered tid roleId' cl)
  then have "pw_tenants w \<noteq> pw_tenants w0" by simp
  with provision_locked_registered(2) [OF assms(1) registered(2,1) assms(2) registered(3,4), of newId roleId]
  show ?thesis by auto
next
  case (active tid roleId')
  then show ?thesis by (auto simp: provisioned_def)
qed

lemma stage_locks: "stage slug name n w0 w \<Longrightarrow> pw_locks w = pw_locks w0"
  by (induction rule: stage.induct) simp_all

lemma stage_relock: "stage slug name n w0 w \<Longrightarrow> stage slug name n (w0\<lparr>pw_locks := l\<rparr>) (w\<lparr>pw_locks := l\<rparr>)"
proof (induction rule: stage.induct)
  case stage_none
  show ?case by (rule stage.stage_none)
next
  case (stage_registered tid)
  then show ?case using stage_rows(1) [of tid "w0\<lparr>pw_locks := l\<rparr>" slug name n] by simp
next
  case (stage_created tid)
  then show ?case using stage_rows(2) [of tid "w0\<lparr>pw_locks := l\<rparr>" slug name n] by simp
next
  case (stage_built tid roleId)
  then show ?case using stage_rows(3) [of tid "w0\<lparr>pw_locks := l\<rparr>" slug name n roleId] by simp
next
  case (stage_active tid roleId)
  then show ?case using stage_rows(4) [of tid "w0\<lparr>pw_locks := l\<rparr>" slug name n roleId] by simp
qed

lemma tenantDatabaseName_safe: "tenantDatabaseName slug = Some n \<Longrightarrow> SAFE_DB_NAME n"
  by (auto simp: tenantDatabaseName_def Let_def split: if_splits)

lemma provisionTenant_locked:
  assumes "tenantDatabaseName slug = Some n" "provisioningLockKeys sha n \<notin> set (pw_locks w)"
  shows "provisionTenant sha fs newId roleId slug name w =
     (if ft_lock fs \<noteq> Works then (Inl StepFailed, w)
      else (case provision_locked fs newId roleId slug name n (w\<lparr>pw_locks := provisioningLockKeys sha n # pw_locks w\<rparr>) of
              (result, w2) \<Rightarrow> (result, releaseLock sha n w2)))"
  using assms by (simp add: provisionTenant_def lockProvisioning_def Let_def)

lemma release_stage:
  assumes "stage slug name n (w0\<lparr>pw_locks := provisioningLockKeys sha n # pw_locks w0\<rparr>) w"
    and "provisioningLockKeys sha n \<notin> set (pw_locks w0)"
  shows "stage slug name n w0 (releaseLock sha n w)"
proof -
  have "releaseLock sha n w = w\<lparr>pw_locks := pw_locks w0\<rparr>"
    using stage_locks [OF assms(1)] assms(2) by (simp add: releaseLock_def)
  then show ?thesis using stage_relock [OF assms(1), of "pw_locks w0"] by simp
qed

lemma provisionTenant_stage:
  assumes "tenantDatabaseName slug = Some n" "provisioningLockKeys sha n \<notin> set (pw_locks w0)"
    and "unused slug n w0" "UUID newId" "newId \<notin> tr_id ` set (pw_tenants w0)" "stage slug name n w0 w"
  shows "stage slug name n w0 (snd (provisionTenant sha fs newId roleId slug name w))"
proof -
  let ?l = "provisioningLockKeys sha n # pw_locks w0"
  have "unused slug n (w0\<lparr>pw_locks := ?l\<rparr>)" using assms(3) by (simp add: unused_def)
  then have "stage slug name n (w0\<lparr>pw_locks := ?l\<rparr>)
      (snd (provision_locked fs newId roleId slug name n (w\<lparr>pw_locks := ?l\<rparr>)))"
    using assms stage_relock [OF assms(6)] tenantDatabaseName_safe [OF assms(1)]
    by (intro provision_locked_stage) auto
  then show ?thesis
    using release_stage [OF _ assms(2)] assms(2,6) stage_locks [OF assms(6)]
    by (auto simp: provisionTenant_locked [OF assms(1)] split: prod.split)
qed

fun attempts :: "(bytes \<Rightarrow> bytes) \<Rightarrow> string \<Rightarrow> string \<Rightarrow> (Faults \<times> string \<times> string) list \<Rightarrow> ProvisionWorld \<Rightarrow> ProvisionWorld" where
  "attempts sha slug name [] w = w"
| "attempts sha slug name ((fs, newId, roleId) # rest) w =
     attempts sha slug name rest (snd (provisionTenant sha fs newId roleId slug name w))"

lemma attempts_stage:
  assumes "tenantDatabaseName slug = Some n" "provisioningLockKeys sha n \<notin> set (pw_locks w0)" "unused slug n w0"
    and "list_all (\<lambda>(_, newId, _). UUID newId \<and> newId \<notin> tr_id ` set (pw_tenants w0)) tries" "stage slug name n w0 w"
  shows "stage slug name n w0 (attempts sha slug name tries w)"
  using assms(4,5)
proof (induction tries arbitrary: w)
  case Nil
  then show ?case by simp
next
  case (Cons t rest)
  obtain fs newId roleId where "t = (fs, newId, roleId)" by (cases t)
  with Cons provisionTenant_stage [OF assms(1-3)] show ?case by auto
qed

text \<open>C11: Provisioning can be resumed from wherever it stopped. After any number of attempts, each of
  which may fail at any statement before or after it took effect, the tenant is active with its
  complete database, or one more attempt without faults makes it so and answers with the active
  tenant.\<close>

theorem provisioning_is_resumable:
  assumes "tenantDatabaseName slug = Some n" and "provisioningLockKeys sha n \<notin> set (pw_locks w0)"
    and "unused slug n w0"
    and "list_all (\<lambda>(_, newId, _). UUID newId \<and> newId \<notin> tr_id ` set (pw_tenants w0)) tries"
    and "UUID newId" and "newId \<notin> tr_id ` set (pw_tenants w0)"
    and "w = attempts sha slug name tries w0"
  shows "(\<exists>tid. provisioned slug name n w0 tid w) \<or>
    (\<exists>tid resumed w'. provisionTenant sha no_faults newId roleId slug name w =
       (Inr (\<lparr>tn_id = tid, tn_slug = slug, tn_databaseName = n, tn_status = ts_active\<rparr>, resumed), w') \<and>
     provisioned slug name n w0 tid w' \<and> (resumed \<longleftrightarrow> pw_tenants w \<noteq> pw_tenants w0))"
proof -
  let ?l = "provisioningLockKeys sha n # pw_locks w0"
  have st: "stage slug name n w0 w"
    unfolding assms(7) by (rule attempts_stage [OF assms(1-4) stage_none])
  have un: "unused slug n (w0\<lparr>pw_locks := ?l\<rparr>)" using assms(3) by (simp add: unused_def)
  have ids: "newId \<notin> tr_id ` set (pw_tenants (w0\<lparr>pw_locks := ?l\<rparr>))" using assms(6) by simp
  have unlock: "provisioned slug name n w0 tid (v\<lparr>pw_locks := pw_locks w0\<rparr>)"
    if "provisioned slug name n (w0\<lparr>pw_locks := ?l\<rparr>) tid v" for tid v
    using that by (auto simp: provisioned_def)
  note once = provision_locked_succeeds [OF un tenantDatabaseName_safe [OF assms(1)] assms(5) ids
      stage_relock [OF st], of roleId]
  have restore: "w\<lparr>pw_locks := ?l\<rparr>\<lparr>pw_locks := pw_locks w0\<rparr> = w" using stage_locks [OF st] by simp
  from once consider tid where "provisioned slug name n (w0\<lparr>pw_locks := ?l\<rparr>) tid (w\<lparr>pw_locks := ?l\<rparr>)"
    | tid w' where "provision_locked no_faults newId roleId slug name n (w\<lparr>pw_locks := ?l\<rparr>) =
        (Inr (toTenant (tenant_row tid slug name n ts_active), pw_tenants w \<noteq> pw_tenants w0), w')"
      "provisioned slug name n (w0\<lparr>pw_locks := ?l\<rparr>) tid w'"
    by auto
  then show ?thesis
  proof cases
    case 1
    then show ?thesis using unlock restore by metis
  next
    case 2
    have "releaseLock sha n w' = w'\<lparr>pw_locks := pw_locks w0\<rparr>"
      using 2(2) assms(2) by (auto simp: releaseLock_def provisioned_def)
    with 2 unlock [OF 2(2)] show ?thesis
      using provisionTenant_locked [OF assms(1), of sha w no_faults newId roleId name] assms(2) stage_locks [OF st]
      by (auto simp: no_faults_def toTenant_def)
  qed
qed

section \<open>One call, as the service makes it\<close>

lemma write_step_locks:
  "snd (write_step f r w w') = v \<Longrightarrow> pw_locks w' = pw_locks w \<Longrightarrow> pw_locks v = pw_locks w"
  using write_step_cases [of f r w w'] by auto

lemma step_locks [simp]:
  "pw_locks (snd (registerOrResume fs newId slug name n w)) = pw_locks w"
  "pw_locks (snd (createDatabase fs n w)) = pw_locks w"
  "pw_locks (snd (initializeTenantDatabase fs roleId n tid w)) = pw_locks w"
  "pw_locks (snd (activateTenant fs tid w)) = pw_locks w"
  by (auto simp: registerOrResume_def createDatabase_def initializeTenantDatabase_def activateTenant_def Let_def
      write_step_def split: option.split fault.split)

lemma activate_Inr:
  assumes "activateTenant fs tid w = (Inr row, w')"
  shows "tr_id row = tid \<and> tr_status row = ts_active \<and> row \<in> set (pw_tenants w') \<and> pw_cluster w' = pw_cluster w"
  using assms
  by (auto simp: activateTenant_def find_Some_iff dest!: write_step_Inr split: option.splits)
    (auto simp: set_active_def)

text \<open>The four steps under the lock, as one chain of worlds.\<close>

lemma provision_locked_cases:
  obtains r1 w1 where "registerOrResume fs newId slug name n w = (Inl r1, w1)"
    "provision_locked fs newId roleId slug name n w = (Inl r1, w1)"
  | row resumed w1 r2 w2 where "registerOrResume fs newId slug name n w = (Inr (row, resumed), w1)"
    "createDatabase fs n w1 = (Inl r2, w2)" "provision_locked fs newId roleId slug name n w = (Inl r2, w2)"
  | row resumed w1 w2 r3 w3 where "registerOrResume fs newId slug name n w = (Inr (row, resumed), w1)"
    "createDatabase fs n w1 = (Inr (), w2)" "initializeTenantDatabase fs roleId n (tr_id row) w2 = (Inl r3, w3)"
    "provision_locked fs newId roleId slug name n w = (Inl r3, w3)"
  | row resumed w1 w2 w3 r4 w4 where "registerOrResume fs newId slug name n w = (Inr (row, resumed), w1)"
    "createDatabase fs n w1 = (Inr (), w2)" "initializeTenantDatabase fs roleId n (tr_id row) w2 = (Inr (), w3)"
    "activateTenant fs (tr_id row) w3 = (r4, w4)"
    "provision_locked fs newId roleId slug name n w = (map_sum id (\<lambda>active. (toTenant active, resumed)) r4, w4)"
proof (cases "registerOrResume fs newId slug name n w")
  case (Pair r1 w1)
  show ?thesis
  proof (cases r1)
    case (Inl e)
    with Pair show ?thesis by (intro that(1)) (auto simp: provision_locked_def)
  next
    case (Inr reg)
    obtain row resumed where reg: "reg = (row, resumed)" by (cases reg)
    obtain r2 w2 where create: "createDatabase fs n w1 = (r2, w2)" by (cases "createDatabase fs n w1")
    obtain r3 w3 where build: "initializeTenantDatabase fs roleId n (tr_id row) w2 = (r3, w3)"
      by (cases "initializeTenantDatabase fs roleId n (tr_id row) w2")
    obtain r4 w4 where act: "activateTenant fs (tr_id row) w3 = (r4, w4)" by (cases "activateTenant fs (tr_id row) w3")
    note eqs = Pair Inr reg create build act
    show ?thesis
    proof (cases r2)
      case Inl2: (Inl e)
      with eqs show ?thesis by (intro that(2)) (auto simp: provision_locked_def)
    next
      case Inr2: (Inr u)
      show ?thesis
      proof (cases r3)
        case (Inl e)
        with eqs Inr2 show ?thesis by (intro that(3)) (auto simp: provision_locked_def)
      next
        case (Inr u3)
        with eqs Inr2 show ?thesis by (intro that(4)) (auto simp: provision_locked_def split: sum.split)
      qed
    qed
  qed
qed
lemma provision_locked_keeps:
  assumes "world_ok w"
  shows "world_ok (snd (provision_locked fs newId roleId slug name n w)) \<and>
    keeps w (snd (provision_locked fs newId roleId slug name n w))"
proof (cases rule: provision_locked_cases [of fs newId slug name n w roleId])
  case (1 r1 w1)
  then show ?thesis using registerOrResume_keeps [OF assms, of fs newId slug name n] by simp
next
  case (2 row resumed w1 r2 w2)
  then show ?thesis
    using registerOrResume_keeps [OF assms, of fs newId slug name n] createDatabase_keeps [of w1 fs n] keeps_trans by simp blast
next
  case (3 row resumed w1 w2 r3 w3)
  then show ?thesis
    using registerOrResume_keeps [OF assms, of fs newId slug name n] createDatabase_keeps [of w1 fs n]
      initialize_keeps [of w2 fs roleId n "tr_id row"] keeps_trans by simp blast
next
  case (4 row resumed w1 w2 w3 r4 w4)
  have w1: "world_ok w1 \<and> keeps w w1" using registerOrResume_keeps [OF assms, of fs newId slug name n] 4(1) by simp
  then have w2: "world_ok w2 \<and> keeps w1 w2" using createDatabase_keeps [of w1 fs n] 4(2) by simp
  then have w3: "world_ok w3 \<and> keeps w2 w3" using initialize_keeps [of w2 fs roleId n "tr_id row"] 4(3) by simp
  have "registered w1 n (tr_id row)"
    using registerOrResume_Inr [OF 4(1)] by (auto simp: registered_def list_ex_iff)
  then have "registered w3 n (tr_id row)" using w2 w3 keeps_registered by blast
  moreover have "marked_for w3 n (tr_id row)" using initialize_Inr [OF 4(3)] w2 by (simp add: world_ok_def)
  ultimately have "world_ok w4 \<and> keeps w3 w4" using activate_registered_keeps [of w3] w3 4(4) by (metis snd_conv)
  with w1 w2 w3 4(5) show ?thesis using keeps_trans by simp blast
qed

text \<open>The database a successful attempt answers with.\<close>

lemma initialize_Inr_database:
  assumes "initializeTenantDatabase fs roleId n tid w = (Inr u, w')"
  shows "pw_cluster w' n = Some (built roleId tid) \<or>
    (\<exists>db. pw_cluster w n = Some db \<and> pw_cluster w' n = Some db \<and> cd_marker db = Some (tenantDatabaseMarker tid))"
  using assms by (auto simp: initializeTenantDatabase_def Let_def dest!: write_step_Inr split: if_splits option.splits)

lemma createDatabase_before:
  assumes "createDatabase fs n w = (Inr u, w')" "pw_cluster w' n = Some db" "cd_marker db \<noteq> None"
  shows "pw_cluster w n = Some db"
  using assms by (auto simp: createDatabase_def dest!: write_step_Inr split: option.splits)

lemma registerOrResume_cluster: "pw_cluster (snd (registerOrResume fs newId slug name n w)) = pw_cluster w"
  by (auto simp: registerOrResume_def Let_def write_step_def split: option.split fault.split)

lemma provision_locked_Inr:
  assumes "world_ok w" "provision_locked fs newId roleId slug name n w = (Inr (tenant, resumed), w')"
  shows "\<exists>row db. row \<in> set (pw_tenants w') \<and> tr_slug row = slug \<and> tr_databaseName row = n \<and> tr_status row = ts_active \<and>
    tenant = toTenant row \<and> pw_cluster w' n = Some db \<and>
    (db = built roleId (tr_id row) \<or> pw_cluster w n = Some db \<and> cd_marker db = Some (tenantDatabaseMarker (tr_id row)))"
proof (cases rule: provision_locked_cases [of fs newId slug name n w roleId])
  case (4 row resumed' w1 w2 w3 r4 w4)
  then obtain active where act: "r4 = Inr active" "tenant = toTenant active" "w' = w4"
    using assms(2) by (cases r4) auto
  have w1: "world_ok w1" using registerOrResume_keeps [OF assms(1), of fs newId slug name n] 4(1) by simp
  then have w2: "world_ok w2 \<and> keeps w1 w2" using createDatabase_keeps [of w1 fs n] 4(2) by simp
  then have w3: "world_ok w3 \<and> keeps w2 w3" using initialize_keeps [of w2 fs roleId n "tr_id row"] 4(3) by simp
  have active: "tr_id active = tr_id row" "tr_status active = ts_active" "active \<in> set (pw_tenants w4)" "pw_cluster w4 = pw_cluster w3"
    using activate_Inr 4(4) act(1) by auto
  obtain row' where row': "row' \<in> set (pw_tenants w3)" "active = set_active (tr_id row) row'"
    using 4(4) act(1) by (auto intro: nth_mem simp: activateTenant_def find_Some_iff dest!: write_step_Inr split: option.splits)
  have "keeps w1 w3" using w2 w3 keeps_trans by blast
  then obtain row3 where "row3 \<in> set (pw_tenants w3)" "same_identity row row3"
    using registerOrResume_Inr [OF 4(1)] by (auto simp: keeps_def list_all_iff list_ex_iff row_kept_def)
  moreover from this have "row3 = row'"
    using row' active(1) w3 by (auto simp: same_identity_def world_ok_def registry_ok_def distinct_map inj_on_def)
  ultimately have ident: "tr_slug active = slug" "tr_databaseName active = n"
    using registerOrResume_Inr [OF 4(1)] row'(2) by (auto simp: same_identity_def)
  have "pw_cluster w1 = pw_cluster w"
    using registerOrResume_cluster [of fs newId slug name n w] 4(1) by simp
  with initialize_Inr_database [OF 4(3)] createDatabase_before [OF 4(2)] active ident act show ?thesis
    by (intro exI [of _ active]) fastforce
qed (use assms(2) in auto)
lemma provision_locked_locks: "pw_locks (snd (provision_locked fs newId roleId slug name n w)) = pw_locks w"
proof (cases rule: provision_locked_cases [of fs newId slug name n w roleId])
  case (1 r1 w1)
  then show ?thesis using step_locks(1) [of fs newId slug name n w] by simp
next
  case (2 row resumed w1 r2 w2)
  then show ?thesis using step_locks(1) [of fs newId slug name n w] step_locks(2) [of fs n w1] by simp
next
  case (3 row resumed w1 w2 r3 w3)
  then show ?thesis
    using step_locks(1) [of fs newId slug name n w] step_locks(2) [of fs n w1] step_locks(3) [of fs roleId n "tr_id row" w2]
    by simp
next
  case (4 row resumed w1 w2 w3 r4 w4)
  then show ?thesis
    using step_locks(1) [of fs newId slug name n w] step_locks(2) [of fs n w1] step_locks(3) [of fs roleId n "tr_id row" w2]
      step_locks(4) [of fs "tr_id row" w3] by simp
qed

lemma provisionTenant_effects:
  assumes "world_ok w" and "provisionTenant sha fs newId roleId slug name w = (r, w')"
  shows "world_ok w' \<and> keeps w w' \<and> pw_locks w' = pw_locks w \<and>
    (case r of
       Inl _ \<Rightarrow> True
     | Inr (tenant, resumed) \<Rightarrow>
         tn_slug tenant = slug \<and> tn_status tenant = ts_active \<and>
         tenantDatabaseName slug = Some (tn_databaseName tenant) \<and>
         (\<exists>db. pw_cluster w' (tn_databaseName tenant) = Some db \<and>
            (db = built roleId (tn_id tenant) \<or>
             pw_cluster w (tn_databaseName tenant) = Some db \<and>
             cd_marker db = Some (tenantDatabaseMarker (tn_id tenant)))))"
proof (cases "tenantDatabaseName slug")
  case None
  with assms show ?thesis by (auto simp: provisionTenant_def)
next
  case (Some n)
  let ?key = "provisioningLockKeys sha n"
  show ?thesis
  proof (cases "ft_lock fs \<noteq> Works \<or> ?key \<in> set (pw_locks w)")
    case True
    with assms Some show ?thesis by (auto simp: provisionTenant_def lockProvisioning_def Let_def split: if_splits)
  next
    case False
    let ?w1 = "w\<lparr>pw_locks := ?key # pw_locks w\<rparr>"
    obtain w2 where run: "provision_locked fs newId roleId slug name n ?w1 = (r, w2)" "w' = releaseLock sha n w2"
      using assms(2) provisionTenant_locked [OF Some, of sha w fs newId roleId name] False
      by (auto split: prod.splits)
    have ok: "world_ok ?w1" using assms(1) by (simp add: locks_ok)
    have w2: "world_ok w2 \<and> keeps ?w1 w2" using provision_locked_keeps [OF ok] run(1) by (metis snd_conv)
    have "keeps w w'"
      using w2 keeps_trans [OF locks_ok(2) keeps_trans [OF _ locks_ok(2)]] run(2) by (auto simp: releaseLock_def)
    moreover have "pw_locks w' = pw_locks w"
      using provision_locked_locks [of fs newId roleId slug name n ?w1] run False by (simp add: releaseLock_def)
    ultimately show ?thesis
      using w2 run(2) provision_locked_Inr [OF ok] run(1) Some
      by (cases r) (fastforce simp: releaseLock_def locks_ok toTenant_def)+
  qed
qed

text \<open>C14: One provisioning call, with any faults, never adopts data it did not build: every
  database that holds tenant tables is left exactly as it was, no registry row is lost or renamed, its
  lock is free again, and an answer names an active tenant whose database is the one this call built or
  already carried the marker of its row.\<close>

theorem provisionTenant_never_adopts:
  assumes "world_ok w" and "provisionTenant sha fs newId roleId slug name w = (r, w')"
  shows "world_ok w' \<and> keeps w w' \<and> pw_locks w' = pw_locks w \<and>
    (case r of
       Inl _ \<Rightarrow> True
     | Inr (tenant, resumed) \<Rightarrow>
         tn_slug tenant = slug \<and> tn_status tenant = ts_active \<and>
         tenantDatabaseName slug = Some (tn_databaseName tenant) \<and>
         (\<exists>db. pw_cluster w' (tn_databaseName tenant) = Some db \<and>
            (db = built roleId (tn_id tenant) \<or>
             pw_cluster w (tn_databaseName tenant) = Some db \<and>
             cd_marker db = Some (tenantDatabaseMarker (tn_id tenant)))))"
  by (rule provisionTenant_effects [OF assms])

definition demo_sha :: "bytes \<Rightarrow> bytes" where
  "demo_sha bs = [0, 0, 0, 7]"

definition demo_id :: string where
  "demo_id = ''11111111-1111-4111-8111-111111111111''"

definition demo_world :: ProvisionWorld where
  "demo_world = \<lparr>pw_tenants = [], pw_cluster = Map.empty, pw_locks = []\<rparr>"

lemma demo_id_UUID [simp]: "UUID demo_id"
  by code_simp

lemma demo_name [simp]: "tenantDatabaseName ''acme'' = Some ''tenant_acme''"
  by code_simp

lemma demo_world_ok [simp]: "world_ok demo_world"
  by (simp add: demo_world_def world_defs)

lemma demo_unused [simp]: "unused ''acme'' ''tenant_acme'' demo_world"
  by (simp add: demo_world_def unused_def)

lemma demo_world_empty [simp]: "pw_tenants demo_world = []" "pw_locks demo_world = []"
  by (simp_all add: demo_world_def)

lemma provisionTenant_never_adopts_witness:
  "world_ok (snd (provisionTenant demo_sha no_faults demo_id ''r1'' ''acme'' ''Acme'' demo_world)) \<and>
   keeps demo_world (snd (provisionTenant demo_sha no_faults demo_id ''r1'' ''acme'' ''Acme'' demo_world))"
  using provisionTenant_never_adopts [OF demo_world_ok, of demo_sha no_faults demo_id "''r1''" "''acme''" "''Acme''"]
  by (cases "provisionTenant demo_sha no_faults demo_id ''r1'' ''acme'' ''Acme'' demo_world") auto

text \<open>The build is committed and its answer lost; the next attempt resumes.\<close>

lemma provisioning_is_resumable_witness:
  "\<exists>tid w'. provisionTenant demo_sha no_faults demo_id ''r2'' ''acme'' ''Acme''
      (attempts demo_sha ''acme'' ''Acme'' [(no_faults\<lparr>ft_build := FailsAfter\<rparr>, demo_id, ''r1'')] demo_world) =
    (Inr (\<lparr>tn_id = tid, tn_slug = ''acme'', tn_databaseName = ''tenant_acme'', tn_status = ts_active\<rparr>, True), w') \<and>
    provisioned ''acme'' ''Acme'' ''tenant_acme'' demo_world tid w'"
proof -
  let ?w = "attempts demo_sha ''acme'' ''Acme'' [(no_faults\<lparr>ft_build := FailsAfter\<rparr>, demo_id, ''r1'')] demo_world"
  have rows: "map tr_status (pw_tenants ?w) = [ts_provisioning]"
    by code_simp
  then have "pw_tenants ?w \<noteq> pw_tenants demo_world" "\<not> provisioned ''acme'' ''Acme'' ''tenant_acme'' demo_world tid ?w" for tid
    by (auto simp: provisioned_def)
  with provisioning_is_resumable [OF demo_name, where sha = demo_sha and ?w0.0 = demo_world and newId = demo_id
      and tries = "[(no_faults\<lparr>ft_build := FailsAfter\<rparr>, demo_id, ''r1'')]" and name = "''Acme''" and w = ?w and roleId = "''r2''"]
  show ?thesis by simp
qed
text \<open>A whole run, from the empty cluster to the active tenant.\<close>

definition demo_runs :: RunSystem where
  "demo_runs = \<lparr>rs_world = demo_world,
     rs_run = (\<lambda>_. \<lparr>rn_slug = ''acme'', rn_name = ''Acme'', rn_db = ''tenant_acme'', rn_pc = AtStart\<rparr>)\<rparr>"

definition demo_row :: "TenantStatus \<Rightarrow> TenantRecord" where
  "demo_row = tenant_row demo_id ''acme'' ''Acme'' ''tenant_acme''"

definition demo_at :: "RunPc \<Rightarrow> TenantRecord list \<Rightarrow> (string \<Rightarrow> ClusterDatabase option) \<Rightarrow> RunSystem" where
  "demo_at pc rows cl =
     moved demo_runs 0 \<lparr>pw_tenants = rows, pw_cluster = cl, pw_locks = [provisioningLockKeys demo_sha ''tenant_acme'']\<rparr> pc"

lemma demo_at_simps [simp]:
  "rn_pc (rs_run (demo_at pc rows cl) 0) = pc" "rn_db (rs_run (demo_at pc rows cl) 0) = ''tenant_acme''"
  "rn_slug (rs_run (demo_at pc rows cl) 0) = ''acme''" "rn_name (rs_run (demo_at pc rows cl) 0) = ''Acme''"
  "rs_world (demo_at pc rows cl) = \<lparr>pw_tenants = rows, pw_cluster = cl, pw_locks = [provisioningLockKeys demo_sha ''tenant_acme'']\<rparr>"
  "moved (demo_at pc rows cl) 0 \<lparr>pw_tenants = rows', pw_cluster = cl', pw_locks = [provisioningLockKeys demo_sha ''tenant_acme'']\<rparr> pc' =
     demo_at pc' rows' cl'"
  by (simp_all add: demo_at_def moved_def demo_runs_def)

lemma demo_run:
  "run_step demo_sha demo_runs (demo_at AtLocked [] Map.empty)"
  "run_step demo_sha (demo_at AtLocked [] Map.empty) (demo_at (AtRegistered demo_id) [demo_row ts_provisioning] Map.empty)"
  "run_step demo_sha (demo_at (AtRegistered demo_id) [demo_row ts_provisioning] Map.empty)
     (demo_at (AtCreated demo_id) [demo_row ts_provisioning] [''tenant_acme'' \<mapsto> empty_database])"
  "run_step demo_sha (demo_at (AtCreated demo_id) [demo_row ts_provisioning] [''tenant_acme'' \<mapsto> empty_database])
     (demo_at (AtBuilt demo_id) [demo_row ts_provisioning] [''tenant_acme'' \<mapsto> built ''r1'' demo_id])"
  "run_step demo_sha (demo_at (AtBuilt demo_id) [demo_row ts_provisioning] [''tenant_acme'' \<mapsto> built ''r1'' demo_id])
     (demo_at AtEnd [demo_row ts_active] [''tenant_acme'' \<mapsto> built ''r1'' demo_id])"
proof -
  have safe: "SAFE_DB_NAME ''tenant_acme''" by (rule tenantDatabaseName_safe [OF demo_name])
  note steps = lockProvisioning_def registerOrResume_def createDatabase_def initializeTenantDatabase_def
    activateTenant_def write_step_def no_faults_def next_pc_def Let_def tenant_constraints_def safe
    demo_row_def tenant_row_def set_active_def empty_database_def
  show "run_step demo_sha demo_runs (demo_at AtLocked [] Map.empty)"
    using run_locks [of demo_runs 0 demo_sha Works] by (simp add: steps demo_runs_def demo_world_def demo_at_def)
  show "run_step demo_sha (demo_at AtLocked [] Map.empty) (demo_at (AtRegistered demo_id) [demo_row ts_provisioning] Map.empty)"
    using run_registers [of "demo_at AtLocked [] Map.empty" 0 no_faults demo_id _ _ demo_sha] by (simp add: steps)
  show "run_step demo_sha (demo_at (AtRegistered demo_id) [demo_row ts_provisioning] Map.empty)
     (demo_at (AtCreated demo_id) [demo_row ts_provisioning] [''tenant_acme'' \<mapsto> empty_database])"
    using run_creates [of "demo_at (AtRegistered demo_id) [demo_row ts_provisioning] Map.empty" 0 demo_id no_faults _ _ demo_sha]
    by (simp add: steps)
  show "run_step demo_sha (demo_at (AtCreated demo_id) [demo_row ts_provisioning] [''tenant_acme'' \<mapsto> empty_database])
     (demo_at (AtBuilt demo_id) [demo_row ts_provisioning] [''tenant_acme'' \<mapsto> built ''r1'' demo_id])"
    using run_builds [of "demo_at (AtCreated demo_id) [demo_row ts_provisioning] [''tenant_acme'' \<mapsto> empty_database]" 0 demo_id
        no_faults "''r1''" _ _ demo_sha] by (simp add: steps)
  show "run_step demo_sha (demo_at (AtBuilt demo_id) [demo_row ts_provisioning] [''tenant_acme'' \<mapsto> built ''r1'' demo_id])
     (demo_at AtEnd [demo_row ts_active] [''tenant_acme'' \<mapsto> built ''r1'' demo_id])"
    using run_activates [of "demo_at (AtBuilt demo_id) [demo_row ts_provisioning] [''tenant_acme'' \<mapsto> built ''r1'' demo_id]" 0 demo_id
        no_faults _ _ demo_sha] by (simp add: steps)
qed

lemma provisioning_isolates_tenants_witness:
  "reaches (run_step demo_sha) demo_runs (demo_at AtEnd [demo_row ts_active] [''tenant_acme'' \<mapsto> built ''r1'' demo_id]) \<and>
   (\<exists>db. pw_cluster (rs_world (demo_at AtEnd [demo_row ts_active] [''tenant_acme'' \<mapsto> built ''r1'' demo_id])) ''tenant_acme'' = Some db \<and>
     cd_marker db = Some (tenantDatabaseMarker demo_id) \<and> cd_tables db \<noteq> None)"
proof -
  let ?t = "demo_at AtEnd [demo_row ts_active] [''tenant_acme'' \<mapsto> built ''r1'' demo_id]"
  have r: "reaches (run_step demo_sha) demo_runs ?t"
    using demo_run by (meson reaches_single reaches_step)
  have start: "world_ok (rs_world demo_runs)" "\<forall>i. rn_pc (rs_run demo_runs i) = AtStart"
    by (simp_all add: demo_runs_def)
  show ?thesis
    using r provisioning_isolates_tenants [OF start r, of "demo_row ts_active"] by (auto simp: demo_row_def)
qed
section \<open>Slugs\<close>

text \<open>The pattern of \<open>ProvisionTenantDto\<close>: a lower-case letter, then 1 to 40 of \<open>a-z0-9-\<close>.\<close>

definition slug_char :: "char \<Rightarrow> bool" where
  "slug_char c \<longleftrightarrow> lower_alpha c \<or> is_digit c \<or> c = CHR ''-''"

definition slug_pattern :: "string \<Rightarrow> bool" where
  "slug_pattern s \<longleftrightarrow>
     (case s of
        [] \<Rightarrow> False
      | c # cs \<Rightarrow> lower_alpha c \<and> list_all slug_char cs \<and> 1 \<le> length cs \<and> length cs \<le> 40)"

definition dashed :: "char \<Rightarrow> char" where
  "dashed c = (if c = CHR ''-'' then CHR ''_'' else c)"

lemma slug_char_facts:
  assumes "slug_char c"
  shows "lower_char c = c" and "(if name_char c then c else CHR ''_'') = dashed c" and "name_char (dashed c)" and "c \<noteq> CHR ''_''"
  using assms
  by (auto simp: slug_char_def name_char_def dashed_def lower_alpha_def is_digit_def lower_char_def code_unit_def)

lemma slug_pattern_chars: "slug_pattern s \<Longrightarrow> list_all slug_char s \<and> length s \<le> 41 \<and> s \<noteq> []"
  by (cases s) (auto simp: slug_pattern_def slug_char_def)

lemma tenantDatabaseName_slug:
  assumes "slug_pattern s"
  shows "tenantDatabaseName s = Some (''tenant_'' @ map dashed s)"
proof -
  have chars: "list_all slug_char s" "length s \<le> 41" using slug_pattern_chars [OF assms] by auto
  have lower: "toLowerCase s = s"
    using chars(1) slug_char_facts(1) by (auto simp: toLowerCase_def list_all_iff intro!: map_idI)
  have mapped: "map (\<lambda>c. if name_char c then c else CHR ''_'') s = map dashed s"
    using chars(1) slug_char_facts(2) by (auto simp: list_all_iff)
  have prefix: "toLowerCase ''tenant_'' = ''tenant_''" "map (\<lambda>c. if name_char c then c else CHR ''_'') ''tenant_'' = ''tenant_''"
      "lower_alpha (CHR ''t'')" "list_all name_char ''enant_''"
    by code_simp+
  have "list_all name_char (map dashed s)" using chars(1) slug_char_facts(3) by (auto simp: list_all_iff)
  then have "SAFE_DB_NAME (''tenant_'' @ map dashed s)" using prefix(3,4) chars(2) by (simp add: SAFE_DB_NAME_def)
  then show ?thesis
    unfolding tenantDatabaseName_def toLowerCase_append prefix(1) lower map_append prefix(2) mapped by simp
qed

lemma dashed_inj: "slug_char c \<Longrightarrow> slug_char d \<Longrightarrow> dashed c = dashed d \<Longrightarrow> c = d"
  using slug_char_facts(4) by (auto simp: dashed_def split: if_splits)

text \<open>C37: Every slug the API accepts gets a database of its own: its name passes the identifier check, so
  provisioning never refuses it for its name, and two accepted slugs have the same database name only
  if they are the same slug.\<close>

theorem slugs_get_own_databases:
  assumes "slug_pattern s" and "slug_pattern t"
  shows "tenantDatabaseName s \<noteq> None \<and> (tenantDatabaseName s = tenantDatabaseName t \<longleftrightarrow> s = t)"
proof -
  have "map dashed s = map dashed t \<Longrightarrow> s = t"
    using assms [THEN slug_pattern_chars] by (intro map_inj_on [of dashed s t]) (auto simp: list_all_iff inj_on_def dashed_inj)
  then show ?thesis using assms by (auto simp: tenantDatabaseName_slug)
qed

theorem slugs_get_own_databases_witness:
  "tenantDatabaseName ''acme-2'' \<noteq> None \<and> tenantDatabaseName ''acme-2'' \<noteq> tenantDatabaseName ''acme2''"
proof -
  have "slug_pattern ''acme-2''" "slug_pattern ''acme2''" by code_simp+
  from slugs_get_own_databases [OF this] show ?thesis by simp
qed

text \<open>A slug can look like a UUID. Such a tenant is resolved by its id only: its slug is taken for an id.\<close>

lemma uuid_slug_not_resolved:
  assumes "UUID slug" and "toLowerCase slug \<notin> tr_id ` set rows"
  shows "resolveTenant rows slug = Inl (TenantNotFoundError slug)"
  using assms find_none [of "toLowerCase slug" tr_id rows] by (simp add: resolveTenant_def)

lemma uuid_slug_accepted:
  "slug_pattern ''abcdef01-2345-4345-8345-0123456789ab'' \<and> UUID ''abcdef01-2345-4345-8345-0123456789ab''"
  by code_simp

end
