(* ===== verification/Key_Material.thy ===== *)
theory Key_Material
  imports Kit_Common Base64url
begin

text \<open>
  Envelope encryption and the loading of stored keys: \<open>packages/crypto/src/key-provider.ts\<close>,
  \<open>key-material.ts\<close> and \<open>key-loading.ts\<close>. AES-256-GCM is a record of two functions (seal
  and open); jose's key import and export are a record of three. A PEM text is the bytes that
  encode it.
\<close>

section \<open>The local key provider\<close>

record Gcm =
  gc_seal :: "bytes \<Rightarrow> bytes \<Rightarrow> bytes \<Rightarrow> bytes \<Rightarrow> bytes \<times> bytes"
  gc_open :: "bytes \<Rightarrow> bytes \<Rightarrow> bytes \<Rightarrow> bytes \<Rightarrow> bytes \<Rightarrow> bytes option"

record KeyContext =
  kc_purpose :: string
  kc_kid :: string

definition aad :: "KeyContext \<Rightarrow> bytes" where
  "aad context = utf8 (''v1:'' @ kc_purpose context @ '':'' @ kc_kid context)"

definition KEK_BYTES :: nat where
  "KEK_BYTES = 32"

definition IV_BYTES :: nat where
  "IV_BYTES = 12"

definition TAG_BYTES :: nat where
  "TAG_BYTES = 16"

record LocalKeyProvider =
  kp_id :: string
  kp_kek :: bytes

definition newLocalKeyProvider :: "bytes \<Rightarrow> string + LocalKeyProvider" where
  "newLocalKeyProvider kek =
     (if length kek \<noteq> KEK_BYTES
      then Inl (''Key-encrypting key must be exactly 32 bytes, got '' @ show_nat (length kek))
      else Inr \<lparr>kp_id = ''local'', kp_kek = kek\<rparr>)"

text \<open>The random initialisation vector is an argument.\<close>

definition wrap :: "Gcm \<Rightarrow> LocalKeyProvider \<Rightarrow> bytes \<Rightarrow> bytes \<Rightarrow> KeyContext \<Rightarrow> bytes" where
  "wrap gcm provider iv plaintext context =
     (case gc_seal gcm (kp_kek provider) iv (aad context) plaintext of
        (body, tag) \<Rightarrow> iv @ body @ tag)"

definition unwrap :: "Gcm \<Rightarrow> LocalKeyProvider \<Rightarrow> bytes \<Rightarrow> KeyContext \<Rightarrow> bytes option" where
  "unwrap gcm provider ciphertext context =
     (if length ciphertext \<le> IV_BYTES + TAG_BYTES then None
      else
        let iv = take IV_BYTES ciphertext;
            body = drop IV_BYTES (take (length ciphertext - TAG_BYTES) ciphertext);
            tag = drop (length ciphertext - TAG_BYTES) ciphertext
        in gc_open gcm (kp_kek provider) iv (aad context) body tag)"

section \<open>Key material\<close>

definition SIGNING_ALG :: string where
  "SIGNING_ALG = ''ES256''"

definition ENCRYPTION_ALG :: string where
  "ENCRYPTION_ALG = ''A256KW''"

definition ENCRYPTION_KEY_BYTES :: nat where
  "ENCRYPTION_KEY_BYTES = 32"

definition token_signing :: string where
  "token_signing = ''token_signing''"

definition token_encryption :: string where
  "token_encryption = ''token_encryption''"

type_synonym JWK = "(string \<times> json) list"

text \<open>\<open>importPKCS8\<close> followed by \<open>exportJWK\<close> (all members), \<open>importPKCS8\<close>, and \<open>importJWK\<close>, whose
  result is a public key or symmetric bytes. None is a throw.\<close>

record ('priv, 'pub) Jose =
  jo_exportPrivate :: "bytes \<Rightarrow> JWK option"
  jo_importPkcs8 :: "bytes \<Rightarrow> 'priv option"
  jo_importJwk :: "JWK \<Rightarrow> ('pub + bytes) option"

definition EC_MEMBERS :: "string list" where
  "EC_MEMBERS = [''kty'', ''crv'', ''x'', ''y'']"

definition derivePublicJwk :: "('priv, 'pub, 'z) Jose_scheme \<Rightarrow> bytes \<Rightarrow> JWK option" where
  "derivePublicJwk jose privatePkcs8 =
     map_option (\<lambda>jwk. filter (\<lambda>(k, v). k \<in> set EC_MEMBERS) jwk) (jo_exportPrivate jose privatePkcs8)"

definition sameKeyMaterial :: "JWK \<Rightarrow> JWK \<Rightarrow> bool" where
  "sameKeyMaterial a b \<longleftrightarrow>
     jget a ''kty'' = jget b ''kty'' \<and> jget a ''crv'' = jget b ''crv'' \<and>
     jget a ''x'' = jget b ''x'' \<and> jget a ''y'' = jget b ''y''"

definition importVerificationKey :: "('priv, 'pub, 'z) Jose_scheme \<Rightarrow> JWK \<Rightarrow> 'pub option" where
  "importVerificationKey jose publicJwk =
     (case jo_importJwk jose publicJwk of Some (Inl key) \<Rightarrow> Some key | _ \<Rightarrow> None)"

section \<open>Loading a stored row\<close>

datatype load_error =
    NoKeyMaterial
  | WrongKek string string
  | WrongAlgorithm string
  | UnwrapFailed
  | ImportFailed
  | NoPublicJwk
  | NotThePublicHalf
  | WrongJwkKid
  | WrongJwkAlg
  | WrongJwkUse
  | PrivateMembers "string list"
  | WrongKeyLength nat
  | UnknownPurpose string

datatype KeyState = ks_pending | ks_active | ks_retiring | ks_revoked

record StoredKeyRow =
  kr_kid :: string
  kr_purpose :: string
  kr_algorithm :: string
  kr_state :: KeyState
  kr_wrappedKey :: "bytes option"
  kr_kekId :: string
  kr_publicJwk :: "json option"
  kr_notAfter :: "int option"
  kr_retiringAt :: "int option"
  kr_revokedAt :: "int option"
  kr_revokedReason :: "string option"

datatype ('priv, 'pub) LoadedKey =
    LoadedSigningKey string 'priv 'pub JWK
  | LoadedEncryptionKey string bytes

definition PRIVATE_MEMBERS :: "string list" where
  "PRIVATE_MEMBERS = [''d'', ''p'', ''q'', ''dp'', ''dq'', ''qi'', ''oth'', ''k'']"

definition trustedPublicJwk :: "StoredKeyRow \<Rightarrow> JWK \<Rightarrow> load_error + JWK" where
  "trustedPublicJwk row derived =
     (case kr_publicJwk row of
        Some (JObj jwk) \<Rightarrow>
          if \<not> sameKeyMaterial derived jwk then Inl NotThePublicHalf
          else if jget jwk ''kid'' \<noteq> Some (JStr (kr_kid row)) then Inl WrongJwkKid
          else if jget jwk ''alg'' \<noteq> None \<and> jget jwk ''alg'' \<noteq> Some (JStr SIGNING_ALG) then Inl WrongJwkAlg
          else if jget jwk ''use'' \<noteq> None \<and> jget jwk ''use'' \<noteq> Some (JStr ''sig'') then Inl WrongJwkUse
          else
            let leaked = filter (\<lambda>m. jget jwk m \<noteq> None) PRIVATE_MEMBERS in
            if leaked \<noteq> [] then Inl (PrivateMembers leaked)
            else Inr (derived @ [(''kid'', JStr (kr_kid row)), (''alg'', JStr SIGNING_ALG), (''use'', JStr ''sig'')])
      | _ \<Rightarrow> Inl NoPublicJwk)"

definition loadStoredKey ::
    "Gcm \<Rightarrow> ('priv, 'pub, 'z) Jose_scheme \<Rightarrow> LocalKeyProvider \<Rightarrow> StoredKeyRow \<Rightarrow> load_error + ('priv, 'pub) LoadedKey" where
  "loadStoredKey gcm jose provider row =
     (case kr_wrappedKey row of
        None \<Rightarrow> Inl NoKeyMaterial
      | Some wrapped \<Rightarrow>
          if kr_kekId row \<noteq> kp_id provider then Inl (WrongKek (kr_kekId row) (kp_id provider))
          else
            let context = \<lparr>kc_purpose = kr_purpose row, kc_kid = kr_kid row\<rparr> in
            if kr_purpose row = token_signing then
              if kr_algorithm row \<noteq> SIGNING_ALG then Inl (WrongAlgorithm (kr_algorithm row))
              else
                (case unwrap gcm provider wrapped context of
                   None \<Rightarrow> Inl UnwrapFailed
                 | Some privatePkcs8 \<Rightarrow>
                     (case derivePublicJwk jose privatePkcs8 of
                        None \<Rightarrow> Inl ImportFailed
                      | Some derived \<Rightarrow>
                          (case trustedPublicJwk row derived of
                             Inl e \<Rightarrow> Inl e
                           | Inr publicJwk \<Rightarrow>
                               (case (jo_importPkcs8 jose privatePkcs8, importVerificationKey jose publicJwk) of
                                  (Some priv, Some pub) \<Rightarrow>
                                    Inr (LoadedSigningKey (kr_kid row) priv pub publicJwk)
                                | _ \<Rightarrow> Inl ImportFailed))))
            else if kr_purpose row = token_encryption then
              if kr_algorithm row \<noteq> ENCRYPTION_ALG then Inl (WrongAlgorithm (kr_algorithm row))
              else
                (case unwrap gcm provider wrapped context of
                   None \<Rightarrow> Inl UnwrapFailed
                 | Some secret \<Rightarrow>
                     if length secret \<noteq> ENCRYPTION_KEY_BYTES then Inl (WrongKeyLength (length secret))
                     else Inr (LoadedEncryptionKey (kr_kid row) secret))
            else Inl (UnknownPurpose (kr_purpose row)))"

definition isKeyUsable :: "KeyState \<Rightarrow> int option \<Rightarrow> int \<Rightarrow> bool" where
  "isKeyUsable state notAfter now \<longleftrightarrow>
     \<not> (state = ks_revoked \<or> state = ks_pending) \<and>
     \<not> (case notAfter of None \<Rightarrow> False | Some t \<Rightarrow> t \<le> now)"

section \<open>What GCM is assumed to do\<close>

text \<open>Opening undoes sealing, the tag has sixteen bytes and the body the length of the plaintext.\<close>

definition gcm_correct :: "Gcm \<Rightarrow> bool" where
  "gcm_correct gcm \<longleftrightarrow>
     (\<forall>kek iv a p. case gc_seal gcm kek iv a p of
        (body, tag) \<Rightarrow> length tag = TAG_BYTES \<and> length body = length p \<and>
          gc_open gcm kek iv a body tag = Some p)"

text \<open>What was sealed with the additional data \<open>a\<close> is refused with other additional data \<open>a'\<close>.\<close>

definition gcm_rejects :: "Gcm \<Rightarrow> bytes \<Rightarrow> bytes \<Rightarrow> bytes \<Rightarrow> bytes \<Rightarrow> bytes \<Rightarrow> bool" where
  "gcm_rejects gcm kek iv a p a' \<longleftrightarrow>
     (a' \<noteq> a \<longrightarrow> (case gc_seal gcm kek iv a p of (body, tag) \<Rightarrow> gc_open gcm kek iv a' body tag = None))"

lemma aad_inject:
  assumes "CHR '':'' \<notin> set (kc_purpose c)" and "CHR '':'' \<notin> set (kc_purpose c')"
  shows "aad c = aad c' \<longleftrightarrow> kc_purpose c = kc_purpose c' \<and> kc_kid c = kc_kid c'"
  using split_at_first_sep [of "kc_purpose c" "CHR '':''" "kc_kid c" "kc_purpose c'" "kc_kid c'"] assms
  by (auto simp: aad_def simp del: utf8_append)

lemma gcm_correct_sealed:
  assumes "gcm_correct gcm" and "gc_seal gcm kek iv a p = (body, tag)"
  shows "length tag = TAG_BYTES" and "length body = length p" and "gc_open gcm kek iv a body tag = Some p"
  using assms unfolding gcm_correct_def by (metis (mono_tags, lifting) case_prod_conv)+

lemma unwrap_wrap:
  assumes "gc_seal gcm (kp_kek provider) iv (aad c) p = (body, tag)" and "length iv = IV_BYTES"
    and "length tag = TAG_BYTES" and "body \<noteq> []"
  shows "unwrap gcm provider (wrap gcm provider iv p c) c' = gc_open gcm (kp_kek provider) iv (aad c') body tag"
  using assms by (auto simp: unwrap_def wrap_def Let_def)

text \<open>C27: Wrapped key material comes back from its own slot and from no other: unwrapping what was
  wrapped returns the material when purpose and key id are the ones it was wrapped for, and, as
  GCM refuses changed additional data, fails for any other purpose or key id, so a ciphertext
  cannot be moved to another registry row.\<close>

theorem unwrap_wrap_iff:
  assumes "gcm_correct gcm" and "gcm_rejects gcm (kp_kek provider) iv (aad c) p (aad c')"
    and "length iv = IV_BYTES" and "p \<noteq> []"
    and "CHR '':'' \<notin> set (kc_purpose c)" and "CHR '':'' \<notin> set (kc_purpose c')"
  shows "unwrap gcm provider (wrap gcm provider iv p c) c' =
     (if kc_purpose c' = kc_purpose c \<and> kc_kid c' = kc_kid c then Some p else None)"
proof -
  obtain body tag where s: "gc_seal gcm (kp_kek provider) iv (aad c) p = (body, tag)"
    by (cases "gc_seal gcm (kp_kek provider) iv (aad c) p")
  note ok = gcm_correct_sealed [OF assms(1) s]
  have "body \<noteq> []" using ok(2) assms(4) by auto
  then have "unwrap gcm provider (wrap gcm provider iv p c) c' = gc_open gcm (kp_kek provider) iv (aad c') body tag"
    by (rule unwrap_wrap [OF s assms(3) ok(1)])
  moreover have "gc_open gcm (kp_kek provider) iv (aad c') body tag = (if aad c' = aad c then Some p else None)"
    using ok(3) assms(2) by (auto simp: gcm_rejects_def s)
  ultimately show ?thesis using aad_inject [OF assms(6,5)] by simp
qed

text \<open>A transparent cipher with a checksum of the additional data as its tag, for running the
  definitions.\<close>

definition demo_gcm :: Gcm where
  "demo_gcm =
     \<lparr>gc_seal = (\<lambda>kek iv a p. (p, replicate 15 0 @ [foldr (+) a 0])),
      gc_open = (\<lambda>kek iv a body tag. if tag = replicate 15 0 @ [foldr (+) a 0] then Some body else None)\<rparr>"

definition demo_provider :: LocalKeyProvider where
  "demo_provider = \<lparr>kp_id = ''local'', kp_kek = replicate 32 7\<rparr>"

lemma demo_gcm_correct: "gcm_correct demo_gcm"
  by (simp add: gcm_correct_def demo_gcm_def TAG_BYTES_def)

theorem unwrap_wrap_iff_witness:
  "unwrap demo_gcm demo_provider
     (wrap demo_gcm demo_provider (replicate 12 0) [1, 2] \<lparr>kc_purpose = ''token_signing'', kc_kid = ''k1''\<rparr>)
     \<lparr>kc_purpose = ''token_signing'', kc_kid = ''k2''\<rparr> = None"
proof -
  let ?c = "\<lparr>kc_purpose = ''token_signing'', kc_kid = ''k1''\<rparr>"
  let ?c' = "\<lparr>kc_purpose = ''token_signing'', kc_kid = ''k2''\<rparr>"
  have "foldr (+) (aad ?c) 0 \<noteq> foldr (+) (aad ?c') (0 :: byte)"
    by (simp add: aad_def utf8_def utf8_char_def code_unit_def Let_def)
  then have "gcm_rejects demo_gcm (kp_kek demo_provider) (replicate 12 0) (aad ?c) [1, 2] (aad ?c')"
    by (simp add: gcm_rejects_def demo_gcm_def)
  from unwrap_wrap_iff [OF demo_gcm_correct this] show ?thesis by (simp add: IV_BYTES_def)
qed

end
