(* ===== verification/Key_Lifecycle.thy ===== *)
theory Key_Lifecycle
  imports Key_Material Kit_Config
begin

text \<open>
  The key lifecycle: the \<open>config_keys\<close> table with its constraints
  (\<open>packages/db/prisma/master/migrations/20260728115320_config_keys/migration.sql\<close>) and the operator
  commands of \<open>packages/db/src/keys/manage-keys.ts\<close>. Times are milliseconds. Random values (key
  id, key material, initialisation vector) are arguments; the columns that no code reads back
  (created_at, activated_at, updated_at) are left out.
\<close>

section \<open>The table\<close>

definition config_keys_purpose_algorithm_ck :: "StoredKeyRow \<Rightarrow> bool" where
  "config_keys_purpose_algorithm_ck r \<longleftrightarrow>
     kr_purpose r = token_signing \<and> kr_algorithm r = SIGNING_ALG \<or>
     kr_purpose r = token_encryption \<and> kr_algorithm r = ENCRYPTION_ALG"

definition config_keys_public_jwk_ck :: "StoredKeyRow \<Rightarrow> bool" where
  "config_keys_public_jwk_ck r \<longleftrightarrow>
     kr_purpose r = token_signing \<and> kr_publicJwk r \<noteq> None \<or>
     kr_purpose r = token_encryption \<and> kr_publicJwk r = None"

definition config_keys_material_ck :: "StoredKeyRow \<Rightarrow> bool" where
  "config_keys_material_ck r \<longleftrightarrow>
     kr_state r \<noteq> ks_revoked \<and> kr_wrappedKey r \<noteq> None \<or>
     kr_state r = ks_revoked \<and> kr_wrappedKey r = None \<and> kr_revokedAt r \<noteq> None \<and> kr_revokedReason r \<noteq> None"

definition config_keys_retiring_not_after_ck :: "StoredKeyRow \<Rightarrow> bool" where
  "config_keys_retiring_not_after_ck r \<longleftrightarrow>
     kr_state r \<noteq> ks_retiring \<or> kr_notAfter r \<noteq> None \<and> kr_retiringAt r \<noteq> None"

definition row_ok :: "StoredKeyRow \<Rightarrow> bool" where
  "row_ok r \<longleftrightarrow> config_keys_purpose_algorithm_ck r \<and> config_keys_public_jwk_ck r \<and>
     config_keys_material_ck r \<and> config_keys_retiring_not_after_ck r"

definition active_rows :: "string \<Rightarrow> StoredKeyRow list \<Rightarrow> StoredKeyRow list" where
  "active_rows purpose rows = filter (\<lambda>r. kr_purpose r = purpose \<and> kr_state r = ks_active) rows"

text \<open>The partial unique index on the purpose of active rows.\<close>

definition one_active_per_purpose :: "StoredKeyRow list \<Rightarrow> bool" where
  "one_active_per_purpose rows \<longleftrightarrow> distinct (map kr_purpose (filter (\<lambda>r. kr_state r = ks_active) rows))"

definition config_keys_ok :: "StoredKeyRow list \<Rightarrow> bool" where
  "config_keys_ok rows \<longleftrightarrow> distinct (map kr_kid rows) \<and> list_all row_ok rows \<and> one_active_per_purpose rows"

datatype key_db_error = KeyConstraintViolation | KeyNotFound string | KeyIsActive string | NoSuchKey string

definition insert_row :: "StoredKeyRow \<Rightarrow> StoredKeyRow list \<Rightarrow> key_db_error + StoredKeyRow list" where
  "insert_row r rows = (if config_keys_ok (rows @ [r]) then Inr (rows @ [r]) else Inl KeyConstraintViolation)"

definition update_row ::
    "string \<Rightarrow> (StoredKeyRow \<Rightarrow> StoredKeyRow) \<Rightarrow> StoredKeyRow list \<Rightarrow> key_db_error + StoredKeyRow list" where
  "update_row kid f rows =
     (if kid \<notin> set (map kr_kid rows) then Inl (KeyNotFound kid)
      else
        let rows' = map (\<lambda>r. if kr_kid r = kid then f r else r) rows in
        if config_keys_ok rows' then Inr rows' else Inl KeyConstraintViolation)"

section \<open>The operator commands\<close>

definition PURPOSES :: "string list" where
  "PURPOSES = [token_signing, token_encryption]"

definition numberOr :: "(string \<Rightarrow> int option) \<Rightarrow> int \<Rightarrow> string option \<Rightarrow> int" where
  "numberOr num dflt v =
     (case v of None \<Rightarrow> dflt | Some s \<Rightarrow> (case num s of None \<Rightarrow> dflt | Some n \<Rightarrow> n))"

definition overlapSeconds :: "(string \<Rightarrow> int option) \<Rightarrow> env \<Rightarrow> int" where
  "overlapSeconds num env =
     numberOr num 900 (env ''JWT_ACCESS_TTL_SECONDS'') + numberOr num 5 (env ''JWT_CLOCK_TOLERANCE_SECONDS'')"

text \<open>What key generation draws: a key id, the private key with its exported public members (for
  signing) or the secret (for encryption), and the vector for the wrap.\<close>

record FreshKey =
  fk_kid :: string
  fk_privatePkcs8 :: bytes
  fk_public :: JWK
  fk_secret :: bytes
  fk_iv :: bytes

definition generated_public_jwk :: "FreshKey \<Rightarrow> JWK" where
  "generated_public_jwk k =
     filter (\<lambda>(m, v). m \<notin> {''kid'', ''alg'', ''use''}) (fk_public k) @
     [(''kid'', JStr (fk_kid k)), (''alg'', JStr SIGNING_ALG), (''use'', JStr ''sig'')]"

definition pending_row :: "Gcm \<Rightarrow> LocalKeyProvider \<Rightarrow> string \<Rightarrow> FreshKey \<Rightarrow> StoredKeyRow" where
  "pending_row gcm provider purpose k =
     (let context = \<lparr>kc_purpose = purpose, kc_kid = fk_kid k\<rparr>;
          signing = (purpose = token_signing)
      in \<lparr>kr_kid = fk_kid k, kr_purpose = purpose,
          kr_algorithm = (if signing then ''ES256'' else ''A256KW''), kr_state = ks_pending,
          kr_wrappedKey =
            Some (wrap gcm provider (fk_iv k) (if signing then fk_privatePkcs8 k else fk_secret k) context),
          kr_kekId = kp_id provider,
          kr_publicJwk = (if signing then Some (JObj (generated_public_jwk k)) else None),
          kr_notAfter = None, kr_retiringAt = None, kr_revokedAt = None, kr_revokedReason = None\<rparr>)"

definition createPending ::
    "Gcm \<Rightarrow> LocalKeyProvider \<Rightarrow> string \<Rightarrow> FreshKey \<Rightarrow> StoredKeyRow list \<Rightarrow> key_db_error + StoredKeyRow list" where
  "createPending gcm provider purpose k rows = insert_row (pending_row gcm provider purpose k) rows"

definition retire :: "int \<Rightarrow> int \<Rightarrow> StoredKeyRow \<Rightarrow> StoredKeyRow" where
  "retire now notAfter r = r\<lparr>kr_state := ks_retiring, kr_retiringAt := Some now, kr_notAfter := Some notAfter\<rparr>"

text \<open>One transaction: an error leaves the table as it was.\<close>

definition activate ::
    "int \<Rightarrow> int \<Rightarrow> string \<Rightarrow> string \<Rightarrow> StoredKeyRow list \<Rightarrow> (key_db_error + string option) \<times> StoredKeyRow list" where
  "activate now overlap purpose kid rows =
     (let notAfter = now + overlap * 1000;
          current = find (\<lambda>r. kr_purpose r = purpose \<and> kr_state r = ks_active) rows
      in case (case current of
                 None \<Rightarrow> Inr rows
               | Some c \<Rightarrow> update_row (kr_kid c) (retire now notAfter) rows) of
           Inl e \<Rightarrow> (Inl e, rows)
         | Inr rows1 \<Rightarrow>
             (case update_row kid (\<lambda>r. r\<lparr>kr_state := ks_active\<rparr>) rows1 of
                Inl e \<Rightarrow> (Inl e, rows)
              | Inr rows2 \<Rightarrow> (Inr (map_option kr_kid current), rows2)))"

definition rotate_purpose ::
    "Gcm \<Rightarrow> LocalKeyProvider \<Rightarrow> int \<Rightarrow> int \<Rightarrow> string \<Rightarrow> FreshKey \<Rightarrow> StoredKeyRow list \<Rightarrow>
     (key_db_error + string option) \<times> StoredKeyRow list" where
  "rotate_purpose gcm provider now overlap purpose k rows =
     (case createPending gcm provider purpose k rows of
        Inl e \<Rightarrow> (Inl e, rows)
      | Inr rows' \<Rightarrow> activate now overlap purpose (fk_kid k) rows')"

fun rotate ::
    "Gcm \<Rightarrow> LocalKeyProvider \<Rightarrow> int \<Rightarrow> int \<Rightarrow> (string \<times> FreshKey) list \<Rightarrow> StoredKeyRow list \<Rightarrow>
     key_db_error option \<times> StoredKeyRow list" where
  "rotate gcm provider now overlap [] rows = (None, rows)"
| "rotate gcm provider now overlap ((purpose, k) # rest) rows =
     (case rotate_purpose gcm provider now overlap purpose k rows of
        (Inl e, rows') \<Rightarrow> (Some e, rows')
      | (Inr _, rows') \<Rightarrow> rotate gcm provider now overlap rest rows')"

fun init ::
    "Gcm \<Rightarrow> LocalKeyProvider \<Rightarrow> int \<Rightarrow> int \<Rightarrow> (string \<times> FreshKey) list \<Rightarrow> StoredKeyRow list \<Rightarrow>
     key_db_error option \<times> StoredKeyRow list" where
  "init gcm provider now overlap [] rows = (None, rows)"
| "init gcm provider now overlap ((purpose, k) # rest) rows =
     (if find (\<lambda>r. kr_purpose r = purpose \<and> kr_state r = ks_active) rows \<noteq> None
      then init gcm provider now overlap rest rows
      else
        (case rotate_purpose gcm provider now overlap purpose k rows of
           (Inl e, rows') \<Rightarrow> (Some e, rows')
         | (Inr _, rows') \<Rightarrow> init gcm provider now overlap rest rows'))"

definition revoke ::
    "int \<Rightarrow> string \<Rightarrow> string \<Rightarrow> StoredKeyRow list \<Rightarrow> key_db_error option \<times> StoredKeyRow list" where
  "revoke now kid reason rows =
     (case find (\<lambda>r. kr_kid r = kid) rows of
        None \<Rightarrow> (Some (NoSuchKey kid), rows)
      | Some key \<Rightarrow>
          if kr_state key = ks_revoked then (None, rows)
          else if kr_state key = ks_active then (Some (KeyIsActive kid), rows)
          else
            (case update_row kid (\<lambda>r. r\<lparr>kr_state := ks_revoked, kr_wrappedKey := None,
                                         kr_revokedAt := Some now, kr_revokedReason := Some reason\<rparr>) rows of
               Inl e \<Rightarrow> (Some e, rows)
             | Inr rows' \<Rightarrow> (None, rows')))"

section \<open>Rotation\<close>

lemma one_active_unique:
  assumes "config_keys_ok rows" "r \<in> set rows" "c \<in> set rows"
    and "kr_state r = ks_active" "kr_state c = ks_active" "kr_purpose r = kr_purpose c"
  shows "r = c"
  using assms by (auto simp: config_keys_ok_def one_active_per_purpose_def distinct_map inj_on_def)

lemma kid_unique:
  assumes "config_keys_ok rows" "r \<in> set rows" "c \<in> set rows" "kr_kid r = kr_kid c"
  shows "r = c"
  using assms by (auto simp: config_keys_ok_def distinct_map inj_on_def)

lemma pending_row_simps [simp]:
  "kr_kid (pending_row gcm provider purpose k) = fk_kid k"
  "kr_purpose (pending_row gcm provider purpose k) = purpose"
  "kr_state (pending_row gcm provider purpose k) = ks_pending"
  by (simp_all add: pending_row_def Let_def)

lemma retire_simps [simp]:
  "kr_kid (retire now na r) = kr_kid r" "kr_purpose (retire now na r) = kr_purpose r"
  "kr_state (retire now na r) = ks_retiring" "kr_notAfter (retire now na r) = Some na"
  by (simp_all add: retire_def)

lemmas row_constraints = row_ok_def config_keys_purpose_algorithm_ck_def config_keys_public_jwk_ck_def
  config_keys_material_ck_def config_keys_retiring_not_after_ck_def

lemma row_ok_pending: "purpose \<in> set PURPOSES \<Longrightarrow> row_ok (pending_row gcm provider purpose k)"
  by (auto simp: PURPOSES_def row_constraints pending_row_def Let_def SIGNING_ALG_def ENCRYPTION_ALG_def
      token_signing_def token_encryption_def)

lemma row_ok_retire: "row_ok r \<Longrightarrow> kr_state r = ks_active \<Longrightarrow> row_ok (retire now na r)"
  by (auto simp: row_constraints retire_def)

lemma row_ok_activate: "row_ok r \<Longrightarrow> kr_state r = ks_pending \<Longrightarrow> row_ok (r\<lparr>kr_state := ks_active\<rparr>)"
  by (auto simp: row_constraints)

definition retire_active :: "int \<Rightarrow> int \<Rightarrow> string \<Rightarrow> StoredKeyRow \<Rightarrow> StoredKeyRow" where
  "retire_active now na purpose r =
     (if kr_purpose r = purpose \<and> kr_state r = ks_active then retire now na r else r)"

text \<open>The table a rotation is meant to leave behind.\<close>

definition rotated ::
    "Gcm \<Rightarrow> LocalKeyProvider \<Rightarrow> int \<Rightarrow> int \<Rightarrow> string \<Rightarrow> FreshKey \<Rightarrow> StoredKeyRow list \<Rightarrow> StoredKeyRow list" where
  "rotated gcm provider now overlap purpose k rows =
     map (retire_active now (now + overlap * 1000) purpose) rows @
     [(pending_row gcm provider purpose k)\<lparr>kr_state := ks_active\<rparr>]"

lemma retire_active_simps [simp]:
  "kr_kid (retire_active now na purpose r) = kr_kid r"
  "kr_purpose (retire_active now na purpose r) = kr_purpose r"
  by (simp_all add: retire_active_def)

lemma kr_kid_retire_active [simp]: "kr_kid \<circ> retire_active now na purpose = kr_kid"
  by (simp add: fun_eq_iff)

lemma active_after_retire:
  "filter (\<lambda>r. kr_state r = ks_active) (map (retire_active now na purpose) rows) =
     filter (\<lambda>r. kr_state r = ks_active \<and> kr_purpose r \<noteq> purpose) rows"
  by (induction rows) (auto simp: retire_active_def)

lemma distinct_map_filter_conj:
  "distinct (map f (filter P xs)) \<Longrightarrow> distinct (map f (filter (\<lambda>x. P x \<and> Q x) xs))"
  by (simp add: distinct_map_filter flip: filter_filter)

lemma retire_active_ok:
  assumes "config_keys_ok rows"
  shows "config_keys_ok (map (retire_active now na purpose) rows)"
  using assms
  by (auto simp: config_keys_ok_def one_active_per_purpose_def active_after_retire list_all_iff
      retire_active_def row_ok_retire distinct_map_filter_conj)

lemma config_keys_ok_append_pending:
  assumes "config_keys_ok rows" "fk_kid k \<notin> kr_kid ` set rows" "purpose \<in> set PURPOSES"
  shows "config_keys_ok (rows @ [pending_row gcm provider purpose k])"
  using assms by (auto simp: config_keys_ok_def one_active_per_purpose_def row_ok_pending)

lemma rotated_ok:
  assumes "config_keys_ok rows" "fk_kid k \<notin> kr_kid ` set rows" "purpose \<in> set PURPOSES"
  shows "config_keys_ok (rotated gcm provider now overlap purpose k rows)"
proof -
  let ?rows = "map (retire_active now (now + overlap * 1000) purpose) rows"
  have "config_keys_ok ?rows" by (rule retire_active_ok [OF assms(1)])
  moreover have "row_ok ((pending_row gcm provider purpose k)\<lparr>kr_state := ks_active\<rparr>)"
    using row_ok_activate [OF row_ok_pending [OF assms(3)]] by simp
  moreover have "purpose \<notin> kr_purpose ` set (filter (\<lambda>r. kr_state r = ks_active) ?rows)"
    unfolding active_after_retire by auto
  ultimately show ?thesis
    using assms(2) by (auto simp: rotated_def config_keys_ok_def one_active_per_purpose_def)
qed

text \<open>Updating the one active row by its key id is updating the active row of the purpose.\<close>

lemma update_current:
  assumes "config_keys_ok rows" "find (\<lambda>r. kr_purpose r = purpose \<and> kr_state r = ks_active) rows = Some c"
  shows "update_row (kr_kid c) (retire now na) rows = Inr (map (retire_active now na purpose) rows)"
proof -
  have c: "c \<in> set rows" "kr_purpose c = purpose" "kr_state c = ks_active"
    using assms(2) by (auto simp: find_Some_iff)
  have "(if kr_kid r = kr_kid c then retire now na r else r) = retire_active now na purpose r"
    if "r \<in> set rows" for r
    using that c kid_unique [OF assms(1)] one_active_unique [OF assms(1)] by (auto simp: retire_active_def)
  then have eq: "map (\<lambda>r. if kr_kid r = kr_kid c then retire now na r else r) rows =
      map (retire_active now na purpose) rows"
    by simp
  show ?thesis
    using c(1) by (simp add: update_row_def Let_def eq retire_active_ok [OF assms(1)] del: map_eq_conv)
qed

lemma no_current:
  assumes "find (\<lambda>r. kr_purpose r = purpose \<and> kr_state r = ks_active) rows = None"
  shows "map (retire_active now na purpose) rows = rows"
  using assms by (intro map_idI) (auto simp: find_None_iff retire_active_def)

lemma retire_statement:
  assumes "config_keys_ok rows"
  shows "(case find (\<lambda>r. kr_purpose r = purpose \<and> kr_state r = ks_active) rows of
            None \<Rightarrow> Inr rows | Some c \<Rightarrow> update_row (kr_kid c) (retire now na) rows) =
         Inr (map (retire_active now na purpose) rows)"
  using update_current [OF assms] by (auto simp: no_current split: option.split)

lemma rotate_purpose_eq:
  assumes "config_keys_ok rows" "fk_kid k \<notin> kr_kid ` set rows" "purpose \<in> set PURPOSES"
  shows "rotate_purpose gcm provider now overlap purpose k rows =
     (Inr (map_option kr_kid (find (\<lambda>r. kr_purpose r = purpose \<and> kr_state r = ks_active) rows)),
      rotated gcm provider now overlap purpose k rows)"
proof -
  let ?p = "pending_row gcm provider purpose k"
  note ok = config_keys_ok_append_pending [OF assms]
  have find_eq: "find (\<lambda>r. kr_purpose r = purpose \<and> kr_state r = ks_active) (rows @ [?p]) =
      find (\<lambda>r. kr_purpose r = purpose \<and> kr_state r = ks_active) rows"
    by (induction rows) auto
  have "kr_kid r \<noteq> fk_kid k" if "r \<in> set rows" for r
    using that assms(2) by (metis image_eqI)
  then have eq: "map (\<lambda>r. if kr_kid r = fk_kid k then r\<lparr>kr_state := ks_active\<rparr> else r)
      (map (retire_active now (now + overlap * 1000) purpose) (rows @ [?p])) =
      rotated gcm provider now overlap purpose k rows"
    by (simp add: rotated_def) (simp add: retire_active_def)
  have upd: "update_row (fk_kid k) (\<lambda>r. r\<lparr>kr_state := ks_active\<rparr>)
      (map (retire_active now (now + overlap * 1000) purpose) (rows @ [?p])) =
      Inr (rotated gcm provider now overlap purpose k rows)"
    unfolding update_row_def Let_def eq using rotated_ok [OF assms] by simp
  have "activate now overlap purpose (fk_kid k) (rows @ [?p]) =
      (Inr (map_option kr_kid (find (\<lambda>r. kr_purpose r = purpose \<and> kr_state r = ks_active) rows)),
       rotated gcm provider now overlap purpose k rows)"
    unfolding activate_def Let_def retire_statement [OF ok] by (simp add: upd find_eq del: map_append)
  then show ?thesis
    by (simp add: rotate_purpose_def createPending_def insert_row_def ok)
qed

lemma active_rows_rotated:
  "active_rows purpose (rotated gcm provider now overlap purpose k rows) =
     [(pending_row gcm provider purpose k)\<lparr>kr_state := ks_active\<rparr>]"
proof -
  have "filter (\<lambda>r. kr_purpose r = purpose \<and> kr_state r = ks_active) (map (retire_active now na purpose) rows) = []"
    for na
    by (induction rows) (auto simp: retire_active_def)
  then show ?thesis by (simp add: active_rows_def rotated_def)
qed

lemma active_rows_rotated_other:
  assumes "other \<noteq> purpose"
  shows "active_rows other (rotated gcm provider now overlap purpose k rows) = active_rows other rows"
proof -
  have "filter (\<lambda>r. kr_purpose r = other \<and> kr_state r = ks_active)
      (map (retire_active now na purpose) rows) = filter (\<lambda>r. kr_purpose r = other \<and> kr_state r = ks_active) rows" for na
    using assms by (induction rows) (auto simp: retire_active_def)
  then show ?thesis using assms by (simp add: active_rows_def rotated_def)
qed

text \<open>C21: Rotating a purpose on a sound table with an unused key id succeeds and leaves exactly the
  intended table: the key that was active is retiring until the end of the overlap, the new key is
  the one active key of its purpose, no other row changes, and every constraint of the table still
  holds.\<close>

theorem rotate_purpose_correct:
  assumes "config_keys_ok rows" and "fk_kid k \<notin> kr_kid ` set rows" and "purpose \<in> set PURPOSES"
  shows "rotate_purpose gcm provider now overlap purpose k rows =
      (Inr (map_option kr_kid (find (\<lambda>r. kr_purpose r = purpose \<and> kr_state r = ks_active) rows)),
       map (\<lambda>r. if kr_purpose r = purpose \<and> kr_state r = ks_active
                 then r\<lparr>kr_state := ks_retiring, kr_retiringAt := Some now,
                         kr_notAfter := Some (now + overlap * 1000)\<rparr>
                 else r) rows @
       [(pending_row gcm provider purpose k)\<lparr>kr_state := ks_active\<rparr>]) \<and>
     config_keys_ok (snd (rotate_purpose gcm provider now overlap purpose k rows)) \<and>
     map kr_kid (active_rows purpose (snd (rotate_purpose gcm provider now overlap purpose k rows))) = [fk_kid k] \<and>
     (other \<noteq> purpose \<longrightarrow>
        active_rows other (snd (rotate_purpose gcm provider now overlap purpose k rows)) = active_rows other rows)"
proof -
  have "rotated gcm provider now overlap purpose k rows =
      map (\<lambda>r. if kr_purpose r = purpose \<and> kr_state r = ks_active
                then r\<lparr>kr_state := ks_retiring, kr_retiringAt := Some now,
                        kr_notAfter := Some (now + overlap * 1000)\<rparr>
                else r) rows @
      [(pending_row gcm provider purpose k)\<lparr>kr_state := ks_active\<rparr>]"
    by (simp add: rotated_def retire_active_def retire_def)
  then show ?thesis
    using rotated_ok [OF assms, of gcm provider now overlap]
      active_rows_rotated [of purpose gcm provider now overlap k rows]
      active_rows_rotated_other [of other purpose gcm provider now overlap k rows]
    by (simp add: rotate_purpose_eq [OF assms])
qed

definition demo_key :: "string \<Rightarrow> FreshKey" where
  "demo_key kid = \<lparr>fk_kid = kid, fk_privatePkcs8 = utf8 kid, fk_public = [(''kty'', JStr ''EC''), (''x'', JStr kid)],
                   fk_secret = replicate 32 1, fk_iv = replicate 12 0\<rparr>"

definition demo_rows :: "StoredKeyRow list" where
  "demo_rows = snd (rotate demo_gcm demo_provider 1000 905 [(token_signing, demo_key ''s1''), (token_encryption, demo_key ''e1'')] [])"

lemma config_keys_ok_Nil: "config_keys_ok []"
  by (simp add: config_keys_ok_def one_active_per_purpose_def)

lemma demo_rows_eq:
  "demo_rows = rotated demo_gcm demo_provider 1000 905 token_encryption (demo_key ''e1'')
     (rotated demo_gcm demo_provider 1000 905 token_signing (demo_key ''s1'') [])"
proof -
  have 1: "rotate_purpose demo_gcm demo_provider 1000 905 token_signing (demo_key ''s1'') [] =
      (Inr None, rotated demo_gcm demo_provider 1000 905 token_signing (demo_key ''s1'') [])"
    by (subst rotate_purpose_eq) (simp_all add: config_keys_ok_Nil PURPOSES_def)
  have 2: "snd (rotate_purpose demo_gcm demo_provider 1000 905 token_encryption (demo_key ''e1'')
       (rotated demo_gcm demo_provider 1000 905 token_signing (demo_key ''s1'') [])) =
     rotated demo_gcm demo_provider 1000 905 token_encryption (demo_key ''e1'')
       (rotated demo_gcm demo_provider 1000 905 token_signing (demo_key ''s1'') [])"
    by (subst rotate_purpose_eq)
      (simp_all add: rotated_ok config_keys_ok_Nil PURPOSES_def, simp add: rotated_def demo_key_def)
  show ?thesis
    unfolding demo_rows_def using 2 by (simp add: 1 split: prod.split sum.split) (auto split: prod.splits sum.splits)
qed

lemma demo_rows_ok: "config_keys_ok demo_rows"
  unfolding demo_rows_eq
  by (intro rotated_ok config_keys_ok_Nil) (simp_all add: PURPOSES_def rotated_def demo_key_def)

lemma demo_key_kid [simp]: "fk_kid (demo_key kid) = kid"
  by (simp add: demo_key_def)

lemma demo_rows_kids: "map kr_kid demo_rows = [''s1'', ''e1'']"
  by (simp add: demo_rows_eq rotated_def demo_key_def)

lemma demo_rows_purposes: "map kr_purpose demo_rows = [token_signing, token_encryption]"
  by (simp add: demo_rows_eq rotated_def)

lemma demo_kid_fresh: "kid \<noteq> ''s1'' \<Longrightarrow> kid \<noteq> ''e1'' \<Longrightarrow> kid \<notin> kr_kid ` set demo_rows"
proof -
  have "kr_kid ` set demo_rows = {''s1'', ''e1''}"
    using arg_cong [OF demo_rows_kids, of set] by simp
  then show "kid \<noteq> ''s1'' \<Longrightarrow> kid \<noteq> ''e1'' \<Longrightarrow> kid \<notin> kr_kid ` set demo_rows" by simp
qed

theorem rotate_purpose_correct_witness:
  "map kr_kid (active_rows token_signing
     (snd (rotate_purpose demo_gcm demo_provider 5000 905 token_signing (demo_key ''s2'') demo_rows))) = [''s2'']"
proof -
  have "fk_kid (demo_key ''s2'') \<notin> kr_kid ` set demo_rows" by (simp add: demo_kid_fresh)
  moreover have "token_signing \<in> set PURPOSES" by (simp add: PURPOSES_def)
  ultimately have "map kr_kid (active_rows token_signing
      (snd (rotate_purpose demo_gcm demo_provider 5000 905 token_signing (demo_key ''s2'') demo_rows))) =
      [fk_kid (demo_key ''s2'')]"
    using rotate_purpose_correct [OF demo_rows_ok] by blast
  then show ?thesis by simp
qed

section \<open>The lifecycle\<close>

definition rank :: "KeyState \<Rightarrow> nat" where
  "rank st = (case st of ks_pending \<Rightarrow> 0 | ks_active \<Rightarrow> 1 | ks_retiring \<Rightarrow> 2 | ks_revoked \<Rightarrow> 3)"

text \<open>What may become of a row: its identity stays, its state only moves forward, and its material
  stays until it is revoked.\<close>

definition row_evolves :: "StoredKeyRow \<Rightarrow> StoredKeyRow \<Rightarrow> bool" where
  "row_evolves r r' \<longleftrightarrow>
     kr_kid r' = kr_kid r \<and> kr_purpose r' = kr_purpose r \<and> kr_algorithm r' = kr_algorithm r \<and>
     kr_kekId r' = kr_kekId r \<and> kr_publicJwk r' = kr_publicJwk r \<and> rank (kr_state r) \<le> rank (kr_state r') \<and>
     (if kr_state r' = ks_revoked then kr_wrappedKey r' = None else kr_wrappedKey r' = kr_wrappedKey r)"

definition table_evolves :: "StoredKeyRow list \<Rightarrow> StoredKeyRow list \<Rightarrow> bool" where
  "table_evolves rows rows' \<longleftrightarrow> list_all (\<lambda>r. list_ex (row_evolves r) rows') rows"

lemma row_evolves_refl: "row_ok r \<Longrightarrow> row_evolves r r"
  by (auto simp: row_evolves_def row_constraints)

lemma row_evolves_trans: "row_evolves r s \<Longrightarrow> row_evolves s t \<Longrightarrow> row_evolves r t"
  by (auto simp: row_evolves_def rank_def split: if_splits KeyState.splits)

lemma table_evolves_refl: "config_keys_ok rows \<Longrightarrow> table_evolves rows rows"
  by (auto simp: table_evolves_def config_keys_ok_def list_all_iff list_ex_iff intro: row_evolves_refl)

lemma table_evolves_trans: "table_evolves a b \<Longrightarrow> table_evolves b c \<Longrightarrow> table_evolves a c"
  unfolding table_evolves_def list_all_iff list_ex_iff by (meson row_evolves_trans)

lemma row_evolves_retire_active: "row_ok r \<Longrightarrow> row_evolves r (retire_active now na purpose r)"
  by (auto simp: retire_active_def retire_def row_evolves_def row_constraints rank_def)

lemma table_evolves_rotated: "config_keys_ok rows \<Longrightarrow> table_evolves rows (rotated gcm provider now overlap purpose k rows)"
  by (auto simp: table_evolves_def rotated_def config_keys_ok_def list_all_iff list_ex_iff
      intro: row_evolves_retire_active)

lemma rotate_purpose_used_kid:
  assumes "fk_kid k \<in> kr_kid ` set rows"
  shows "rotate_purpose gcm provider now overlap purpose k rows = (Inl KeyConstraintViolation, rows)"
  using assms by (auto simp: rotate_purpose_def createPending_def insert_row_def config_keys_ok_def)

text \<open>What every command does to a sound table: it stays sound, and every row that was there is
  still there, no earlier in its life than before.\<close>

definition good_step :: "StoredKeyRow list \<Rightarrow> StoredKeyRow list \<Rightarrow> bool" where
  "good_step rows rows' \<longleftrightarrow> (config_keys_ok rows \<longrightarrow> config_keys_ok rows' \<and> table_evolves rows rows')"

lemma good_step_refl: "good_step rows rows"
  by (simp add: good_step_def table_evolves_refl)

lemma good_step_trans: "good_step a b \<Longrightarrow> good_step b c \<Longrightarrow> good_step a c"
  by (auto simp: good_step_def intro: table_evolves_trans)

lemma rotate_purpose_good:
  assumes "purpose \<in> set PURPOSES"
  shows "good_step rows (snd (rotate_purpose gcm provider now overlap purpose k rows))"
proof (cases "fk_kid k \<in> kr_kid ` set rows")
  case True
  then show ?thesis by (simp add: rotate_purpose_used_kid good_step_refl)
next
  case False
  then show ?thesis
    using assms by (auto simp: good_step_def rotate_purpose_eq rotated_ok table_evolves_rotated)
qed

lemma rotate_good:
  "set (map fst picks) \<subseteq> set PURPOSES \<Longrightarrow> good_step rows (snd (rotate gcm provider now overlap picks rows))"
proof (induction picks arbitrary: rows)
  case Nil
  then show ?case by (simp add: good_step_refl)
next
  case (Cons pick picks)
  obtain purpose k where p: "pick = (purpose, k)" by (cases pick)
  obtain res rows1 where r: "rotate_purpose gcm provider now overlap purpose k rows = (res, rows1)"
    by (cases "rotate_purpose gcm provider now overlap purpose k rows")
  have "good_step rows rows1"
    using rotate_purpose_good [of purpose rows gcm provider now overlap k] Cons.prems by (simp add: p r)
  with Cons.IH [of rows1] Cons.prems show ?case
    by (cases res) (auto simp: p r intro: good_step_trans)
qed

lemma init_good:
  "set (map fst picks) \<subseteq> set PURPOSES \<Longrightarrow> good_step rows (snd (init gcm provider now overlap picks rows))"
proof (induction picks arbitrary: rows)
  case Nil
  then show ?case by (simp add: good_step_refl)
next
  case (Cons pick picks)
  obtain purpose k where p: "pick = (purpose, k)" by (cases pick)
  obtain res rows1 where r: "rotate_purpose gcm provider now overlap purpose k rows = (res, rows1)"
    by (cases "rotate_purpose gcm provider now overlap purpose k rows")
  have "good_step rows rows1"
    using rotate_purpose_good [of purpose rows gcm provider now overlap k] Cons.prems by (simp add: p r)
  with Cons.IH [of rows1] Cons.IH [of rows] Cons.prems show ?case
    by (cases res) (auto simp: p r intro: good_step_trans)
qed

definition revoked_row :: "int \<Rightarrow> string \<Rightarrow> StoredKeyRow \<Rightarrow> StoredKeyRow" where
  "revoked_row now reason r =
     r\<lparr>kr_state := ks_revoked, kr_wrappedKey := None, kr_revokedAt := Some now, kr_revokedReason := Some reason\<rparr>"

lemma row_ok_revoked: "row_ok r \<Longrightarrow> row_ok (revoked_row now reason r)"
  by (auto simp: row_constraints revoked_row_def)

lemma revoked_row_simps [simp]:
  "kr_kid (revoked_row now reason r) = kr_kid r" "kr_purpose (revoked_row now reason r) = kr_purpose r"
  "kr_state (revoked_row now reason r) = ks_revoked"
  by (simp_all add: revoked_row_def)

lemma row_evolves_revoked: "row_evolves r (revoked_row now reason r)"
  by (auto simp: row_evolves_def revoked_row_def rank_def split: KeyState.split)

lemma map_revoked_ok:
  assumes "config_keys_ok rows"
  shows "config_keys_ok (map (\<lambda>r. if kr_kid r = kid then revoked_row now reason r else r) rows)"
proof -
  let ?f = "\<lambda>r. if kr_kid r = kid then revoked_row now reason r else r"
  have kids: "kr_kid \<circ> ?f = kr_kid" by auto
  have "filter (\<lambda>r. kr_state r = ks_active) (map ?f rows) =
      filter (\<lambda>r. kr_state r = ks_active \<and> kr_kid r \<noteq> kid) rows"
    by (induction rows) auto
  then have "one_active_per_purpose (map ?f rows)"
    using assms by (simp add: one_active_per_purpose_def config_keys_ok_def distinct_map_filter_conj)
  then show ?thesis
    using assms by (auto simp: config_keys_ok_def kids list_all_iff row_ok_revoked)
qed

lemma revoke_eq:
  assumes "config_keys_ok rows" "find (\<lambda>r. kr_kid r = kid) rows = Some key"
  shows "revoke now kid reason rows =
     (if kr_state key = ks_revoked then (None, rows)
      else if kr_state key = ks_active then (Some (KeyIsActive kid), rows)
      else (None, map (\<lambda>r. if kr_kid r = kid then revoked_row now reason r else r) rows))"
proof -
  have "kid \<in> kr_kid ` set rows" using assms(2) by (auto simp: find_Some_iff)
  then show ?thesis
    using map_revoked_ok [OF assms(1), of kid now reason]
    by (simp add: revoke_def assms(2) update_row_def Let_def flip: revoked_row_def)
qed

lemma revoke_good: "good_step rows (snd (revoke now kid reason rows))"
proof (cases "find (\<lambda>r. kr_kid r = kid) rows")
  case None
  then show ?thesis by (simp add: revoke_def good_step_refl)
next
  case (Some key)
  have "table_evolves rows (map (\<lambda>r. if kr_kid r = kid then revoked_row now reason r else r) rows)"
    if "config_keys_ok rows"
    using that by (auto simp: table_evolves_def config_keys_ok_def list_all_iff list_ex_iff
        intro: row_evolves_revoked row_evolves_refl)
  then show ?thesis
    using map_revoked_ok by (auto simp: good_step_def revoke_eq [OF _ Some] table_evolves_refl)
qed

text \<open>Revoking refuses an unknown key and the active key of a purpose, does nothing to a key that
  is revoked already, and otherwise removes the key material, records when and why, and leaves every
  other row alone; the table stays sound.\<close>

theorem revoke_correct:
  assumes "config_keys_ok rows"
  shows "(kid \<notin> kr_kid ` set rows \<longrightarrow> revoke now kid reason rows = (Some (NoSuchKey kid), rows)) \<and>
     (\<forall>key \<in> set rows. kr_kid key = kid \<longrightarrow>
        revoke now kid reason rows =
          (if kr_state key = ks_revoked then (None, rows)
           else if kr_state key = ks_active then (Some (KeyIsActive kid), rows)
           else (None, map (\<lambda>r. if r = key
                                 then r\<lparr>kr_state := ks_revoked, kr_wrappedKey := None,
                                         kr_revokedAt := Some now, kr_revokedReason := Some reason\<rparr>
                                 else r) rows))) \<and>
     config_keys_ok (snd (revoke now kid reason rows))"
proof -
  have "revoke now kid reason rows =
      (if kr_state key = ks_revoked then (None, rows)
       else if kr_state key = ks_active then (Some (KeyIsActive kid), rows)
       else (None, map (\<lambda>r. if r = key then revoked_row now reason r else r) rows))"
    if key: "key \<in> set rows" "kr_kid key = kid" for key
  proof -
    obtain key' where f: "find (\<lambda>r. kr_kid r = kid) rows = Some key'"
      using key by (cases "find (\<lambda>r. kr_kid r = kid) rows") (auto simp: find_None_iff)
    then have "key' = key" using key kid_unique [OF assms] by (auto simp: find_Some_iff)
    moreover have "map (\<lambda>r. if kr_kid r = kid then revoked_row now reason r else r) rows =
        map (\<lambda>r. if r = key then revoked_row now reason r else r) rows"
      using key kid_unique [OF assms] by auto
    ultimately show ?thesis using revoke_eq [OF assms f, of now reason] by simp
  qed
  moreover have "kid \<notin> kr_kid ` set rows \<Longrightarrow> revoke now kid reason rows = (Some (NoSuchKey kid), rows)"
    by (auto simp: revoke_def split: option.split dest: find_Some_iff [THEN iffD1])
  moreover have "config_keys_ok (snd (revoke now kid reason rows))"
    using revoke_good assms by (simp add: good_step_def)
  ultimately show ?thesis unfolding revoked_row_def by blast
qed

theorem revoke_correct_witness:
  "revoke 9000 ''nope'' ''leak'' demo_rows = (Some (NoSuchKey ''nope''), demo_rows) \<and>
   revoke 9000 ''s1'' ''leak'' demo_rows = (Some (KeyIsActive ''s1''), demo_rows)"
proof -
  have "(hd demo_rows) \<in> set demo_rows" "kr_kid (hd demo_rows) = ''s1''" "kr_state (hd demo_rows) = ks_active"
    by (simp_all add: demo_rows_eq rotated_def retire_active_def token_signing_def token_encryption_def)
  then show ?thesis
    using revoke_correct [OF demo_rows_ok] demo_kid_fresh [of "''nope''"] by auto
qed

inductive key_step :: "Gcm \<Rightarrow> LocalKeyProvider \<Rightarrow> StoredKeyRow list \<Rightarrow> StoredKeyRow list \<Rightarrow> bool" for gcm provider where
  key_init: "set (map fst picks) \<subseteq> set PURPOSES \<Longrightarrow>
     key_step gcm provider rows (snd (init gcm provider now overlap picks rows))"
| key_rotate: "set (map fst picks) \<subseteq> set PURPOSES \<Longrightarrow>
     key_step gcm provider rows (snd (rotate gcm provider now overlap picks rows))"
| key_revoke: "key_step gcm provider rows (snd (revoke now kid reason rows))"

lemma key_step_good: "key_step gcm provider rows rows' \<Longrightarrow> good_step rows rows'"
  by (cases rule: key_step.cases) (auto simp: init_good rotate_good revoke_good)

interpretation lifecycle: invariant_system "\<lambda>rows. rows = start \<and> config_keys_ok rows" "key_step gcm provider"
  "\<lambda>rows. config_keys_ok rows \<and> table_evolves start rows"
  for start gcm provider
proof
  fix s t
  assume "config_keys_ok s \<and> table_evolves start s" and "key_step gcm provider s t"
  with key_step_good [of gcm provider s t] show "config_keys_ok t \<and> table_evolves start t"
    by (auto simp: good_step_def intro: table_evolves_trans)
qed (auto intro: table_evolves_refl)

text \<open>C22: Over any sequence of init, rotate and revoke commands the table satisfies its constraints
  (one active key per purpose among them), and every key that was ever in it is still there with the
  same identity, in the same or a later state, its material unchanged or gone with its revocation: a
  key that is retiring never becomes active again and a revoked key stays revoked and empty.\<close>

theorem key_lifecycle:
  assumes "config_keys_ok rows" and "reaches (key_step gcm provider) rows rows'" and "r \<in> set rows"
  shows "config_keys_ok rows' \<and>
     (\<exists>r' \<in> set rows'. kr_kid r' = kr_kid r \<and> kr_purpose r' = kr_purpose r \<and> kr_publicJwk r' = kr_publicJwk r \<and>
        rank (kr_state r) \<le> rank (kr_state r') \<and>
        kr_wrappedKey r' = (if kr_state r' = ks_revoked then None else kr_wrappedKey r))"
proof -
  have "config_keys_ok rows' \<and> table_evolves rows rows'"
    using lifecycle.reachable_inv [OF _ assms(2), of rows] assms(1) by simp
  then show ?thesis
    using assms(3) by (fastforce simp: table_evolves_def list_all_iff list_ex_iff row_evolves_def)
qed

theorem key_lifecycle_witness:
  "\<exists>r' \<in> set (snd (rotate demo_gcm demo_provider 5000 905 [(token_signing, demo_key ''s2'')] demo_rows)).
     kr_kid r' = ''s1'' \<and> kr_publicJwk r' = kr_publicJwk (hd demo_rows)"
proof -
  have "reaches (key_step demo_gcm demo_provider) demo_rows
      (snd (rotate demo_gcm demo_provider 5000 905 [(token_signing, demo_key ''s2'')] demo_rows))"
    by (intro reaches_single key_rotate) (simp add: PURPOSES_def)
  moreover have "(hd demo_rows) \<in> set demo_rows" "kr_kid (hd demo_rows) = ''s1''"
    by (simp_all add: demo_rows_eq rotated_def)
  ultimately show ?thesis using key_lifecycle [OF demo_rows_ok] by fastforce
qed

section \<open>The first keys\<close>

lemma active_rows_find:
  "find (\<lambda>r. kr_purpose r = purpose \<and> kr_state r = ks_active) rows = None \<longleftrightarrow> active_rows purpose rows = []"
  by (auto simp: find_None_iff active_rows_def filter_empty_conv)

lemma kids_rotated: "kr_kid ` set (rotated gcm provider now overlap purpose k rows) = insert (fk_kid k) (kr_kid ` set rows)"
  by (auto simp: rotated_def image_image)

lemma active_rows_length:
  assumes "config_keys_ok rows"
  shows "length (active_rows purpose rows) \<le> 1"
proof (rule ccontr)
  assume "\<not> ?thesis"
  then obtain a b rest where f: "active_rows purpose rows = a # b # rest"
    by (cases "active_rows purpose rows" rule: remdups_adj.cases) auto
  then have "a \<in> set (active_rows purpose rows)" "b \<in> set (active_rows purpose rows)" by simp_all
  then have "a = b" using one_active_unique [OF assms, of a b] by (auto simp: active_rows_def)
  moreover have "distinct (active_rows purpose rows)"
    using assms by (auto simp: active_rows_def config_keys_ok_def distinct_map)
  ultimately show False by (simp add: f)
qed

lemma init_leaves_alone:
  "\<forall>pick \<in> set picks. active_rows (fst pick) rows \<noteq> [] \<Longrightarrow>
     init gcm provider now overlap picks rows = (None, rows)"
  by (induction picks) (auto simp: active_rows_find)

lemma init_purpose:
  assumes "config_keys_ok rows" "fk_kid k \<notin> kr_kid ` set rows" "purpose \<in> set PURPOSES"
  obtains rows1 where "init gcm provider now overlap ((purpose, k) # rest) rows = init gcm provider now overlap rest rows1"
    and "config_keys_ok rows1" and "active_rows purpose rows1 \<noteq> []"
    and "kr_kid ` set rows1 \<subseteq> insert (fk_kid k) (kr_kid ` set rows)"
    and "\<And>other. active_rows other rows \<noteq> [] \<Longrightarrow> active_rows other rows1 = active_rows other rows"
proof (cases "active_rows purpose rows = []")
  case True
  then show ?thesis
    using that [of "rotated gcm provider now overlap purpose k rows"] assms
    by (auto simp: active_rows_find rotate_purpose_eq [OF assms] rotated_ok active_rows_rotated kids_rotated
        intro: active_rows_rotated_other)
next
  case False
  then show ?thesis using that [of rows] assms by (auto simp: active_rows_find)
qed

text \<open>The init command on a sound table leaves exactly one active key for each purpose, keeps the
  active keys that were there, and keeps the table sound; run again, with whatever key ids it would
  draw, it changes nothing.\<close>

theorem init_correct:
  assumes "config_keys_ok rows" and "fk_kid ks \<notin> kr_kid ` set rows" and "fk_kid ke \<notin> kr_kid ` set rows"
    and "fk_kid ks \<noteq> fk_kid ke" and "purpose \<in> set PURPOSES"
    and "rows' = snd (init gcm provider now overlap [(token_signing, ks), (token_encryption, ke)] rows)"
  shows "fst (init gcm provider now overlap [(token_signing, ks), (token_encryption, ke)] rows) = None \<and>
     config_keys_ok rows' \<and> length (active_rows purpose rows') = 1 \<and>
     (active_rows purpose rows \<noteq> [] \<longrightarrow> active_rows purpose rows' = active_rows purpose rows) \<and>
     init gcm provider now' overlap' [(token_signing, ks'), (token_encryption, ke')] rows' = (None, rows')"
proof -
  have ps: "token_signing \<in> set PURPOSES" "token_encryption \<in> set PURPOSES" by (simp_all add: PURPOSES_def)
  obtain rows1 where 1: "init gcm provider now overlap [(token_signing, ks), (token_encryption, ke)] rows =
        init gcm provider now overlap [(token_encryption, ke)] rows1"
      "config_keys_ok rows1" "active_rows token_signing rows1 \<noteq> []"
      "kr_kid ` set rows1 \<subseteq> insert (fk_kid ks) (kr_kid ` set rows)"
      "\<And>other. active_rows other rows \<noteq> [] \<Longrightarrow> active_rows other rows1 = active_rows other rows"
    using init_purpose [OF assms(1,2) ps(1)] by metis
  have "fk_kid ke \<notin> kr_kid ` set rows1" using 1(4) assms(3,4) by auto
  from init_purpose [OF 1(2) this ps(2)] obtain rows2 where
    2: "init gcm provider now overlap [(token_encryption, ke)] rows1 = init gcm provider now overlap [] rows2"
      "config_keys_ok rows2" "active_rows token_encryption rows2 \<noteq> []"
      "\<And>other. active_rows other rows1 \<noteq> [] \<Longrightarrow> active_rows other rows2 = active_rows other rows1"
    by metis
  have [simp]: "rows' = rows2" using assms(6) 1(1) 2(1) by simp
  have all: "active_rows p rows2 \<noteq> []" if "p \<in> set PURPOSES" for p
    using that 1(3) 2(3) 2(4) by (auto simp: PURPOSES_def)
  have "length (active_rows purpose rows2) = 1"
    using all [OF assms(5)] active_rows_length [OF 2(2), of purpose]
    by (cases "active_rows purpose rows2") auto
  moreover have "init gcm provider now' overlap' [(token_signing, ks'), (token_encryption, ke')] rows2 = (None, rows2)"
    by (rule init_leaves_alone) (use all ps in auto)
  ultimately show ?thesis using 1 2 by auto
qed

theorem init_correct_witness:
  "length (active_rows token_encryption
     (snd (init demo_gcm demo_provider 1000 905 [(token_signing, demo_key ''s1''), (token_encryption, demo_key ''e1'')] []))) = 1"
  using init_correct [OF config_keys_ok_Nil, of "demo_key ''s1''" "demo_key ''e1''" token_encryption]
  by (simp add: PURPOSES_def)

end
