(* ===== verification/Key_Registry.thy ===== *)
theory Key_Registry
  imports Key_Lifecycle
begin

text \<open>
  The in-memory key snapshot of \<open>services/auth/src/keys/key-registry.service.ts\<close>: loading it from
  the table, the resolvers, the active material, the published key set, and the reloads by timer and
  by unknown key id as a step relation. Times are milliseconds.
\<close>

section \<open>The snapshot of a running instance\<close>

definition REFRESH_COOLDOWN_MS :: int where
  "REFRESH_COOLDOWN_MS = 30000"

definition REFRESH_INTERVAL_MS :: int where
  "REFRESH_INTERVAL_MS = 60000"

record ('priv, 'pub) SnapSigning =
  sg_kid :: string
  sg_privateKey :: 'priv
  sg_publicKey :: 'pub
  sg_publicJwk :: JWK
  sg_state :: KeyState
  sg_notAfter :: "int option"

record SnapEncryption =
  en_kid :: string
  en_secret :: bytes
  en_state :: KeyState
  en_notAfter :: "int option"

record ('priv, 'pub) Snapshot =
  sn_signing :: "(string \<times> ('priv, 'pub) SnapSigning) list"
  sn_encryption :: "(string \<times> SnapEncryption) list"
  sn_activeSigningKid :: "string option"
  sn_activeEncryptionKid :: "string option"

definition EMPTY :: "('priv, 'pub) Snapshot" where
  "EMPTY = \<lparr>sn_signing = [], sn_encryption = [], sn_activeSigningKid = None, sn_activeEncryptionKid = None\<rparr>"

text \<open>\<open>Map.set\<close>: a new key goes to the end, an existing one is replaced in place.\<close>

definition map_set :: "'k \<Rightarrow> 'v \<Rightarrow> ('k \<times> 'v) list \<Rightarrow> ('k \<times> 'v) list" where
  "map_set k v m = (if k \<in> fst ` set m then map (\<lambda>(k', v'). (k', if k' = k then v else v')) m else m @ [(k, v)])"

fun add_key :: "('priv, 'pub) LoadedKey \<Rightarrow> StoredKeyRow \<Rightarrow> ('priv, 'pub) Snapshot \<Rightarrow> ('priv, 'pub) Snapshot" where
  "add_key (LoadedSigningKey kid priv pub jwk) row s =
     s\<lparr>sn_signing := map_set kid \<lparr>sg_kid = kid, sg_privateKey = priv, sg_publicKey = pub, sg_publicJwk = jwk,
                                   sg_state = kr_state row, sg_notAfter = kr_notAfter row\<rparr> (sn_signing s),
       sn_activeSigningKid := (if kr_state row = ks_active then Some kid else sn_activeSigningKid s)\<rparr>"
| "add_key (LoadedEncryptionKey kid secret) row s =
     s\<lparr>sn_encryption := map_set kid \<lparr>en_kid = kid, en_secret = secret, en_state = kr_state row,
                                      en_notAfter = kr_notAfter row\<rparr> (sn_encryption s),
       sn_activeEncryptionKid := (if kr_state row = ks_active then Some kid else sn_activeEncryptionKid s)\<rparr>"

definition load_row ::
    "Gcm \<Rightarrow> ('priv, 'pub, 'z) Jose_scheme \<Rightarrow> LocalKeyProvider \<Rightarrow> StoredKeyRow \<Rightarrow> ('priv, 'pub) Snapshot \<Rightarrow>
     ('priv, 'pub) Snapshot" where
  "load_row gcm jose provider row s =
     (if kr_wrappedKey row = None then s
      else (case loadStoredKey gcm jose provider row of Inl _ \<Rightarrow> s | Inr key \<Rightarrow> add_key key row s))"

definition load_snapshot ::
    "Gcm \<Rightarrow> ('priv, 'pub, 'z) Jose_scheme \<Rightarrow> LocalKeyProvider \<Rightarrow> StoredKeyRow list \<Rightarrow> ('priv, 'pub) Snapshot" where
  "load_snapshot gcm jose provider rows =
     fold (load_row gcm jose provider) (filter (\<lambda>r. kr_state r \<in> {ks_active, ks_retiring}) rows) EMPTY"

text \<open>\<open>rg_inFlight\<close> is whether the promise of a reload started by \<open>refreshIfStale\<close> is still pending.\<close>

record ('priv, 'pub) KeyRegistryService =
  rg_snapshot :: "('priv, 'pub) Snapshot"
  rg_lastRefreshAt :: int
  rg_inFlight :: bool

text \<open>\<open>refresh\<close> up to its query, and from the answer on; None for the rows is a query that failed.\<close>

definition refresh_begin :: "int \<Rightarrow> ('priv, 'pub) KeyRegistryService \<Rightarrow> ('priv, 'pub) KeyRegistryService" where
  "refresh_begin now s = s\<lparr>rg_lastRefreshAt := now\<rparr>"

definition refresh_end ::
    "Gcm \<Rightarrow> ('priv, 'pub, 'z) Jose_scheme \<Rightarrow> LocalKeyProvider \<Rightarrow> StoredKeyRow list option \<Rightarrow>
     ('priv, 'pub) KeyRegistryService \<Rightarrow> ('priv, 'pub) KeyRegistryService" where
  "refresh_end gcm jose provider rows s =
     (case rows of None \<Rightarrow> s | Some rs \<Rightarrow> s\<lparr>rg_snapshot := load_snapshot gcm jose provider rs\<rparr>)"

text \<open>What \<open>refreshIfStale\<close> does before it yields: join the reload under way, return at once, or start
  a reload.\<close>

datatype StaleAnswer = JoinInFlight | FreshEnough | StartReload

definition refreshIfStale ::
    "int \<Rightarrow> ('priv, 'pub) KeyRegistryService \<Rightarrow> StaleAnswer \<times> ('priv, 'pub) KeyRegistryService" where
  "refreshIfStale now s =
     (if rg_inFlight s then (JoinInFlight, s)
      else if now - rg_lastRefreshAt s < REFRESH_COOLDOWN_MS then (FreshEnough, s)
      else (StartReload, (refresh_begin now s)\<lparr>rg_inFlight := True\<rparr>))"

text \<open>The settled promise of that reload.\<close>

definition reload_settled ::
    "Gcm \<Rightarrow> ('priv, 'pub, 'z) Jose_scheme \<Rightarrow> LocalKeyProvider \<Rightarrow> StoredKeyRow list option \<Rightarrow>
     ('priv, 'pub) KeyRegistryService \<Rightarrow> ('priv, 'pub) KeyRegistryService" where
  "reload_settled gcm jose provider rows s = (refresh_end gcm jose provider rows s)\<lparr>rg_inFlight := False\<rparr>"

definition resolve_signing :: "('priv, 'pub) Snapshot \<Rightarrow> int \<Rightarrow> string \<Rightarrow> 'pub option" where
  "resolve_signing s now kid =
     (case map_of (sn_signing s) kid of
        None \<Rightarrow> None
      | Some k \<Rightarrow> if isKeyUsable (sg_state k) (sg_notAfter k) now then Some (sg_publicKey k) else None)"

definition resolve_encryption :: "('priv, 'pub) Snapshot \<Rightarrow> int \<Rightarrow> string \<Rightarrow> bytes option" where
  "resolve_encryption s now kid =
     (case map_of (sn_encryption s) kid of
        None \<Rightarrow> None
      | Some k \<Rightarrow> if isKeyUsable (en_state k) (en_notAfter k) now then Some (en_secret k) else None)"

record 'priv TokenMaterial =
  tm_signingKid :: string
  tm_signingKey :: 'priv
  tm_encryptionKid :: string
  tm_encryptionKey :: bytes

definition activeMaterial :: "('priv, 'pub) Snapshot \<Rightarrow> string + 'priv TokenMaterial" where
  "activeMaterial s =
     (if sn_activeSigningKid s \<in> {None, Some []} then Inl token_signing
      else if sn_activeEncryptionKid s \<in> {None, Some []} then Inl token_encryption
      else
        (case (map_of (sn_signing s) (the (sn_activeSigningKid s)),
               map_of (sn_encryption s) (the (sn_activeEncryptionKid s))) of
           (None, _) \<Rightarrow> Inl token_signing
         | (_, None) \<Rightarrow> Inl token_encryption
         | (Some sg, Some en) \<Rightarrow>
             Inr \<lparr>tm_signingKid = sg_kid sg, tm_signingKey = sg_privateKey sg,
                  tm_encryptionKid = en_kid en, tm_encryptionKey = en_secret en\<rparr>))"

definition jwks :: "('priv, 'pub) Snapshot \<Rightarrow> int \<Rightarrow> JWK list" where
  "jwks s now =
     map sg_publicJwk
       (filter (\<lambda>k. isKeyUsable (sg_state k) (sg_notAfter k) now)
          (filter (\<lambda>k. sg_state k = ks_active \<or> sg_state k = ks_retiring) (map snd (sn_signing s))))"

section \<open>What a snapshot holds\<close>

definition signing_entry ::
    "Gcm \<Rightarrow> ('priv, 'pub, 'z) Jose_scheme \<Rightarrow> LocalKeyProvider \<Rightarrow> StoredKeyRow \<Rightarrow> (string \<times> ('priv, 'pub) SnapSigning) option" where
  "signing_entry gcm jose provider row =
     (case loadStoredKey gcm jose provider row of
        Inr (LoadedSigningKey kid priv pub jwk) \<Rightarrow>
          Some (kid, \<lparr>sg_kid = kid, sg_privateKey = priv, sg_publicKey = pub, sg_publicJwk = jwk,
                      sg_state = kr_state row, sg_notAfter = kr_notAfter row\<rparr>)
      | _ \<Rightarrow> None)"

definition encryption_entry ::
    "Gcm \<Rightarrow> ('priv, 'pub, 'z) Jose_scheme \<Rightarrow> LocalKeyProvider \<Rightarrow> StoredKeyRow \<Rightarrow> (string \<times> SnapEncryption) option" where
  "encryption_entry gcm jose provider row =
     (case loadStoredKey gcm jose provider row of
        Inr (LoadedEncryptionKey kid secret) \<Rightarrow>
          Some (kid, \<lparr>en_kid = kid, en_secret = secret, en_state = kr_state row, en_notAfter = kr_notAfter row\<rparr>)
      | _ \<Rightarrow> None)"

definition last_active :: "(StoredKeyRow \<Rightarrow> 'e option) \<Rightarrow> StoredKeyRow list \<Rightarrow> string option \<Rightarrow> string option" where
  "last_active entry rows before =
     fold (\<lambda>r acc. if kr_state r = ks_active \<and> entry r \<noteq> None then Some (kr_kid r) else acc) rows before"

lemma loaded_signing_kid:
  "loadStoredKey gcm jose provider row = Inr (LoadedSigningKey kid priv pub jwk) \<Longrightarrow> kid = kr_kid row"
  by (auto simp: loadStoredKey_def Let_def split: option.splits if_splits sum.splits)

lemma loaded_encryption_kid:
  "loadStoredKey gcm jose provider row = Inr (LoadedEncryptionKey kid secret) \<Longrightarrow> kid = kr_kid row"
  by (auto simp: loadStoredKey_def Let_def split: option.splits if_splits sum.splits)

lemma signing_entry_kid: "signing_entry gcm jose provider row = Some e \<Longrightarrow> fst e = kr_kid row \<and> sg_kid (snd e) = kr_kid row"
  by (auto simp: signing_entry_def dest: loaded_signing_kid split: sum.splits LoadedKey.splits)

lemma encryption_entry_kid:
  "encryption_entry gcm jose provider row = Some e \<Longrightarrow> fst e = kr_kid row \<and> en_kid (snd e) = kr_kid row"
  by (auto simp: encryption_entry_def dest: loaded_encryption_kid split: sum.splits LoadedKey.splits)

text \<open>One row adds at most its own entry, whatever is there already.\<close>

lemma load_row_eq:
  "load_row gcm jose provider row s =
     s\<lparr>sn_signing := (case signing_entry gcm jose provider row of
         None \<Rightarrow> sn_signing s | Some e \<Rightarrow> map_set (fst e) (snd e) (sn_signing s)),
       sn_encryption := (case encryption_entry gcm jose provider row of
         None \<Rightarrow> sn_encryption s | Some e \<Rightarrow> map_set (fst e) (snd e) (sn_encryption s)),
       sn_activeSigningKid := (if kr_state row = ks_active \<and> signing_entry gcm jose provider row \<noteq> None
         then Some (kr_kid row) else sn_activeSigningKid s),
       sn_activeEncryptionKid := (if kr_state row = ks_active \<and> encryption_entry gcm jose provider row \<noteq> None
         then Some (kr_kid row) else sn_activeEncryptionKid s)\<rparr>"
proof (cases "loadStoredKey gcm jose provider row")
  case (Inl e)
  then show ?thesis by (simp add: load_row_def signing_entry_def encryption_entry_def)
next
  case (Inr key)
  then have "kr_wrappedKey row \<noteq> None" by (cases "kr_wrappedKey row") (simp_all add: loadStoredKey_def)
  with Inr show ?thesis
    by (cases key)
      (auto simp: load_row_def signing_entry_def encryption_entry_def dest: loaded_signing_kid loaded_encryption_kid)
qed

lemma map_set_new: "k \<notin> fst ` set m \<Longrightarrow> map_set k v m = m @ [(k, v)]"
  by (simp add: map_set_def)

lemma fold_load_row:
  assumes "distinct (map kr_kid rows)"
    and "\<forall>r \<in> set rows. kr_kid r \<notin> fst ` set (sn_signing s) \<and> kr_kid r \<notin> fst ` set (sn_encryption s)"
  shows "fold (load_row gcm jose provider) rows s =
     s\<lparr>sn_signing := sn_signing s @ List.map_filter (signing_entry gcm jose provider) rows,
       sn_encryption := sn_encryption s @ List.map_filter (encryption_entry gcm jose provider) rows,
       sn_activeSigningKid := last_active (signing_entry gcm jose provider) rows (sn_activeSigningKid s),
       sn_activeEncryptionKid := last_active (encryption_entry gcm jose provider) rows (sn_activeEncryptionKid s)\<rparr>"
  using assms
proof (induction rows arbitrary: s)
  case Nil
  then show ?case by (simp add: last_active_def map_filter_simps)
next
  case (Cons row rows)
  let ?s = "load_row gcm jose provider row s"
  have sg: "sn_signing ?s = sn_signing s @ (case signing_entry gcm jose provider row of None \<Rightarrow> [] | Some e \<Rightarrow> [e])"
    using Cons.prems(2) by (auto simp: load_row_eq map_set_new dest: signing_entry_kid split: option.split)
  have en: "sn_encryption ?s = sn_encryption s @ (case encryption_entry gcm jose provider row of None \<Rightarrow> [] | Some e \<Rightarrow> [e])"
    using Cons.prems(2) by (auto simp: load_row_eq map_set_new dest: encryption_entry_kid split: option.split)
  have own: "fst ` set (case signing_entry gcm jose provider row of None \<Rightarrow> [] | Some e \<Rightarrow> [e]) \<subseteq> {kr_kid row}"
    "fst ` set (case encryption_entry gcm jose provider row of None \<Rightarrow> [] | Some e \<Rightarrow> [e]) \<subseteq> {kr_kid row}"
    using signing_entry_kid [of gcm jose provider row] encryption_entry_kid [of gcm jose provider row]
    by (cases "signing_entry gcm jose provider row"; cases "encryption_entry gcm jose provider row"; simp)+
  have fresh: "\<forall>r \<in> set rows. kr_kid r \<notin> fst ` set (sn_signing ?s) \<and> kr_kid r \<notin> fst ` set (sn_encryption ?s)"
  proof
    fix r assume "r \<in> set rows"
    then have "kr_kid r \<noteq> kr_kid row" "kr_kid r \<notin> fst ` set (sn_signing s)" "kr_kid r \<notin> fst ` set (sn_encryption s)"
      using Cons.prems by (auto simp: image_iff)
    then show "kr_kid r \<notin> fst ` set (sn_signing ?s) \<and> kr_kid r \<notin> fst ` set (sn_encryption ?s)"
      unfolding sg en set_append image_Un using own by blast
  qed
  show ?case
    using Cons.IH [OF _ fresh] Cons.prems(1)
    by (simp add: sg en) (auto simp: load_row_eq last_active_def map_filter_simps split: option.split)
qed

lemma load_snapshot_eq:
  assumes "distinct (map kr_kid rows)"
  shows "load_snapshot gcm jose provider rows =
     \<lparr>sn_signing = List.map_filter (signing_entry gcm jose provider)
                      (filter (\<lambda>r. kr_state r \<in> {ks_active, ks_retiring}) rows),
      sn_encryption = List.map_filter (encryption_entry gcm jose provider)
                      (filter (\<lambda>r. kr_state r \<in> {ks_active, ks_retiring}) rows),
      sn_activeSigningKid = last_active (signing_entry gcm jose provider)
                      (filter (\<lambda>r. kr_state r \<in> {ks_active, ks_retiring}) rows) None,
      sn_activeEncryptionKid = last_active (encryption_entry gcm jose provider)
                      (filter (\<lambda>r. kr_state r \<in> {ks_active, ks_retiring}) rows) None\<rparr>"
  unfolding load_snapshot_def using assms by (subst fold_load_row) (auto simp: distinct_map_filter EMPTY_def)

lemma map_of_map_filter:
  assumes "distinct (map kr_kid rows)" and "\<And>r e. entry r = Some e \<Longrightarrow> fst e = kr_kid r"
  shows "map_of (List.map_filter entry (filter P rows)) kid =
     (case find (\<lambda>r. kr_kid r = kid) rows of
        None \<Rightarrow> None | Some r \<Rightarrow> if P r then map_option snd (entry r) else None)"
  using assms(1)
proof (induction rows)
  case Nil
  then show ?case by (simp add: map_filter_simps)
next
  case (Cons row rows)
  have "find (\<lambda>r. kr_kid r = kid) rows = None" if "kr_kid row = kid"
    using that Cons.prems by (auto simp: find_None_iff image_iff)
  with Cons assms(2) [of row] show ?case
    by (auto simp: map_filter_simps split: option.split)
qed

lemma lookup_signing:
  assumes "distinct (map kr_kid rows)"
  shows "map_of (sn_signing (load_snapshot gcm jose provider rows)) kid =
      (case find (\<lambda>r. kr_kid r = kid) rows of None \<Rightarrow> None
       | Some r \<Rightarrow> if kr_state r \<in> {ks_active, ks_retiring}
                   then map_option snd (signing_entry gcm jose provider r) else None)"
proof -
  have k: "\<And>r e. signing_entry gcm jose provider r = Some e \<Longrightarrow> fst e = kr_kid r"
    using signing_entry_kid by blast
  show ?thesis unfolding load_snapshot_eq [OF assms] by (simp add: map_of_map_filter [OF assms k] split: option.split)
qed

lemma lookup_encryption:
  assumes "distinct (map kr_kid rows)"
  shows "map_of (sn_encryption (load_snapshot gcm jose provider rows)) kid =
      (case find (\<lambda>r. kr_kid r = kid) rows of None \<Rightarrow> None
       | Some r \<Rightarrow> if kr_state r \<in> {ks_active, ks_retiring}
                   then map_option snd (encryption_entry gcm jose provider r) else None)"
proof -
  have k: "\<And>r e. encryption_entry gcm jose provider r = Some e \<Longrightarrow> fst e = kr_kid r"
    using encryption_entry_kid by blast
  show ?thesis unfolding load_snapshot_eq [OF assms] by (simp add: map_of_map_filter [OF assms k] split: option.split)
qed

lemma resolvers_eq:
  assumes "config_keys_ok rows"
  shows "resolve_signing (load_snapshot gcm jose provider rows) now kid =
       (case find (\<lambda>r. kr_kid r = kid) rows of
          None \<Rightarrow> None
        | Some row \<Rightarrow>
            if isKeyUsable (kr_state row) (kr_notAfter row) now
            then (case loadStoredKey gcm jose provider row of
                    Inr (LoadedSigningKey _ _ pub _) \<Rightarrow> Some pub | _ \<Rightarrow> None)
            else None) \<and>
     resolve_encryption (load_snapshot gcm jose provider rows) now kid =
       (case find (\<lambda>r. kr_kid r = kid) rows of
          None \<Rightarrow> None
        | Some row \<Rightarrow>
            if isKeyUsable (kr_state row) (kr_notAfter row) now
            then (case loadStoredKey gcm jose provider row of
                    Inr (LoadedEncryptionKey _ secret) \<Rightarrow> Some secret | _ \<Rightarrow> None)
            else None)"
proof -
  have d: "distinct (map kr_kid rows)" using assms by (simp add: config_keys_ok_def)
  note lookup = lookup_signing [OF d] lookup_encryption [OF d]
  show ?thesis
  proof (cases "find (\<lambda>r. kr_kid r = kid) rows")
    case None
    then show ?thesis by (simp add: resolve_signing_def resolve_encryption_def lookup)
  next
    case (Some row)
    have st: "kr_state row \<in> {ks_active, ks_retiring}" if "isKeyUsable (kr_state row) (kr_notAfter row) now"
      using that by (cases "kr_state row") (auto simp: isKeyUsable_def)
    show ?thesis
    proof (cases "loadStoredKey gcm jose provider row")
      case (Inl e)
      then show ?thesis
        by (simp add: resolve_signing_def resolve_encryption_def lookup Some signing_entry_def encryption_entry_def)
    next
      case (Inr key)
      with st show ?thesis
        by (cases key)
          (auto simp: resolve_signing_def resolve_encryption_def lookup Some signing_entry_def encryption_entry_def)
    qed
  qed
qed

section \<open>Created keys load\<close>

text \<open>What jose promises of a generated signing key: the exported private key has the public members
  that were exported at generation and imports again, and the published form imports as a public
  key.\<close>

definition generated_key :: "('priv, 'pub, 'z) Jose_scheme \<Rightarrow> FreshKey \<Rightarrow> 'priv \<Rightarrow> 'pub \<Rightarrow> JWK \<Rightarrow> bool" where
  "generated_key jose k priv pub jwk \<longleftrightarrow>
     derivePublicJwk jose (fk_privatePkcs8 k) = Some jwk \<and> sameKeyMaterial jwk (fk_public k) \<and>
     list_all (\<lambda>m. jget (fk_public k) m = None) PRIVATE_MEMBERS \<and>
     jo_importPkcs8 jose (fk_privatePkcs8 k) = Some priv \<and>
     importVerificationKey jose
       (jwk @ [(''kid'', JStr (fk_kid k)), (''alg'', JStr SIGNING_ALG), (''use'', JStr ''sig'')]) = Some pub"

definition wrap_ok :: "FreshKey \<Rightarrow> bool" where
  "wrap_ok k \<longleftrightarrow> length (fk_iv k) = IV_BYTES \<and> fk_privatePkcs8 k \<noteq> [] \<and> length (fk_secret k) = ENCRYPTION_KEY_BYTES"

lemma unwrap_own:
  assumes "gcm_correct gcm" "length iv = IV_BYTES" "p \<noteq> []"
  shows "unwrap gcm provider (wrap gcm provider iv p c) c = Some p"
proof -
  obtain body tag where s: "gc_seal gcm (kp_kek provider) iv (aad c) p = (body, tag)"
    by (cases "gc_seal gcm (kp_kek provider) iv (aad c) p")
  note ok = gcm_correct_sealed [OF assms(1) s]
  then have "body \<noteq> []" using assms(3) by auto
  with unwrap_wrap [OF s assms(2) ok(1)] ok(3) show ?thesis by simp
qed

lemma map_of_filter_keys: "map_of (filter (\<lambda>(m, v). P m) xs) k = (if P k then map_of xs k else None)"
  by (induction xs) auto

lemma jget_generated:
  "m \<notin> {''kid'', ''alg'', ''use''} \<Longrightarrow> jget (generated_public_jwk k) m = jget (fk_public k) m"
  "jget (generated_public_jwk k) ''kid'' = Some (JStr (fk_kid k))"
  "jget (generated_public_jwk k) ''alg'' = Some (JStr SIGNING_ALG)"
  "jget (generated_public_jwk k) ''use'' = Some (JStr ''sig'')"
  by (simp_all add: jget_def generated_public_jwk_def map_add_def 
      map_of_filter_keys [of "\<lambda>m. m \<noteq> ''kid'' \<and> m \<noteq> ''alg'' \<and> m \<noteq> ''use''"] split: option.split)

lemma trusted_generated:
  assumes "generated_key jose k priv pub jwk"
    and "kr_publicJwk row = Some (JObj (generated_public_jwk k))" and "kr_kid row = fk_kid k"
  shows "trustedPublicJwk row jwk =
    Inr (jwk @ [(''kid'', JStr (fk_kid k)), (''alg'', JStr SIGNING_ALG), (''use'', JStr ''sig'')])"
proof -
  have "sameKeyMaterial jwk (generated_public_jwk k)"
    using assms(1) by (simp add: generated_key_def sameKeyMaterial_def jget_generated)
  moreover have "filter (\<lambda>m. jget (generated_public_jwk k) m \<noteq> None) PRIVATE_MEMBERS = []"
    using assms(1) by (simp add: generated_key_def PRIVATE_MEMBERS_def jget_generated)
  ultimately show ?thesis
    by (simp add: trustedPublicJwk_def assms(2,3) jget_generated(2-4))
qed

text \<open>A row that \<open>createPending\<close> wrote, whatever its state is now, loads to the generated key.\<close>

lemma pending_signing_loads:
  assumes "gcm_correct gcm" "wrap_ok k" "generated_key jose k priv pub jwk"
    and row: "row = (pending_row gcm provider token_signing k)\<lparr>kr_state := st\<rparr>"
  shows "loadStoredKey gcm jose provider row = Inr (LoadedSigningKey (fk_kid k) priv pub
    (jwk @ [(''kid'', JStr (fk_kid k)), (''alg'', JStr SIGNING_ALG), (''use'', JStr ''sig'')]))"
proof -
  have f: "kr_publicJwk row = Some (JObj (generated_public_jwk k))" "kr_kid row = fk_kid k"
      "kr_wrappedKey row = Some (wrap gcm provider (fk_iv k) (fk_privatePkcs8 k)
         \<lparr>kc_purpose = token_signing, kc_kid = fk_kid k\<rparr>)"
      "kr_kekId row = kp_id provider" "kr_purpose row = token_signing" "kr_algorithm row = SIGNING_ALG"
    by (simp_all add: row pending_row_def SIGNING_ALG_def)
  have "unwrap gcm provider (wrap gcm provider (fk_iv k) (fk_privatePkcs8 k) c) c = Some (fk_privatePkcs8 k)" for c
    using assms(1,2) by (intro unwrap_own) (auto simp: wrap_ok_def)
  then show ?thesis
    using assms(3) trusted_generated [OF assms(3) f(1,2)] by (simp add: loadStoredKey_def f generated_key_def)
qed

lemma pending_encryption_loads:
  assumes "gcm_correct gcm" "wrap_ok k"
    and row: "row = (pending_row gcm provider token_encryption k)\<lparr>kr_state := st\<rparr>"
  shows "loadStoredKey gcm jose provider row = Inr (LoadedEncryptionKey (fk_kid k) (fk_secret k))"
proof -
  have ne: "token_encryption \<noteq> token_signing" by (simp add: token_encryption_def token_signing_def)
  have f: "kr_kid row = fk_kid k"
      "kr_wrappedKey row = Some (wrap gcm provider (fk_iv k) (fk_secret k)
         \<lparr>kc_purpose = token_encryption, kc_kid = fk_kid k\<rparr>)"
      "kr_kekId row = kp_id provider" "kr_purpose row = token_encryption" "kr_algorithm row = ENCRYPTION_ALG"
    by (simp_all add: row pending_row_def ENCRYPTION_ALG_def ne)
  have "unwrap gcm provider (wrap gcm provider (fk_iv k) (fk_secret k) c) c = Some (fk_secret k)" for c
    using assms(1,2) by (intro unwrap_own) (auto simp: wrap_ok_def ENCRYPTION_KEY_BYTES_def)
  then show ?thesis
    using assms(2) by (simp add: loadStoredKey_def f ne wrap_ok_def)
qed

text \<open>Loading reads neither the state nor the dates of a row.\<close>

lemma loadStoredKey_cong:
  assumes "kr_kid r' = kr_kid r" "kr_purpose r' = kr_purpose r" "kr_algorithm r' = kr_algorithm r"
    "kr_wrappedKey r' = kr_wrappedKey r" "kr_kekId r' = kr_kekId r" "kr_publicJwk r' = kr_publicJwk r"
  shows "loadStoredKey gcm jose provider r' = loadStoredKey gcm jose provider r"
  unfolding loadStoredKey_def trustedPublicJwk_def assms by (rule refl)

lemma loadStoredKey_retire [simp]:
  "loadStoredKey gcm jose provider (retire now na r) = loadStoredKey gcm jose provider r"
  by (rule loadStoredKey_cong) (simp_all add: retire_def)

lemma find_kid:
  assumes "config_keys_ok rows" "r \<in> set rows"
  shows "find (\<lambda>x. kr_kid x = kr_kid r) rows = Some r"
proof (cases "find (\<lambda>x. kr_kid x = kr_kid r) rows")
  case None
  then show ?thesis using assms(2) by (auto simp: find_None_iff)
next
  case (Some x)
  then show ?thesis using kid_unique [OF assms(1)] assms(2) by (auto simp: find_Some_iff)
qed

lemma last_active_unique:
  assumes "s \<in> set rows" "kr_state s = ks_active" "entry s \<noteq> None"
    and "\<And>r. r \<in> set rows \<Longrightarrow> kr_state r = ks_active \<Longrightarrow> entry r \<noteq> None \<Longrightarrow> r = s"
  shows "last_active entry rows before = Some (kr_kid s)"
  using assms(1,4)
proof (induction rows rule: rev_induct)
  case Nil
  then show ?case by simp
next
  case (snoc r rows)
  show ?case
  proof (cases "r = s")
    case True
    then show ?thesis using assms(2,3) by (simp add: last_active_def)
  next
    case False
    then have "\<not> (kr_state r = ks_active \<and> entry r \<noteq> None)" using snoc.prems(2) [of r] by (auto simp del: not_None_eq)
    with False snoc show ?thesis by (auto simp: last_active_def)
  qed
qed

lemma find_rotated:
  assumes "fk_kid k \<notin> kr_kid ` set rows"
  shows "find (\<lambda>r. kr_kid r = kid) (rotated gcm provider now overlap purpose k rows) =
     (if kid = fk_kid k then Some ((pending_row gcm provider purpose k)\<lparr>kr_state := ks_active\<rparr>)
      else map_option (retire_active now (now + overlap * 1000) purpose) (find (\<lambda>r. kr_kid r = kid) rows))"
  using assms by (induction rows) (auto simp: rotated_def)

lemma loaded_purpose:
  "signing_entry gcm jose provider r \<noteq> None \<Longrightarrow> kr_purpose r = token_signing"
  "encryption_entry gcm jose provider r \<noteq> None \<Longrightarrow> kr_purpose r = token_encryption"
  by (auto simp: signing_entry_def encryption_entry_def loadStoredKey_def Let_def
      split: option.splits if_splits sum.splits LoadedKey.splits)

lemma active_kid:
  assumes "config_keys_ok rows" "r \<in> set rows" "kr_state r = ks_active"
  shows "signing_entry gcm jose provider r \<noteq> None \<Longrightarrow>
      sn_activeSigningKid (load_snapshot gcm jose provider rows) = Some (kr_kid r)"
    and "encryption_entry gcm jose provider r \<noteq> None \<Longrightarrow>
      sn_activeEncryptionKid (load_snapshot gcm jose provider rows) = Some (kr_kid r)"
proof -
  have d: "distinct (map kr_kid rows)" using assms(1) by (simp add: config_keys_ok_def)
  note unique = one_active_unique [OF assms(1) _ assms(2) _ assms(3)]
  show "sn_activeSigningKid (load_snapshot gcm jose provider rows) = Some (kr_kid r)"
    if e: "signing_entry gcm jose provider r \<noteq> None"
    unfolding load_snapshot_eq [OF d] Snapshot.simps
  proof (rule last_active_unique)
    show "signing_entry gcm jose provider r \<noteq> None" by (rule e)
    show "x = r" if "x \<in> set (filter (\<lambda>r. kr_state r \<in> {ks_active, ks_retiring}) rows)"
      "kr_state x = ks_active" "signing_entry gcm jose provider x \<noteq> None" for x
      using that unique [of x] loaded_purpose(1) [OF e] loaded_purpose(1) [OF that(3)] by simp
  qed (simp_all add: assms)
  show "sn_activeEncryptionKid (load_snapshot gcm jose provider rows) = Some (kr_kid r)"
    if e: "encryption_entry gcm jose provider r \<noteq> None"
    unfolding load_snapshot_eq [OF d] Snapshot.simps
  proof (rule last_active_unique)
    show "encryption_entry gcm jose provider r \<noteq> None" by (rule e)
    show "x = r" if "x \<in> set (filter (\<lambda>r. kr_state r \<in> {ks_active, ks_retiring}) rows)"
      "kr_state x = ks_active" "encryption_entry gcm jose provider x \<noteq> None" for x
      using that unique [of x] loaded_purpose(2) [OF e] loaded_purpose(2) [OF that(3)] by simp
  qed (simp_all add: assms)
qed

lemma rotated_new_row:
  "(pending_row gcm provider purpose k)\<lparr>kr_state := ks_active\<rparr> \<in> set (rotated gcm provider now overlap purpose k rows)"
  by (simp add: rotated_def)

text \<open>A resolver answers for a key id by the one row that has it: with the key that row loads
  to, when the row is active or retiring and its overlap has not ended, and with nothing otherwise.
  So a row that cannot be loaded costs its own key and no other.\<close>

theorem resolvers_follow_table:
  assumes "config_keys_ok rows"
  shows "resolve_signing (load_snapshot gcm jose provider rows) now kid =
       (case find (\<lambda>r. kr_kid r = kid) rows of
          None \<Rightarrow> None
        | Some row \<Rightarrow>
            if isKeyUsable (kr_state row) (kr_notAfter row) now
            then (case loadStoredKey gcm jose provider row of
                    Inr (LoadedSigningKey _ _ pub _) \<Rightarrow> Some pub | _ \<Rightarrow> None)
            else None) \<and>
     resolve_encryption (load_snapshot gcm jose provider rows) now kid =
       (case find (\<lambda>r. kr_kid r = kid) rows of
          None \<Rightarrow> None
        | Some row \<Rightarrow>
            if isKeyUsable (kr_state row) (kr_notAfter row) now
            then (case loadStoredKey gcm jose provider row of
                    Inr (LoadedEncryptionKey _ secret) \<Rightarrow> Some secret | _ \<Rightarrow> None)
            else None)"
  using resolvers_eq [OF assms] .

text \<open>A jose whose private keys are their own encoding and whose JWK names its key in \<open>x\<close>.\<close>

definition demo_jose :: "(bytes, JWK) Jose" where
  "demo_jose =
     \<lparr>jo_exportPrivate = (\<lambda>p. Some [(''kty'', JStr ''EC''), (''x'', JStr (map (\<lambda>b. unit_char (unat b)) p)), (''d'', JStr ''secret'')]),
      jo_importPkcs8 = Some, jo_importJwk = (\<lambda>j. Some (Inl j))\<rparr>"

definition demo_jwk :: "string \<Rightarrow> JWK" where
  "demo_jwk kid = [(''kty'', JStr ''EC''), (''x'', JStr kid)]"

lemma chars_of_utf8: "list_all (\<lambda>c. code_unit c < 128) s \<Longrightarrow> map (\<lambda>b. unit_char (unat b)) (utf8 s) = s"
  by (induction s) (auto simp: utf8_Cons utf8_char_def Let_def unat_of_nat take_bit_nat_def)

lemma demo_generated:
  assumes "list_all (\<lambda>c. code_unit c < 128) kid"
  shows "generated_key demo_jose (demo_key kid) (utf8 kid)
    (demo_jwk kid @ [(''kid'', JStr kid), (''alg'', JStr SIGNING_ALG), (''use'', JStr ''sig'')]) (demo_jwk kid)"
  using chars_of_utf8 [OF assms]
  by (simp add: generated_key_def demo_jose_def demo_key_def demo_jwk_def derivePublicJwk_def EC_MEMBERS_def
        sameKeyMaterial_def jget_def PRIVATE_MEMBERS_def importVerificationKey_def)

lemma demo_wrap_ok: "kid \<noteq> [] \<Longrightarrow> wrap_ok (demo_key kid)"
  by (auto simp: wrap_ok_def demo_key_def IV_BYTES_def ENCRYPTION_KEY_BYTES_def utf8_def)

theorem resolvers_follow_table_witness:
  "resolve_signing (load_snapshot demo_gcm demo_jose demo_provider demo_rows) 2000 ''nope'' = None"
proof -
  have "find (\<lambda>r. kr_kid r = ''nope'') demo_rows = None"
    using demo_kid_fresh [of "''nope''"] by (auto simp: find_None_iff image_iff)
  with resolvers_follow_table [OF demo_rows_ok, of demo_gcm demo_jose demo_provider 2000 "''nope''"]
  show ?thesis by simp
qed

section \<open>Rotation seen from a running instance\<close>

lemma isKeyUsable_retiring: "isKeyUsable ks_retiring (Some na) t \<longleftrightarrow> t < na"
  by (auto simp: isKeyUsable_def)

lemma isKeyUsable_active: "isKeyUsable ks_active None t"
  by (simp add: isKeyUsable_def)

lemma resolve_signing_rotated:
  assumes "config_keys_ok rows" "fk_kid k \<notin> kr_kid ` set rows" "purpose \<in> set PURPOSES"
  shows "resolve_signing (load_snapshot gcm jose provider (rotated gcm provider now overlap purpose k rows)) t kid =
     (case (if kid = fk_kid k then Some ((pending_row gcm provider purpose k)\<lparr>kr_state := ks_active\<rparr>)
            else map_option (retire_active now (now + overlap * 1000) purpose) (find (\<lambda>r. kr_kid r = kid) rows)) of
        None \<Rightarrow> None
      | Some row \<Rightarrow>
          if isKeyUsable (kr_state row) (kr_notAfter row) t
          then (case loadStoredKey gcm jose provider row of
                  Inr (LoadedSigningKey _ _ pub _) \<Rightarrow> Some pub | _ \<Rightarrow> None)
          else None)"
  using resolvers_eq [OF rotated_ok [OF assms]] unfolding find_rotated [OF assms(2)] by (rule conjunct1)

text \<open>After a rotation of the signing key, an instance that reloads signs with the new key and
  accepts it, keeps accepting the previous key with the same public key until the overlap has passed
  and not after, and answers for every other key id as before.\<close>

theorem rotation_seen_by_registry:
  assumes "config_keys_ok rows" and "fk_kid k \<notin> kr_kid ` set rows"
    and "old \<in> set rows" and "kr_purpose old = token_signing" and "kr_state old = ks_active"
    and "gcm_correct gcm" and "wrap_ok k" and "generated_key jose k priv pub jwk"
    and "rows' = snd (rotate_purpose gcm provider now overlap token_signing k rows)"
    and "snap = load_snapshot gcm jose provider rows" and "snap' = load_snapshot gcm jose provider rows'"
  shows "sn_activeSigningKid snap' = Some (fk_kid k) \<and>
     resolve_signing snap' t (fk_kid k) = Some pub \<and>
     resolve_signing snap' t (kr_kid old) =
       (if t < now + overlap * 1000
        then (case loadStoredKey gcm jose provider old of
                Inr (LoadedSigningKey _ _ p _) \<Rightarrow> Some p | _ \<Rightarrow> None)
        else None) \<and>
     (kid \<noteq> fk_kid k \<and> kid \<noteq> kr_kid old \<longrightarrow> resolve_signing snap' t kid = resolve_signing snap t kid)"
proof -
  have p: "token_signing \<in> set PURPOSES" by (simp add: PURPOSES_def)
  note ok = rotated_ok [OF assms(1,2) p, of gcm provider now overlap]
  have snap': "snap' = load_snapshot gcm jose provider (rotated gcm provider now overlap token_signing k rows)"
    using assms(9,11) by (simp add: rotate_purpose_eq [OF assms(1,2) p])
  note res = resolve_signing_rotated [OF assms(1,2) p, of gcm jose provider now overlap t, folded snap']
  let ?new = "(pending_row gcm provider token_signing k)\<lparr>kr_state := ks_active\<rparr>"
  note loads = pending_signing_loads [OF assms(6,7,8), where row = ?new, OF refl]
  have "sn_activeSigningKid snap' = Some (kr_kid ?new)"
    unfolding snap' by (rule active_kid(1) [OF ok rotated_new_row]) (simp_all add: signing_entry_def loads)
  moreover have "resolve_signing snap' t (fk_kid k) = Some pub"
    unfolding res by (simp add: loads isKeyUsable_active) (simp add: isKeyUsable_def pending_row_def Let_def)
  moreover have "kr_kid old \<noteq> fk_kid k" using assms(2,3) by (metis image_eqI)
  then have "resolve_signing snap' t (kr_kid old) =
      (if t < now + overlap * 1000
       then (case loadStoredKey gcm jose provider old of Inr (LoadedSigningKey _ _ p _) \<Rightarrow> Some p | _ \<Rightarrow> None)
       else None)"
    unfolding res by (simp add: find_kid [OF assms(1,3)] retire_active_def assms(4,5) isKeyUsable_retiring)
  moreover have "resolve_signing snap' t kid = resolve_signing snap t kid"
    if "kid \<noteq> fk_kid k" "kid \<noteq> kr_kid old"
  proof (cases "find (\<lambda>r. kr_kid r = kid) rows")
    case None
    then show ?thesis using that(1) resolvers_eq [OF assms(1), of gcm jose provider t kid] by (simp add: res assms(10))
  next
    case (Some row)
    then have "row \<in> set rows" "row \<noteq> old" using that(2) by (auto simp: find_Some_iff)
    then have "retire_active now (now + overlap * 1000) token_signing row = row"
      using one_active_unique [OF assms(1) _ assms(3)] assms(4,5) by (auto simp: retire_active_def)
    then show ?thesis
      using that(1) Some resolvers_eq [OF assms(1), of gcm jose provider t kid] by (simp add: res assms(10))
  qed
  ultimately show ?thesis by simp
qed

theorem rotation_seen_by_registry_witness:
  "sn_activeSigningKid (load_snapshot demo_gcm demo_jose demo_provider
     (snd (rotate_purpose demo_gcm demo_provider 5000 905 token_signing (demo_key ''s2'') demo_rows))) = Some ''s2''"
proof -
  have "fk_kid (demo_key ''s2'') \<notin> kr_kid ` set demo_rows" by (simp add: demo_kid_fresh)
  moreover have "hd demo_rows \<in> set demo_rows" "kr_purpose (hd demo_rows) = token_signing"
    "kr_state (hd demo_rows) = ks_active"
    by (simp_all add: demo_rows_eq rotated_def retire_active_def token_signing_def token_encryption_def)
  moreover have "wrap_ok (demo_key ''s2'')" by (simp add: demo_wrap_ok)
  moreover note demo_generated [of "''s2''"]
  ultimately show ?thesis
    using rotation_seen_by_registry [OF demo_rows_ok, of "demo_key ''s2''" "hd demo_rows" demo_gcm demo_jose,
        OF _ _ _ _ demo_gcm_correct _ _ refl refl refl, where now = 5000 and overlap = 905]
    by (simp add: code_unit_def)
qed

section \<open>The published key set\<close>

definition PUBLISHED_MEMBERS :: "string list" where
  "PUBLISHED_MEMBERS = EC_MEMBERS @ [''kid'', ''alg'', ''use'']"

lemma loaded_jwk:
  assumes "loadStoredKey gcm jose provider row = Inr (LoadedSigningKey kid priv pub jwk)"
  shows "fst ` set jwk \<subseteq> set PUBLISHED_MEMBERS \<and> jget jwk ''kid'' = Some (JStr (kr_kid row))"
proof -
  obtain p derived where d: "derivePublicJwk jose p = Some derived"
      and jwk: "jwk = derived @ [(''kid'', JStr (kr_kid row)), (''alg'', JStr SIGNING_ALG), (''use'', JStr ''sig'')]"
    using assms
    by (auto simp: loadStoredKey_def trustedPublicJwk_def Let_def split: option.splits if_splits sum.splits json.splits)
  from d have sub: "fst ` set derived \<subseteq> set EC_MEMBERS" by (auto simp: derivePublicJwk_def)
  then have "''kid'' \<notin> fst ` set derived" by (auto simp: EC_MEMBERS_def)
  then have "map_of derived ''kid'' = None" by (simp add: map_of_eq_None_iff)
  with sub show ?thesis by (auto simp: jwk PUBLISHED_MEMBERS_def jget_def map_add_def)
qed

definition published_row :: "Gcm \<Rightarrow> ('priv, 'pub, 'z) Jose_scheme \<Rightarrow> LocalKeyProvider \<Rightarrow> StoredKeyRow \<Rightarrow> JWK option" where
  "published_row gcm jose provider row =
     (case loadStoredKey gcm jose provider row of Inr (LoadedSigningKey _ _ _ jwk) \<Rightarrow> Some jwk | _ \<Rightarrow> None)"

lemma jwks_eq:
  assumes "distinct (map kr_kid rows)"
  shows "jwks (load_snapshot gcm jose provider rows) now =
     List.map_filter (published_row gcm jose provider)
       (filter (\<lambda>r. isKeyUsable (kr_state r) (kr_notAfter r) now) rows)"
proof -
  have "map sg_publicJwk (filter (\<lambda>k. isKeyUsable (sg_state k) (sg_notAfter k) now)
          (filter (\<lambda>k. sg_state k = ks_active \<or> sg_state k = ks_retiring)
            (map snd (List.map_filter (signing_entry gcm jose provider)
              (filter (\<lambda>r. kr_state r \<in> {ks_active, ks_retiring}) rs))))) =
      List.map_filter (published_row gcm jose provider)
       (filter (\<lambda>r. isKeyUsable (kr_state r) (kr_notAfter r) now) rs)" for rs
  proof (induction rs)
    case Nil
    then show ?case by (simp add: map_filter_simps)
  next
    case (Cons r rs)
    have "kr_state r \<in> {ks_active, ks_retiring}" if "isKeyUsable (kr_state r) (kr_notAfter r) now"
      using that by (cases "kr_state r") (auto simp: isKeyUsable_def)
    with Cons show ?case
      by (auto simp: map_filter_simps signing_entry_def published_row_def split: sum.split LoadedKey.split)
  qed
  then show ?thesis by (simp add: jwks_def load_snapshot_eq [OF assms])
qed

lemma published_members:
  "published_row gcm jose provider r = Some jwk \<Longrightarrow>
     fst ` set jwk \<subseteq> set PUBLISHED_MEMBERS \<and> jget jwk ''kid'' = Some (JStr (kr_kid r))"
  using loaded_jwk [of gcm jose provider r] by (simp add: published_row_def split: sum.splits LoadedKey.splits)

lemma set_jwks:
  assumes "distinct (map kr_kid rows)"
  shows "set (jwks (load_snapshot gcm jose provider rows) now) =
      {jwk. \<exists>r \<in> set rows. isKeyUsable (kr_state r) (kr_notAfter r) now \<and> published_row gcm jose provider r = Some jwk}"
  by (force simp: jwks_eq [OF assms] map_filter_def)

lemma published_iff_resolved:
  assumes "config_keys_ok rows"
  shows "resolve_signing (load_snapshot gcm jose provider rows) now kid \<noteq> None \<longleftrightarrow>
     (\<exists>jwk \<in> set (jwks (load_snapshot gcm jose provider rows) now). jget jwk ''kid'' = Some (JStr kid))"
proof -
  have d: "distinct (map kr_kid rows)" using assms by (simp add: config_keys_ok_def)
  note pub = published_members [of gcm jose provider, THEN conjunct2] and set = set_jwks [OF d]
  have "resolve_signing (load_snapshot gcm jose provider rows) now kid \<noteq> None \<longleftrightarrow>
      (\<exists>r \<in> set rows. kr_kid r = kid \<and> isKeyUsable (kr_state r) (kr_notAfter r) now \<and>
         published_row gcm jose provider r \<noteq> None)"
  proof (cases "find (\<lambda>r. kr_kid r = kid) rows")
    case None
    then have "\<forall>r \<in> set rows. kr_kid r \<noteq> kid" by (auto simp: find_None_iff)
    then show ?thesis using resolvers_eq [OF assms, of gcm jose provider now kid] by (simp add: None)
  next
    case (Some row)
    then have row: "row \<in> set rows" "kr_kid row = kid" by (auto simp: find_Some_iff)
    then have uniq: "r \<in> set rows \<and> kr_kid r = kid \<longleftrightarrow> r = row" for r
      using kid_unique [OF assms] by auto
    have "resolve_signing (load_snapshot gcm jose provider rows) now kid \<noteq> None \<longleftrightarrow>
        isKeyUsable (kr_state row) (kr_notAfter row) now \<and> published_row gcm jose provider row \<noteq> None"
      using resolvers_eq [OF assms, of gcm jose provider now kid]
      by (simp add: Some published_row_def split: sum.split LoadedKey.split)
    then show ?thesis using uniq by metis
  qed
  also have "\<dots> \<longleftrightarrow> (\<exists>jwk \<in> set (jwks (load_snapshot gcm jose provider rows) now). jget jwk ''kid'' = Some (JStr kid))"
    unfolding set using pub by (auto simp: Bex_def)
  finally show ?thesis .
qed

text \<open>C23: The published key set names exactly the signing keys this instance would accept at that
  moment, and no published key carries a member beyond the public point, its key id, algorithm and
  use, so no private member is ever published.\<close>

theorem jwks_is_what_verifies:
  assumes "config_keys_ok rows" and "snap = load_snapshot gcm jose provider rows"
  shows "(resolve_signing snap now kid \<noteq> None \<longleftrightarrow> (\<exists>jwk \<in> set (jwks snap now). jget jwk ''kid'' = Some (JStr kid))) \<and>
     (\<forall>jwk \<in> set (jwks snap now). fst ` set jwk \<subseteq> {''kty'', ''crv'', ''x'', ''y'', ''kid'', ''alg'', ''use''})"
proof -
  have d: "distinct (map kr_kid rows)" using assms(1) by (simp add: config_keys_ok_def)
  have "fst ` set jwk \<subseteq> set PUBLISHED_MEMBERS" if "jwk \<in> set (jwks snap now)" for jwk
    using that published_members unfolding assms(2) set_jwks [OF d] by blast
  then show ?thesis
    using published_iff_resolved [OF assms(1), of gcm jose provider now kid]
    by (simp add: assms(2) PUBLISHED_MEMBERS_def EC_MEMBERS_def)
qed

theorem jwks_is_what_verifies_witness:
  "list_all (\<lambda>jwk. fst ` set jwk \<subseteq> {''kty'', ''crv'', ''x'', ''y'', ''kid'', ''alg'', ''use''})
     (jwks (load_snapshot demo_gcm demo_jose demo_provider demo_rows) 2000)"
  unfolding list_all_iff by (rule jwks_is_what_verifies [OF demo_rows_ok refl, THEN conjunct2])

section \<open>Reloads\<close>

text \<open>A running instance: its clock, the service, and the times at which an unknown key id made it
  start a reload. The clock does not run backwards.\<close>

record ('priv, 'pub) RegistryRun =
  ry_now :: int
  ry_service :: "('priv, 'pub) KeyRegistryService"
  ry_misses :: "int list"

inductive registry_step ::
    "Gcm \<Rightarrow> ('priv, 'pub) Jose \<Rightarrow> LocalKeyProvider \<Rightarrow> ('priv, 'pub) RegistryRun \<Rightarrow> ('priv, 'pub) RegistryRun \<Rightarrow> bool"
  for gcm jose provider where
  clock_ticks: "ry_now s \<le> now' \<Longrightarrow> registry_step gcm jose provider s (s\<lparr>ry_now := now'\<rparr>)"
| timer_fires: "registry_step gcm jose provider s (s\<lparr>ry_service := refresh_begin (ry_now s) (ry_service s)\<rparr>)"
| timer_reload_ends: "registry_step gcm jose provider s (s\<lparr>ry_service := refresh_end gcm jose provider rows (ry_service s)\<rparr>)"
| verification_fails: "refreshIfStale (ry_now s) (ry_service s) = (answer, service') \<Longrightarrow>
    registry_step gcm jose provider s
      (s\<lparr>ry_service := service', ry_misses := (if answer = StartReload then ry_now s # ry_misses s else ry_misses s)\<rparr>)"
| miss_reload_ends: "rg_inFlight (ry_service s) \<Longrightarrow>
    registry_step gcm jose provider s (s\<lparr>ry_service := reload_settled gcm jose provider rows (ry_service s)\<rparr>)"

fun spaced :: "int list \<Rightarrow> bool" where
  "spaced [] = True"
| "spaced [t] = True"
| "spaced (t # t' # ts) = (t' + REFRESH_COOLDOWN_MS \<le> t \<and> spaced (t' # ts))"

lemma spaced_Cons: "spaced (t # ts) \<longleftrightarrow> spaced ts \<and> (ts \<noteq> [] \<longrightarrow> hd ts + REFRESH_COOLDOWN_MS \<le> t)"
  by (cases ts) auto

definition run_ok :: "('priv, 'pub) RegistryRun \<Rightarrow> bool" where
  "run_ok s \<longleftrightarrow> rg_lastRefreshAt (ry_service s) \<le> ry_now s \<and> spaced (ry_misses s) \<and>
     (ry_misses s \<noteq> [] \<longrightarrow> hd (ry_misses s) \<le> rg_lastRefreshAt (ry_service s))"

lemma refreshIfStale_cases:
  assumes "refreshIfStale now s = (answer, s')"
  obtains "answer \<noteq> StartReload" "s' = s"
  | "answer = StartReload" "rg_lastRefreshAt s + REFRESH_COOLDOWN_MS \<le> now" "rg_lastRefreshAt s' = now"
  using assms by (auto simp: refreshIfStale_def refresh_begin_def split: if_splits)

lemma registry_step_ok: "registry_step gcm jose provider s t \<Longrightarrow> run_ok s \<Longrightarrow> run_ok t"
proof (induction rule: registry_step.induct)
  case (verification_fails s answer service')
  from verification_fails(1) show ?case
    by (cases rule: refreshIfStale_cases)
      (use verification_fails(2) in \<open>auto simp: run_ok_def spaced_Cons simp del: spaced.simps\<close>)
qed (auto simp: run_ok_def refresh_begin_def refresh_end_def reload_settled_def split: option.split)

interpretation reloads: invariant_system
  "\<lambda>s. ry_misses s = [] \<and> rg_lastRefreshAt (ry_service s) \<le> ry_now s" "registry_step gcm jose provider" run_ok
  for gcm :: Gcm and jose :: "('priv, 'pub) Jose" and provider
proof
  show "run_ok t" if "run_ok s" "registry_step gcm jose provider s t" for s t
    using that by (blast intro: registry_step_ok)
qed (simp add: run_ok_def)

lemma spaced_bound: "spaced (t # ts) \<Longrightarrow> t' \<in> set ts \<Longrightarrow> t' + REFRESH_COOLDOWN_MS \<le> t"
  by (induction ts arbitrary: t rule: induct_list012) (force simp: REFRESH_COOLDOWN_MS_def)+

lemma spaced_window:
  "spaced ts \<Longrightarrow> length (filter (\<lambda>t. a \<le> t \<and> t < a + REFRESH_COOLDOWN_MS) ts) \<le> 1"
proof (induction ts)
  case Nil
  then show ?case by simp
next
  case (Cons t ts)
  have "spaced ts" using Cons.prems by (cases ts) auto
  moreover have "filter (\<lambda>t. a \<le> t \<and> t < a + REFRESH_COOLDOWN_MS) ts = []" if "a \<le> t" "t < a + REFRESH_COOLDOWN_MS"
    using that spaced_bound [OF Cons.prems] by (fastforce simp: filter_empty_conv)
  ultimately show ?case using Cons.IH by auto
qed

text \<open>However many tokens with unknown key ids arrive, and however they interleave with the
  periodic reloads and with queries that are slow or fail, they start at most one reload in any window
  of thirty seconds.\<close>

theorem misses_reload_once_per_cooldown:
  assumes "ry_misses s = []" and "rg_lastRefreshAt (ry_service s) \<le> ry_now s"
    and "reaches (registry_step gcm jose provider) s t"
  shows "length (filter (\<lambda>at. a \<le> at \<and> at < a + 30000) (ry_misses t)) \<le> 1"
  using spaced_window [of "ry_misses t" a] reloads.reachable_inv [OF _ assms(3)] assms(1,2)
  by (simp add: run_ok_def REFRESH_COOLDOWN_MS_def)

definition demo_run :: "int list \<Rightarrow> int \<Rightarrow> bool \<Rightarrow> (bytes, JWK) RegistryRun" where
  "demo_run misses at flight =
     \<lparr>ry_now = 100000,
      ry_service = \<lparr>rg_snapshot = EMPTY, rg_lastRefreshAt = at, rg_inFlight = flight\<rparr>,
      ry_misses = misses\<rparr>"

theorem misses_reload_once_per_cooldown_witness:
  "reaches (registry_step demo_gcm demo_jose demo_provider) (demo_run [] 0 False) (demo_run [100000] 100000 True) \<and>
   length (filter (\<lambda>at. 90000 \<le> at \<and> at < 90000 + 30000) (ry_misses (demo_run [100000] 100000 True))) \<le> 1"
proof -
  let ?s = "demo_run [] 0 False"
  have "refreshIfStale (ry_now ?s) (ry_service ?s) = (StartReload, ry_service (demo_run [100000] 100000 True))"
    by (simp add: demo_run_def refreshIfStale_def refresh_begin_def REFRESH_COOLDOWN_MS_def)
  from verification_fails [OF this, of demo_gcm demo_jose demo_provider]
  have "registry_step demo_gcm demo_jose demo_provider ?s (demo_run [100000] 100000 True)"
    by (simp add: demo_run_def)
  then have r: "reaches (registry_step demo_gcm demo_jose demo_provider) ?s (demo_run [100000] 100000 True)"
    by (rule reaches_single)
  show ?thesis
    using r misses_reload_once_per_cooldown [OF _ _ r, of 90000] by (simp add: demo_run_def)
qed

end
