(* ===== verification/Tokens.thy ===== *)
theory Tokens
  imports Key_Registry
begin

text \<open>
  Access tokens: the nested-JWT codec of \<open>packages/crypto/src/tokens.ts\<close> and the token service of
  \<open>services/auth/src/auth/token.service.ts\<close>. jose's four entry points are the fields of a record,
  with the options the code passes as their arguments; a throw is None. Claims and headers are
  JavaScript objects as association lists.
\<close>

section \<open>The codec\<close>

definition JWS_ALG :: string where
  "JWS_ALG = SIGNING_ALG"

definition JWE_ALG :: string where
  "JWE_ALG = ENCRYPTION_ALG"

definition JWE_ENC :: string where
  "JWE_ENC = ''A256GCM''"

definition TOKEN_TYP :: string where
  "TOKEN_TYP = ''crbk-at+jwt''"

definition NESTED_CTY :: string where
  "NESTED_CTY = ''JWT''"

definition TOKEN_KEY_BYTES :: nat where
  "TOKEN_KEY_BYTES = ENCRYPTION_KEY_BYTES"

type_synonym claims = "(string \<times> json) list"

record TokenPolicy =
  tp_issuer :: string
  tp_audience :: string
  tp_ttlSeconds :: int
  tp_clockToleranceSeconds :: "int option"

record DecryptOptions =
  do_keyManagementAlgorithms :: "string list"
  do_contentEncryptionAlgorithms :: "string list"
  do_maxDecompressedLength :: nat

record VerifyOptions =
  vo_algorithms :: "string list"
  vo_issuer :: string
  vo_audience :: string
  vo_typ :: string
  vo_requiredClaims :: "string list"
  vo_clockTolerance :: int

text \<open>\<open>tj_sign\<close> signs a payload under a protected header, \<open>tj_encrypt\<close> encrypts bytes (its random
  content key is part of the function), \<open>tj_compactDecrypt\<close> and \<open>tj_jwtVerify\<close> take the callback that
  finds a key by header, and \<open>tj_jwtVerify\<close> the time in seconds.\<close>

record ('priv, 'pub) TokenJose =
  tj_sign :: "claims \<Rightarrow> claims \<Rightarrow> 'priv \<Rightarrow> string option"
  tj_encrypt :: "claims \<Rightarrow> bytes \<Rightarrow> bytes \<Rightarrow> string option"
  tj_compactDecrypt :: "string \<Rightarrow> (claims \<Rightarrow> bytes option) \<Rightarrow> DecryptOptions \<Rightarrow> (bytes \<times> claims) option"
  tj_jwtVerify :: "int \<Rightarrow> string \<Rightarrow> (claims \<Rightarrow> 'pub option) \<Rightarrow> VerifyOptions \<Rightarrow> (claims \<times> claims) option"

text \<open>\<open>TextDecoder.decode\<close>: a byte order mark is dropped; None is a text with a character outside the
  modelled range, which no compact serialisation contains.\<close>

fun utf8_decode :: "bytes \<Rightarrow> string option" where
  "utf8_decode [] = Some []"
| "utf8_decode (b # bs) =
     (if unat b < 128 then map_option (\<lambda>s. unit_char (unat b) # s) (utf8_decode bs)
      else (case bs of
              c # cs \<Rightarrow>
                if (unat b = 194 \<or> unat b = 195) \<and> 128 \<le> unat c \<and> unat c < 192
                then map_option (\<lambda>s. unit_char ((unat b - 192) * 64 + (unat c - 128)) # s) (utf8_decode cs)
                else None
            | [] \<Rightarrow> None))"

definition decodeText :: "bytes \<Rightarrow> string option" where
  "decodeText bs = utf8_decode (if take 3 bs = [239, 187, 191] then drop 3 bs else bs)"

record VerifiedToken =
  vt_claims :: claims
  vt_outerHeader :: claims
  vt_innerHeader :: claims

datatype token_error =
    WrongEncryptionKeyLength nat
  | MissingKid
  | SameKids
  | NoActiveKeyError string
  | JoseThrew
  | TokenVerificationError string

definition assertMaterial :: "'priv TokenMaterial \<Rightarrow> token_error option" where
  "assertMaterial material =
     (if length (tm_encryptionKey material) \<noteq> TOKEN_KEY_BYTES
      then Some (WrongEncryptionKeyLength (length (tm_encryptionKey material)))
      else if tm_signingKid material = [] \<or> tm_encryptionKid material = [] then Some MissingKid
      else if tm_signingKid material = tm_encryptionKid material then Some SameKids
      else None)"

text \<open>\<open>setIssuer\<close>, \<open>setAudience\<close>, \<open>setIssuedAt\<close> and \<open>setExpirationTime\<close> assign members of the payload;
  the time is in milliseconds and the two dates are whole seconds.\<close>

definition token_payload :: "int \<Rightarrow> TokenPolicy \<Rightarrow> claims \<Rightarrow> claims" where
  "token_payload now policy cs =
     map_set ''exp'' (JNum (now div 1000 + tp_ttlSeconds policy))
       (map_set ''iat'' (JNum (now div 1000))
         (map_set ''aud'' (JStr (tp_audience policy))
           (map_set ''iss'' (JStr (tp_issuer policy)) cs)))"

definition inner_header :: "string \<Rightarrow> claims" where
  "inner_header kid = [(''alg'', JStr JWS_ALG), (''typ'', JStr TOKEN_TYP), (''kid'', JStr kid)]"

definition outer_header :: "string \<Rightarrow> claims" where
  "outer_header kid =
     [(''alg'', JStr JWE_ALG), (''enc'', JStr JWE_ENC), (''cty'', JStr NESTED_CTY), (''typ'', JStr TOKEN_TYP),
      (''kid'', JStr kid)]"

definition issueNestedToken ::
    "('priv, 'pub) TokenJose \<Rightarrow> int \<Rightarrow> claims \<Rightarrow> 'priv TokenMaterial \<Rightarrow> TokenPolicy \<Rightarrow> token_error + string" where
  "issueNestedToken jose now cs material policy =
     (case assertMaterial material of
        Some e \<Rightarrow> Inl e
      | None \<Rightarrow>
          (case tj_sign jose (inner_header (tm_signingKid material)) (token_payload now policy cs)
                  (tm_signingKey material) of
             None \<Rightarrow> Inl JoseThrew
           | Some jws \<Rightarrow>
               (case tj_encrypt jose (outer_header (tm_encryptionKid material)) (utf8 jws)
                       (tm_encryptionKey material) of
                  None \<Rightarrow> Inl JoseThrew
                | Some token \<Rightarrow> Inr token)))"

text \<open>The two key callbacks: a header without a non-empty key id, or with one the resolver does not
  know, throws.\<close>

definition key_by_kid :: "(string \<Rightarrow> 'k option) \<Rightarrow> claims \<Rightarrow> 'k option" where
  "key_by_kid resolve header =
     (case jget header ''kid'' of
        Some (JStr kid) \<Rightarrow> if kid = [] then None else resolve kid
      | _ \<Rightarrow> None)"

definition decrypt_options :: DecryptOptions where
  "decrypt_options =
     \<lparr>do_keyManagementAlgorithms = [JWE_ALG], do_contentEncryptionAlgorithms = [JWE_ENC],
      do_maxDecompressedLength = 0\<rparr>"

definition verify_options :: "TokenPolicy \<Rightarrow> VerifyOptions" where
  "verify_options policy =
     \<lparr>vo_algorithms = [JWS_ALG], vo_issuer = tp_issuer policy, vo_audience = tp_audience policy,
      vo_typ = TOKEN_TYP,
      vo_requiredClaims = [''sub'', ''tid'', ''roles'', ''permissions'', ''iss'', ''aud'', ''exp'', ''iat''],
      vo_clockTolerance = (case tp_clockToleranceSeconds policy of None \<Rightarrow> 0 | Some t \<Rightarrow> t)\<rparr>"

definition verifyNestedToken ::
    "('priv, 'pub) TokenJose \<Rightarrow> int \<Rightarrow> string \<Rightarrow> (string \<Rightarrow> 'pub option) \<Rightarrow> (string \<Rightarrow> bytes option) \<Rightarrow> TokenPolicy \<Rightarrow>
     token_error + VerifiedToken" where
  "verifyNestedToken jose now token signing encryption policy =
     (case tj_compactDecrypt jose token (key_by_kid encryption) decrypt_options of
        None \<Rightarrow> Inl (TokenVerificationError ''decryption failed'')
      | Some (plaintext, outerHeader) \<Rightarrow>
          if jget outerHeader ''cty'' \<noteq> Some (JStr NESTED_CTY)
          then Inl (TokenVerificationError ''outer header is not a nested JWT'')
          else
            (case Option.bind (decodeText plaintext)
                    (\<lambda>jws. tj_jwtVerify jose (now div 1000) jws (key_by_kid signing) (verify_options policy)) of
               None \<Rightarrow> Inl (TokenVerificationError ''signature or claims invalid'')
             | Some (payload, protectedHeader) \<Rightarrow>
                 Inr \<lparr>vt_claims = payload, vt_outerHeader = outerHeader, vt_innerHeader = protectedHeader\<rparr>))"

section \<open>The token service\<close>

definition token_policy :: "AppConfig \<Rightarrow> TokenPolicy" where
  "token_policy config =
     \<lparr>tp_issuer = cf_jwtIssuer config, tp_audience = cf_jwtAudience config,
      tp_ttlSeconds = cf_jwtAccessTtlSeconds config,
      tp_clockToleranceSeconds = Some (cf_jwtClockToleranceSeconds config)\<rparr>"

definition claims_object :: "AccessTokenClaims \<Rightarrow> claims" where
  "claims_object c =
     [(''sub'', JStr (cl_sub c)), (''tid'', JStr (cl_tid c)), (''roles'', JArr (map JStr (cl_roles c))),
      (''permissions'', JArr (map JStr (cl_permissions c)))]"

definition issue ::
    "('priv, 'pub) TokenJose \<Rightarrow> AppConfig \<Rightarrow> int \<Rightarrow> AccessTokenClaims \<Rightarrow> ('priv, 'pub) KeyRegistryService \<Rightarrow>
     token_error + string" where
  "issue jose config now c keys =
     (case activeMaterial (rg_snapshot keys) of
        Inl purpose \<Rightarrow> Inl (NoActiveKeyError purpose)
      | Inr material \<Rightarrow> issueNestedToken jose now (claims_object c) material (token_policy config))"

definition verifyOnce ::
    "('priv, 'pub) TokenJose \<Rightarrow> AppConfig \<Rightarrow> int \<Rightarrow> string \<Rightarrow> ('priv, 'pub) Snapshot \<Rightarrow> token_error + claims" where
  "verifyOnce jose config now token snap =
     (case verifyNestedToken jose now token (resolve_signing snap now) (resolve_encryption snap now)
             (token_policy config) of
        Inl e \<Rightarrow> Inl e
      | Inr v \<Rightarrow> Inr (vt_claims v))"

fun isStringArray :: "json option \<Rightarrow> string list option" where
  "isStringArray (Some (JArr vs)) =
     (if list_all (\<lambda>v. case v of JStr _ \<Rightarrow> True | _ \<Rightarrow> False) vs
      then Some (map (\<lambda>v. case v of JStr s \<Rightarrow> s | _ \<Rightarrow> []) vs) else None)"
| "isStringArray _ = None"

definition narrow_claims :: "claims \<Rightarrow> AccessTokenClaims option" where
  "narrow_claims payload =
     (case (jget payload ''sub'', jget payload ''tid'', isStringArray (jget payload ''roles''),
            isStringArray (jget payload ''permissions'')) of
        (Some (JStr sub), Some (JStr tid), Some roles, Some permissions) \<Rightarrow>
          Some \<lparr>cl_sub = sub, cl_tid = tid, cl_roles = roles, cl_permissions = permissions\<rparr>
      | _ \<Rightarrow> None)"

text \<open>\<open>refreshIfStale\<close> awaited: a reload that was started or joined has settled, with the rows its query
  returned.\<close>

definition refresh_awaited ::
    "Gcm \<Rightarrow> ('priv, 'pub, 'z) Jose_scheme \<Rightarrow> LocalKeyProvider \<Rightarrow> int \<Rightarrow> StoredKeyRow list option \<Rightarrow>
     ('priv, 'pub) KeyRegistryService \<Rightarrow> ('priv, 'pub) KeyRegistryService" where
  "refresh_awaited gcm kj provider now rows keys =
     (case refreshIfStale now keys of
        (FreshEnough, s) \<Rightarrow> s
      | (_, s) \<Rightarrow> reload_settled gcm kj provider rows s)"

text \<open>The two attempts happen at two times. Both collapse to one error: the codec throws nothing but a
  \<open>TokenVerificationError\<close>.\<close>

definition verify_token ::
    "Gcm \<Rightarrow> ('priv, 'pub, 'z) Jose_scheme \<Rightarrow> LocalKeyProvider \<Rightarrow> ('priv, 'pub) TokenJose \<Rightarrow> AppConfig \<Rightarrow> int \<Rightarrow> int \<Rightarrow>
     StoredKeyRow list option \<Rightarrow> string \<Rightarrow> ('priv, 'pub) KeyRegistryService \<Rightarrow>
     (DomainError + AccessTokenClaims) \<times> ('priv, 'pub) KeyRegistryService" where
  "verify_token gcm kj provider jose config now1 now2 rows token keys =
     (let narrow = (\<lambda>payload. case narrow_claims payload of
                      None \<Rightarrow> Inl InvalidAccessTokenError | Some c \<Rightarrow> Inr c)
      in case verifyOnce jose config now1 token (rg_snapshot keys) of
           Inr payload \<Rightarrow> (narrow payload, keys)
         | Inl _ \<Rightarrow>
             let keys' = refresh_awaited gcm kj provider now1 rows keys in
             (case verifyOnce jose config now2 token (rg_snapshot keys') of
                Inl _ \<Rightarrow> (Inl InvalidAccessTokenError, keys')
              | Inr payload \<Rightarrow> (narrow payload, keys')))"

section \<open>What jose is relied on for\<close>

text \<open>\<open>opened k token p\<close> says that \<open>token\<close> is an authentic encryption of \<open>p\<close> under \<open>k\<close>, and
  \<open>signs k jws payload\<close> that \<open>jws\<close> carries \<open>payload\<close> with a valid signature for the public key \<open>k\<close>.
  What the two functions promise when they do not throw:\<close>

definition decrypt_sound :: "(bytes \<Rightarrow> string \<Rightarrow> bytes \<Rightarrow> bool) \<Rightarrow> ('priv, 'pub) TokenJose \<Rightarrow> bool" where
  "decrypt_sound opened jose \<longleftrightarrow>
     (\<forall>token getKey opts p hdr. tj_compactDecrypt jose token getKey opts = Some (p, hdr) \<longrightarrow>
        (\<exists>k alg enc. getKey hdr = Some k \<and> opened k token p \<and>
           jget hdr ''alg'' = Some (JStr alg) \<and> alg \<in> set (do_keyManagementAlgorithms opts) \<and>
           jget hdr ''enc'' = Some (JStr enc) \<and> enc \<in> set (do_contentEncryptionAlgorithms opts)))"

definition verify_sound :: "('pub \<Rightarrow> string \<Rightarrow> claims \<Rightarrow> bool) \<Rightarrow> ('priv, 'pub) TokenJose \<Rightarrow> bool" where
  "verify_sound signs jose \<longleftrightarrow>
     (\<forall>now jws getKey opts payload hdr. tj_jwtVerify jose now jws getKey opts = Some (payload, hdr) \<longrightarrow>
        (\<exists>k alg e. getKey hdr = Some k \<and> signs k jws payload \<and>
           jget hdr ''alg'' = Some (JStr alg) \<and> alg \<in> set (vo_algorithms opts) \<and>
           jget payload ''iss'' = Some (JStr (vo_issuer opts)) \<and>
           jget payload ''exp'' = Some (JNum e) \<and> now - vo_clockTolerance opts < e))"

text \<open>And what they accept: \<open>pair priv pub\<close> relates a private key to its public half.\<close>

definition decrypt_complete :: "('priv, 'pub) TokenJose \<Rightarrow> bool" where
  "decrypt_complete jose \<longleftrightarrow>
     (\<forall>hdr p k token getKey opts alg enc.
        tj_encrypt jose hdr p k = Some token \<and> getKey hdr = Some k \<and>
        jget hdr ''alg'' = Some (JStr alg) \<and> alg \<in> set (do_keyManagementAlgorithms opts) \<and>
        jget hdr ''enc'' = Some (JStr enc) \<and> enc \<in> set (do_contentEncryptionAlgorithms opts) \<and>
        jget hdr ''zip'' = None \<longrightarrow>
        tj_compactDecrypt jose token getKey opts = Some (p, hdr))"

definition acceptable :: "int \<Rightarrow> VerifyOptions \<Rightarrow> claims \<Rightarrow> claims \<Rightarrow> bool" where
  "acceptable now opts hdr payload \<longleftrightarrow>
     list_ex (\<lambda>alg. jget hdr ''alg'' = Some (JStr alg)) (vo_algorithms opts) \<and>
     jget hdr ''typ'' = Some (JStr (vo_typ opts)) \<and>
     jget payload ''iss'' = Some (JStr (vo_issuer opts)) \<and> jget payload ''aud'' = Some (JStr (vo_audience opts)) \<and>
     list_all (\<lambda>c. jget payload c \<noteq> None) (vo_requiredClaims opts) \<and>
     (case jget payload ''iat'' of Some (JNum _) \<Rightarrow> True | _ \<Rightarrow> False) \<and> jget payload ''nbf'' = None \<and>
     (case jget payload ''exp'' of Some (JNum e) \<Rightarrow> now - vo_clockTolerance opts < e | _ \<Rightarrow> False)"

definition verify_complete :: "('priv \<Rightarrow> 'pub \<Rightarrow> bool) \<Rightarrow> ('priv, 'pub) TokenJose \<Rightarrow> bool" where
  "verify_complete pair jose \<longleftrightarrow>
     (\<forall>hdr payload priv pub jws now getKey opts.
        tj_sign jose hdr payload priv = Some jws \<and> pair priv pub \<and> getKey hdr = Some pub \<and>
        acceptable now opts hdr payload \<longrightarrow>
        tj_jwtVerify jose now jws getKey opts = Some (payload, hdr))"

text \<open>The public key imported from what is derived from a private key is its public half.\<close>

definition import_pairs :: "('priv \<Rightarrow> 'pub \<Rightarrow> bool) \<Rightarrow> ('priv, 'pub, 'z) Jose_scheme \<Rightarrow> bool" where
  "import_pairs pair kj \<longleftrightarrow>
     (\<forall>p jwk kid priv pub. derivePublicJwk kj p = Some jwk \<and> jo_importPkcs8 kj p = Some priv \<and>
        importVerificationKey kj
          (jwk @ [(''kid'', JStr kid), (''alg'', JStr SIGNING_ALG), (''use'', JStr ''sig'')]) = Some pub \<longrightarrow>
        pair priv pub)"

text \<open>The header of a decrypted token is the one it was encrypted with.\<close>

definition header_kept :: "('priv, 'pub) TokenJose \<Rightarrow> bool" where
  "header_kept jose \<longleftrightarrow>
     (\<forall>hdr p k token getKey opts p' hdr'.
        tj_encrypt jose hdr p k = Some token \<and> tj_compactDecrypt jose token getKey opts = Some (p', hdr') \<longrightarrow>
        hdr' = hdr)"

section \<open>Texts and payloads\<close>

lemma utf8_decode_append: "utf8_decode (utf8_char c @ bs) = map_option (\<lambda>s. c # s) (utf8_decode bs)"
proof (cases "code_unit c < 128")
  case True
  then have "unat (of_nat (code_unit c) :: byte) = code_unit c"
    by (simp add: unat_of_nat take_bit_nat_def)
  with True show ?thesis by (simp add: utf8_char_def)
next
  case False
  let ?n = "code_unit c"
  have d: "?n div 64 = 2 \<or> ?n div 64 = 3" using False code_unit_less [of c] by linarith
  then have b: "unat (of_nat (192 + ?n div 64) :: byte) = 192 + ?n div 64"
    by (auto simp: unat_of_nat take_bit_nat_def simp del: of_nat_add)
  have m: "unat (of_nat (128 + ?n mod 64) :: byte) = 128 + ?n mod 64"
    using mod_less_divisor [of 64 ?n] by (simp add: unat_of_nat take_bit_nat_def del: of_nat_add)
  have "?n div 64 * 64 + ?n mod 64 = ?n" by simp
  then have "unit_char ((192 + ?n div 64 - 192) * 64 + (128 + ?n mod 64 - 128)) = c"
    by (metis add_diff_cancel_left' unit_char_code_unit)
  moreover have "192 + ?n div 64 = 194 \<or> 192 + ?n div 64 = 195" using d by auto
  moreover have "?n mod 64 < 64" by simp
  ultimately show ?thesis
    using False by (simp add: utf8_char_def Let_def b m del: of_nat_add)
qed

lemma utf8_decode_utf8: "utf8_decode (utf8 s) = Some s"
  by (induction s) (simp_all add: utf8_Cons utf8_decode_append)

lemma utf8_no_mark: "take 3 (utf8 s) \<noteq> [239, 187, 191]"
proof (cases s)
  case Nil
  then show ?thesis by simp
next
  case (Cons c t)
  have "unat (hd (utf8_char c)) < 200"
  proof (cases "code_unit c < 128")
    case True
    then show ?thesis by (simp add: utf8_char_def unat_of_nat take_bit_nat_def)
  next
    case False
    have "code_unit c div 64 < 4" using code_unit_less [of c] by (simp add: div_less_iff_less_mult)
    with False show ?thesis
      by (simp add: utf8_char_def Let_def unat_of_nat take_bit_nat_def del: of_nat_add)
  qed
  moreover have "hd (take 3 (utf8 s)) = hd (utf8_char c)"
    by (simp add: Cons utf8_Cons hd_append)
  ultimately show ?thesis by (cases "take 3 (utf8 s)") auto
qed

lemma decodeText_utf8: "decodeText (utf8 s) = Some s"
  by (simp add: decodeText_def utf8_no_mark utf8_decode_utf8)

lemma jget_map_set: "jget (map_set k v m) k' = (if k' = k then Some v else jget m k')"
proof (cases "k \<in> fst ` set m")
  case True
  have "map_of (map (\<lambda>(k', v'). (k', if k' = k then v else v')) m) k' =
      map_option (\<lambda>v'. if k' = k then v else v') (map_of m k')"
    by (induction m) (simp_all add: split_beta)
  moreover obtain w where "map_of m k = Some w" using True by (metis map_of_eq_None_iff option.exhaust)
  ultimately show ?thesis using True by (simp add: map_set_def jget_def option.map_ident)
next
  case False
  then have "map_of m k = None" by (simp add: map_of_eq_None_iff)
  with False show ?thesis by (auto simp: map_set_def jget_def map_add_def split: option.split)
qed

lemma isStringArray_strings [simp]: "isStringArray (Some (JArr (map JStr xs))) = Some xs"
  by (simp add: list_all_iff comp_def)

lemma narrow_token_payload: "narrow_claims (token_payload now policy (claims_object c)) = Some c"
  by (simp add: narrow_claims_def token_payload_def jget_map_set)
    (simp add: claims_object_def jget_def del: isStringArray.simps)

lemma acceptable_token_payload:
  assumes "t - (case tp_clockToleranceSeconds policy of None \<Rightarrow> 0 | Some tol \<Rightarrow> tol) < now div 1000 + tp_ttlSeconds policy"
  shows "acceptable t (verify_options policy) (inner_header kid) (token_payload now policy (claims_object c))"
  using assms by (simp add: acceptable_def verify_options_def token_payload_def jget_map_set)
    (simp add: inner_header_def claims_object_def jget_def)

section \<open>Verification\<close>

lemma key_by_kid_Some:
  assumes "key_by_kid resolve hdr = Some k"
  obtains kid where "jget hdr ''kid'' = Some (JStr kid)" and "kid \<noteq> []" and "resolve kid = Some k"
  using assms by (auto simp: key_by_kid_def split: option.splits json.splits if_splits)

lemma verifyOnce_Inr:
  assumes "verifyOnce jose config now token snap = Inr payload"
  obtains p outer jws inner where
    "tj_compactDecrypt jose token (key_by_kid (resolve_encryption snap now)) decrypt_options = Some (p, outer)"
    and "jget outer ''cty'' = Some (JStr NESTED_CTY)" and "decodeText p = Some jws"
    and "tj_jwtVerify jose (now div 1000) jws (key_by_kid (resolve_signing snap now))
           (verify_options (token_policy config)) = Some (payload, inner)"
  using assms
  by (auto simp: verifyOnce_def verifyNestedToken_def split: sum.splits option.splits if_splits prod.splits
      Option.bind_splits)

text \<open>What an accepted token proves: \<open>snap\<close> is the snapshot and \<open>now\<close> the time it was checked with.\<close>

definition token_checked ::
    "(bytes \<Rightarrow> string \<Rightarrow> bytes \<Rightarrow> bool) \<Rightarrow> ('pub \<Rightarrow> string \<Rightarrow> claims \<Rightarrow> bool) \<Rightarrow> AppConfig \<Rightarrow> int \<Rightarrow> string \<Rightarrow>
     ('priv, 'pub) Snapshot \<Rightarrow> AccessTokenClaims \<Rightarrow> bool" where
  "token_checked opened signs config now token snap c \<longleftrightarrow>
     (\<exists>ekid ekey p jws skid skey payload e.
        resolve_encryption snap now ekid = Some ekey \<and> opened ekey token p \<and> decodeText p = Some jws \<and>
        resolve_signing snap now skid = Some skey \<and> signs skey jws payload \<and>
        jget payload ''iss'' = Some (JStr (cf_jwtIssuer config)) \<and>
        jget payload ''exp'' = Some (JNum e) \<and> now div 1000 - cf_jwtClockToleranceSeconds config < e \<and>
        narrow_claims payload = Some c)"

lemma verifyOnce_checked:
  assumes "decrypt_sound opened jose" and "verify_sound signs jose"
    and "verifyOnce jose config now token snap = Inr payload" and "narrow_claims payload = Some c"
  shows "token_checked opened signs config now token snap c"
proof -
  obtain p outer jws inner where
    d: "tj_compactDecrypt jose token (key_by_kid (resolve_encryption snap now)) decrypt_options = Some (p, outer)"
    and jws: "decodeText p = Some jws"
    and v: "tj_jwtVerify jose (now div 1000) jws (key_by_kid (resolve_signing snap now))
           (verify_options (token_policy config)) = Some (payload, inner)"
    using assms(3) by (rule verifyOnce_Inr)
  from assms(1) d obtain ekey where "key_by_kid (resolve_encryption snap now) outer = Some ekey" "opened ekey token p"
    unfolding decrypt_sound_def by blast
  then obtain ekid where e: "resolve_encryption snap now ekid = Some ekey" "opened ekey token p"
    by (auto elim: key_by_kid_Some)
  from assms(2) v obtain skey x where "key_by_kid (resolve_signing snap now) inner = Some skey" "signs skey jws payload"
      "jget payload ''iss'' = Some (JStr (vo_issuer (verify_options (token_policy config))))"
      "jget payload ''exp'' = Some (JNum x)"
      "now div 1000 - vo_clockTolerance (verify_options (token_policy config)) < x"
    unfolding verify_sound_def by blast
  then obtain skid where "resolve_signing snap now skid = Some skey" "signs skey jws payload"
      "jget payload ''iss'' = Some (JStr (cf_jwtIssuer config))" "jget payload ''exp'' = Some (JNum x)"
      "now div 1000 - cf_jwtClockToleranceSeconds config < x"
    by (auto simp: verify_options_def token_policy_def elim: key_by_kid_Some)
  with e jws assms(4) show ?thesis unfolding token_checked_def by blast
qed

lemma verify_token_Inr:
  assumes "verify_token gcm kj provider jose config now1 now2 rows token keys = (Inr c, keys')"
  obtains payload where "keys' = keys" and "verifyOnce jose config now1 token (rg_snapshot keys) = Inr payload"
      and "narrow_claims payload = Some c"
  | payload where "keys' = refresh_awaited gcm kj provider now1 rows keys"
      and "verifyOnce jose config now2 token (rg_snapshot keys') = Inr payload" and "narrow_claims payload = Some c"
  using assms by (auto simp: verify_token_def Let_def split: sum.splits option.splits)

lemma refresh_awaited_snapshot:
  "rg_snapshot (refresh_awaited gcm kj provider now rows keys) = rg_snapshot keys \<or>
   (\<exists>rs. rows = Some rs \<and> rg_snapshot (refresh_awaited gcm kj provider now rows keys) = load_snapshot gcm kj provider rs)"
  by (auto simp: refresh_awaited_def refreshIfStale_def reload_settled_def refresh_end_def refresh_begin_def
      split: option.split)

section \<open>Issued tokens\<close>

lemma issue_Inr:
  assumes "issue jose config now c keys = Inr token"
  obtains m jws where "activeMaterial (rg_snapshot keys) = Inr m"
    and "tm_signingKid m \<noteq> []" and "tm_encryptionKid m \<noteq> []"
    and "tj_sign jose (inner_header (tm_signingKid m)) (token_payload now (token_policy config) (claims_object c))
           (tm_signingKey m) = Some jws"
    and "tj_encrypt jose (outer_header (tm_encryptionKid m)) (utf8 jws) (tm_encryptionKey m) = Some token"
  using assms
  by (auto simp: issue_def issueNestedToken_def assertMaterial_def split: sum.splits option.splits if_splits)

lemma key_by_kid_headers [simp]:
  "kid \<noteq> [] \<Longrightarrow> key_by_kid resolve (inner_header kid) = resolve kid"
  "kid \<noteq> [] \<Longrightarrow> key_by_kid resolve (outer_header kid) = resolve kid"
  by (simp_all add: key_by_kid_def inner_header_def outer_header_def jget_def)

lemma verifyOnce_complete:
  assumes "decrypt_complete jose" and "verify_complete pair jose"
    and "tj_sign jose (inner_header skid) (token_payload t0 (token_policy config) (claims_object c)) priv = Some jws"
    and "tj_encrypt jose (outer_header ekid) (utf8 jws) ekey = Some token"
    and "skid \<noteq> []" and "ekid \<noteq> []" and "pair priv pub"
    and "resolve_signing snap t skid = Some pub" and "resolve_encryption snap t ekid = Some ekey"
    and "t div 1000 - cf_jwtClockToleranceSeconds config < t0 div 1000 + cf_jwtAccessTtlSeconds config"
  shows "verifyOnce jose config t token snap = Inr (token_payload t0 (token_policy config) (claims_object c))"
proof -
  let ?payload = "token_payload t0 (token_policy config) (claims_object c)"
  have "key_by_kid (resolve_encryption snap t) (outer_header ekid) = Some ekey" using assms(6,9) by simp
  then have "tj_compactDecrypt jose token (key_by_kid (resolve_encryption snap t)) decrypt_options =
      Some (utf8 jws, outer_header ekid)"
    using assms(1,4) unfolding decrypt_complete_def
    by (simp add: decrypt_options_def outer_header_def jget_def)
  moreover have "acceptable (t div 1000) (verify_options (token_policy config)) (inner_header skid) ?payload"
    using assms(10) by (intro acceptable_token_payload) (simp add: token_policy_def)
  moreover have "key_by_kid (resolve_signing snap t) (inner_header skid) = Some pub" using assms(5,8) by simp
  ultimately have "tj_jwtVerify jose (t div 1000) jws (key_by_kid (resolve_signing snap t))
      (verify_options (token_policy config)) = Some (?payload, inner_header skid)"
    using assms(2,3,7) unfolding verify_complete_def by blast
  with \<open>tj_compactDecrypt _ _ _ _ = _\<close> show ?thesis
    by (simp add: verifyOnce_def verifyNestedToken_def decodeText_utf8 outer_header_def jget_def)
qed

lemma last_active_Some:
  "last_active entry rows None = Some kid \<Longrightarrow> \<exists>r \<in> set rows. kr_state r = ks_active \<and> entry r \<noteq> None \<and> kr_kid r = kid"
proof (induction rows rule: rev_induct)
  case Nil
  then show ?case by (simp add: last_active_def)
next
  case (snoc r rows)
  show ?case
  proof (cases "kr_state r = ks_active \<and> entry r \<noteq> None")
    case True
    with snoc.prems show ?thesis by (auto simp: last_active_def)
  next
    case False
    with snoc.prems have "last_active entry rows None = Some kid" by (auto simp: last_active_def split: if_splits)
    with snoc.IH show ?thesis by auto
  qed
qed

text \<open>The active material comes from the active rows, and their keys load to it.\<close>

lemma activeMaterial_rows:
  assumes "config_keys_ok rows" and "activeMaterial (load_snapshot gcm kj provider rows) = Inr m"
  obtains rs re pub jwk where
    "rs \<in> set rows" "kr_state rs = ks_active" "kr_purpose rs = token_signing" "kr_kid rs = tm_signingKid m"
    "loadStoredKey gcm kj provider rs = Inr (LoadedSigningKey (tm_signingKid m) (tm_signingKey m) pub jwk)"
    "re \<in> set rows" "kr_state re = ks_active" "kr_purpose re = token_encryption" "kr_kid re = tm_encryptionKid m"
    "loadStoredKey gcm kj provider re = Inr (LoadedEncryptionKey (tm_encryptionKid m) (tm_encryptionKey m))"
proof -
  let ?s = "load_snapshot gcm kj provider rows"
  have d: "distinct (map kr_kid rows)" using assms(1) by (simp add: config_keys_ok_def)
  obtain sk ek sg en where k: "sn_activeSigningKid ?s = Some sk" "sn_activeEncryptionKid ?s = Some ek"
      "map_of (sn_signing ?s) sk = Some sg" "map_of (sn_encryption ?s) ek = Some en"
      and m: "m = \<lparr>tm_signingKid = sg_kid sg, tm_signingKey = sg_privateKey sg,
                 tm_encryptionKid = en_kid en, tm_encryptionKey = en_secret en\<rparr>"
    using assms(2) by (auto simp: activeMaterial_def split: if_splits option.splits)
  obtain rs where rs: "rs \<in> set rows" "kr_state rs = ks_active" "signing_entry gcm kj provider rs \<noteq> None" "kr_kid rs = sk"
    using last_active_Some [of "signing_entry gcm kj provider"] k(1) by (force simp: load_snapshot_eq [OF d])
  obtain re where re: "re \<in> set rows" "kr_state re = ks_active" "encryption_entry gcm kj provider re \<noteq> None" "kr_kid re = ek"
    using last_active_Some [of "encryption_entry gcm kj provider"] k(2) by (force simp: load_snapshot_eq [OF d])
  have "map_option snd (signing_entry gcm kj provider rs) = Some sg"
    using lookup_signing [OF d, of gcm kj provider sk] k(3) rs find_kid [OF assms(1) rs(1)] by simp
  then obtain pub jwk where "loadStoredKey gcm kj provider rs =
      Inr (LoadedSigningKey (sg_kid sg) (sg_privateKey sg) pub jwk)"
    by (auto simp: signing_entry_def split: sum.splits LoadedKey.splits)
  moreover have "map_option snd (encryption_entry gcm kj provider re) = Some en"
    using lookup_encryption [OF d, of gcm kj provider ek] k(4) re find_kid [OF assms(1) re(1)] by simp
  then have "loadStoredKey gcm kj provider re = Inr (LoadedEncryptionKey (en_kid en) (en_secret en))"
    by (auto simp: encryption_entry_def split: sum.splits LoadedKey.splits)
  ultimately show ?thesis
    using that [of rs pub jwk re] rs re loaded_purpose(1) [OF rs(3)] loaded_purpose(2) [OF re(3)]
      loaded_signing_kid [of gcm kj provider rs "sg_kid sg" "sg_privateKey sg" pub jwk]
      loaded_encryption_kid [of gcm kj provider re "en_kid en" "en_secret en"]
    by (simp add: m)
qed

lemma loaded_pair:
  assumes "import_pairs pair kj" and "loadStoredKey gcm kj provider row = Inr (LoadedSigningKey kid priv pub jwk)"
  shows "pair priv pub"
proof -
  obtain p derived where "derivePublicJwk kj p = Some derived" "jo_importPkcs8 kj p = Some priv"
      "importVerificationKey kj (derived @ [(''kid'', JStr (kr_kid row)), (''alg'', JStr SIGNING_ALG), (''use'', JStr ''sig'')]) = Some pub"
    using assms(2)
    by (auto simp: loadStoredKey_def trustedPublicJwk_def Let_def split: option.splits if_splits sum.splits json.splits)
  with assms(1) show ?thesis unfolding import_pairs_def by blast
qed

text \<open>The end of a key's window is set when it retires, not before.\<close>

definition active_unlimited :: "StoredKeyRow list \<Rightarrow> bool" where
  "active_unlimited rows \<longleftrightarrow> list_all (\<lambda>r. kr_state r = ks_active \<longrightarrow> kr_notAfter r = None) rows"

text \<open>A token is accepted by the keys that issued it until it expires.\<close>

lemma issued_token_once:
  assumes "config_keys_ok rows" and "active_unlimited rows"
    and "decrypt_complete jose" and "verify_complete pair jose" and "import_pairs pair kj"
    and "rg_snapshot keys = load_snapshot gcm kj provider rows" and "rg_snapshot keys' = rg_snapshot keys"
    and "issue jose config t0 c keys = Inr token"
    and "t div 1000 - cf_jwtClockToleranceSeconds config < t0 div 1000 + cf_jwtAccessTtlSeconds config"
  shows "verifyOnce jose config t token (rg_snapshot keys') =
      Inr (token_payload t0 (token_policy config) (claims_object c))"
proof -
  obtain m jws where m: "activeMaterial (load_snapshot gcm kj provider rows) = Inr m"
      "tm_signingKid m \<noteq> []" "tm_encryptionKid m \<noteq> []"
      "tj_sign jose (inner_header (tm_signingKid m)) (token_payload t0 (token_policy config) (claims_object c))
           (tm_signingKey m) = Some jws"
      "tj_encrypt jose (outer_header (tm_encryptionKid m)) (utf8 jws) (tm_encryptionKey m) = Some token"
    using issue_Inr [OF assms(8)] assms(6) by metis
  obtain rs re pub jwk where
    s: "rs \<in> set rows" "kr_state rs = ks_active" "kr_purpose rs = token_signing" "kr_kid rs = tm_signingKid m"
      "loadStoredKey gcm kj provider rs = Inr (LoadedSigningKey (tm_signingKid m) (tm_signingKey m) pub jwk)"
    and e: "re \<in> set rows" "kr_state re = ks_active" "kr_purpose re = token_encryption" "kr_kid re = tm_encryptionKid m"
      "loadStoredKey gcm kj provider re = Inr (LoadedEncryptionKey (tm_encryptionKid m) (tm_encryptionKey m))"
    by (rule activeMaterial_rows [OF assms(1) m(1)])
  have unlimited: "kr_notAfter rs = None" "kr_notAfter re = None"
    using assms(2) s(1,2) e(1,2) by (simp_all add: active_unlimited_def list_all_iff)
  have "resolve_signing (rg_snapshot keys') t (tm_signingKid m) = Some pub"
    using resolvers_eq [OF assms(1), of gcm kj provider t "tm_signingKid m"] find_kid [OF assms(1) s(1)] s
    by (simp add: assms(6,7) isKeyUsable_def unlimited)
  moreover have "resolve_encryption (rg_snapshot keys') t (tm_encryptionKid m) = Some (tm_encryptionKey m)"
    using resolvers_eq [OF assms(1), of gcm kj provider t "tm_encryptionKid m"] find_kid [OF assms(1) e(1)] e
    by (simp add: assms(6,7) isKeyUsable_def unlimited)
  ultimately show ?thesis
    using m assms(9) loaded_pair [OF assms(5) s(5)] by (intro verifyOnce_complete [OF assms(3,4)]) auto
qed

lemma issued_token_verifies:
  assumes "config_keys_ok rows" and "active_unlimited rows"
    and "decrypt_complete jose" and "verify_complete pair jose" and "import_pairs pair kj"
    and "rg_snapshot keys = load_snapshot gcm kj provider rows" and "rg_snapshot keys' = rg_snapshot keys"
    and "issue jose config t0 c keys = Inr token"
    and "t div 1000 - cf_jwtClockToleranceSeconds config < t0 div 1000 + cf_jwtAccessTtlSeconds config"
  shows "verify_token gcm kj provider jose config t t2 reloaded token keys' = (Inr c, keys')"
  using issued_token_once [OF assms] by (simp add: verify_token_def Let_def narrow_token_payload)

section \<open>Tokens across a rotation\<close>

lemma rotate_both:
  assumes "config_keys_ok rows" "fk_kid k1 \<notin> kr_kid ` set rows" "fk_kid k2 \<notin> kr_kid ` set rows" "fk_kid k1 \<noteq> fk_kid k2"
  shows "rotate gcm provider now overlap [(token_signing, k1), (token_encryption, k2)] rows =
     (None, rotated gcm provider now overlap token_encryption k2
              (rotated gcm provider now overlap token_signing k1 rows))"
    and "config_keys_ok (rotated gcm provider now overlap token_encryption k2
              (rotated gcm provider now overlap token_signing k1 rows))"
proof -
  have p: "token_signing \<in> set PURPOSES" "token_encryption \<in> set PURPOSES" by (simp_all add: PURPOSES_def)
  have ok1: "config_keys_ok (rotated gcm provider now overlap token_signing k1 rows)"
    by (rule rotated_ok [OF assms(1,2) p(1)])
  have fresh: "fk_kid k2 \<notin> kr_kid ` set (rotated gcm provider now overlap token_signing k1 rows)"
    using assms(3,4) by (simp add: kids_rotated)
  show "config_keys_ok (rotated gcm provider now overlap token_encryption k2
              (rotated gcm provider now overlap token_signing k1 rows))"
    by (rule rotated_ok [OF ok1 fresh p(2)])
  show "rotate gcm provider now overlap [(token_signing, k1), (token_encryption, k2)] rows =
     (None, rotated gcm provider now overlap token_encryption k2
              (rotated gcm provider now overlap token_signing k1 rows))"
    by (simp add: rotate_purpose_eq [OF assms(1,2) p(1)] rotate_purpose_eq [OF ok1 fresh p(2)])
qed

lemma find_rotate_both:
  assumes "config_keys_ok rows" "fk_kid k1 \<notin> kr_kid ` set rows" "fk_kid k2 \<notin> kr_kid ` set rows" "fk_kid k1 \<noteq> fk_kid k2"
    and "r \<in> set rows" "kr_state r = ks_active" "kr_purpose r \<in> set PURPOSES"
  shows "find (\<lambda>x. kr_kid x = kr_kid r)
      (snd (rotate gcm provider now overlap [(token_signing, k1), (token_encryption, k2)] rows)) =
     Some (retire now (now + overlap * 1000) r)"
proof -
  have ne: "kr_kid r \<noteq> fk_kid k1" "kr_kid r \<noteq> fk_kid k2" using assms(2,3,5) by (metis image_eqI)+
  have fresh: "fk_kid k2 \<notin> kr_kid ` set (rotated gcm provider now overlap token_signing k1 rows)"
    using assms(3,4) by (simp add: kids_rotated)
  have "kr_purpose r = token_signing \<or> kr_purpose r = token_encryption"
    using assms(7) by (simp add: PURPOSES_def)
  then have "retire_active now (now + overlap * 1000) token_encryption
      (retire_active now (now + overlap * 1000) token_signing r) = retire now (now + overlap * 1000) r"
    using assms(6) by (auto simp: retire_active_def token_signing_def token_encryption_def)
  then show ?thesis
    unfolding rotate_both(1) [OF assms(1-4)] snd_conv
    using ne by (simp add: find_rotated [OF fresh] find_rotated [OF assms(2)] find_kid [OF assms(1,5)])
qed

text \<open>The keys that were active are still resolved until the overlap ends, and not after.\<close>

lemma resolve_after_rotate:
  assumes "config_keys_ok rows" "fk_kid k1 \<notin> kr_kid ` set rows" "fk_kid k2 \<notin> kr_kid ` set rows" "fk_kid k1 \<noteq> fk_kid k2"
    and "activeMaterial (load_snapshot gcm kj provider rows) = Inr m"
    and "snap = load_snapshot gcm kj provider
        (snd (rotate gcm provider now overlap [(token_signing, k1), (token_encryption, k2)] rows))"
    and "import_pairs pair kj"
  shows "\<exists>pub. pair (tm_signingKey m) pub \<and>
       resolve_signing snap t (tm_signingKid m) = (if t < now + overlap * 1000 then Some pub else None)"
    and "resolve_encryption snap t (tm_encryptionKid m) =
       (if t < now + overlap * 1000 then Some (tm_encryptionKey m) else None)"
proof -
  obtain rs re pub jwk where
    s: "rs \<in> set rows" "kr_state rs = ks_active" "kr_purpose rs = token_signing" "kr_kid rs = tm_signingKid m"
      "loadStoredKey gcm kj provider rs = Inr (LoadedSigningKey (tm_signingKid m) (tm_signingKey m) pub jwk)"
    and e: "re \<in> set rows" "kr_state re = ks_active" "kr_purpose re = token_encryption" "kr_kid re = tm_encryptionKid m"
      "loadStoredKey gcm kj provider re = Inr (LoadedEncryptionKey (tm_encryptionKid m) (tm_encryptionKey m))"
    by (rule activeMaterial_rows [OF assms(1,5)])
  let ?rows = "snd (rotate gcm provider now overlap [(token_signing, k1), (token_encryption, k2)] rows)"
  have ok: "config_keys_ok ?rows" unfolding rotate_both(1) [OF assms(1-4)] snd_conv by (rule rotate_both(2) [OF assms(1-4)])
  have "find (\<lambda>x. kr_kid x = tm_signingKid m) ?rows = Some (retire now (now + overlap * 1000) rs)"
    using find_rotate_both [OF assms(1-4) s(1,2)] s(3,4) by (simp add: PURPOSES_def)
  then have "resolve_signing snap t (tm_signingKid m) = (if t < now + overlap * 1000 then Some pub else None)"
    using resolvers_eq [OF ok, of gcm kj provider t "tm_signingKid m"]
    by (simp add: assms(6) s(5) isKeyUsable_retiring)
  with loaded_pair [OF assms(7) s(5)] show "\<exists>pub. pair (tm_signingKey m) pub \<and>
       resolve_signing snap t (tm_signingKid m) = (if t < now + overlap * 1000 then Some pub else None)"
    by blast
  have "find (\<lambda>x. kr_kid x = tm_encryptionKid m) ?rows = Some (retire now (now + overlap * 1000) re)"
    using find_rotate_both [OF assms(1-4) e(1,2)] e(3,4) by (simp add: PURPOSES_def)
  then show "resolve_encryption snap t (tm_encryptionKid m) =
       (if t < now + overlap * 1000 then Some (tm_encryptionKey m) else None)"
    using resolvers_eq [OF ok, of gcm kj provider t "tm_encryptionKid m"]
    by (simp add: assms(6) e(5) isKeyUsable_retiring)
qed

lemma seconds_before:
  fixes t t0 tr :: int
  assumes "t div 1000 - tol < t0 div 1000 + ttl" and "t0 \<le> tr"
  shows "t < tr + (ttl + tol) * 1000"
proof -
  have "t < (t div 1000 + 1) * 1000" by (simp add: mult.commute)
  also have "\<dots> \<le> (t0 div 1000 + ttl + tol) * 1000" using assms(1) by (intro mult_right_mono) auto
  also have "\<dots> \<le> t0 + (ttl + tol) * 1000" by (simp add: algebra_simps)
  also have "\<dots> \<le> tr + (ttl + tol) * 1000" using assms(2) by simp
  finally show ?thesis .
qed

text \<open>The command reads from its environment what the service was configured with.\<close>

lemma overlapSeconds_covers:
  assumes "loadConfig isUrl zodInt env = Some config" and "\<And>s n. zodInt s = Some n \<Longrightarrow> num s = Some n"
  shows "overlapSeconds num env = cf_jwtAccessTtlSeconds config + cf_jwtClockToleranceSeconds config"
proof -
  have parse: "parse_schema isUrl zodInt env = Some config"
    using assms(1) by (auto simp: loadConfig_def split: option.splits if_splits)
  have "numberOr num d v = n" if "zod_int zodInt l d v = Some n" for l d v n
    using that assms(2) by (auto simp: zod_int_def numberOr_def split: option.splits if_splits)
  from this [OF parse_schema_fields(1) [OF parse]] this [OF parse_schema_fields(2) [OF parse]] show ?thesis
    by (simp add: overlapSeconds_def)
qed

text \<open>C12: Rotating both keys logs nobody out. Let the service run with the configuration loaded from an environment
  and the rotate command compute its overlap from the same environment; a number the configuration
  accepts is one the command reads alike. Then a token issued before the rotation is accepted by
  every instance that has reloaded, with the claims it was issued with, at every moment up to its
  expiry (with the clock tolerance).\<close>

theorem rotation_keeps_sessions:
  assumes "loadConfig isUrl zodInt env = Some config" and "\<And>s n. zodInt s = Some n \<Longrightarrow> num s = Some n"
    and "config_keys_ok rows" and "fk_kid k1 \<notin> kr_kid ` set rows" and "fk_kid k2 \<notin> kr_kid ` set rows"
    and "fk_kid k1 \<noteq> fk_kid k2"
    and "decrypt_complete jose" and "verify_complete pair jose" and "import_pairs pair kj"
    and "rg_snapshot keys = load_snapshot gcm kj provider rows"
    and "issue jose config t0 c keys = Inr token" and "t0 \<le> tr"
    and "rg_snapshot keys' = load_snapshot gcm kj provider
      (snd (rotate gcm provider tr (overlapSeconds num env) [(token_signing, k1), (token_encryption, k2)] rows))"
    and "t div 1000 - cf_jwtClockToleranceSeconds config < t0 div 1000 + cf_jwtAccessTtlSeconds config"
  shows "verify_token gcm kj provider jose config t t2 reloaded token keys' = (Inr c, keys')"
proof -
  obtain m jws where m: "activeMaterial (load_snapshot gcm kj provider rows) = Inr m"
      "tm_signingKid m \<noteq> []" "tm_encryptionKid m \<noteq> []"
      "tj_sign jose (inner_header (tm_signingKid m)) (token_payload t0 (token_policy config) (claims_object c))
           (tm_signingKey m) = Some jws"
      "tj_encrypt jose (outer_header (tm_encryptionKid m)) (utf8 jws) (tm_encryptionKey m) = Some token"
    using issue_Inr [OF assms(11)] assms(10) by metis
  have "t < tr + overlapSeconds num env * 1000"
    using seconds_before [OF assms(14,12)] by (simp add: overlapSeconds_covers [OF assms(1,2)])
  then obtain pub where "pair (tm_signingKey m) pub"
      "resolve_signing (rg_snapshot keys') t (tm_signingKid m) = Some pub"
      "resolve_encryption (rg_snapshot keys') t (tm_encryptionKid m) = Some (tm_encryptionKey m)"
    using resolve_after_rotate [OF assms(3-6) m(1) assms(13,9), of t] by auto
  then have "verifyOnce jose config t token (rg_snapshot keys') =
      Inr (token_payload t0 (token_policy config) (claims_object c))"
    using m assms(14) by (intro verifyOnce_complete [OF assms(7,8)]) auto
  then show ?thesis by (simp add: verify_token_def Let_def narrow_token_payload)
qed

text \<open>A jose that knows one token: signed with the key \<open>s1\<close> and encrypted with \<open>e1\<close> of \<open>demo_rows\<close>,
  issued at 2000 ms. Public keys compare by their EC members.\<close>

definition demo_claims :: AccessTokenClaims where
  "demo_claims = \<lparr>cl_sub = ''u1'', cl_tid = ''t1'', cl_roles = [TENANT_ADMIN_ROLE_NAME], cl_permissions = [usersRead]\<rparr>"

definition demo_payload :: claims where
  "demo_payload = token_payload 2000 (token_policy demo_config) (claims_object demo_claims)"

definition demo_pair :: "bytes \<Rightarrow> JWK \<Rightarrow> bool" where
  "demo_pair priv pub \<longleftrightarrow> take 2 pub = demo_jwk (map (\<lambda>b. unit_char (unat b)) priv)"

definition demo_tokens :: "(bytes, JWK) TokenJose" where
  "demo_tokens =
     \<lparr>tj_sign = (\<lambda>hdr payload priv.
        if hdr = inner_header ''s1'' \<and> payload = demo_payload \<and> priv = utf8 ''s1'' then Some ''jws'' else None),
      tj_encrypt = (\<lambda>hdr p k.
        if hdr = outer_header ''e1'' \<and> p = utf8 ''jws'' \<and> k = replicate 32 1 then Some ''h.k.i.c.t'' else None),
      tj_compactDecrypt = (\<lambda>token getKey opts.
        if token = ''h.k.i.c.t'' \<and> getKey (outer_header ''e1'') = Some (replicate 32 1) \<and>
           JWE_ALG \<in> set (do_keyManagementAlgorithms opts) \<and> JWE_ENC \<in> set (do_contentEncryptionAlgorithms opts)
        then Some (utf8 ''jws'', outer_header ''e1'') else None),
      tj_jwtVerify = (\<lambda>now jws getKey opts.
        if jws = ''jws'' \<and> map_option (take 2) (getKey (inner_header ''s1'')) = Some (demo_jwk ''s1'') \<and>
           acceptable now opts (inner_header ''s1'') demo_payload
        then Some (demo_payload, inner_header ''s1'') else None)\<rparr>"

definition demo_keys :: "StoredKeyRow list \<Rightarrow> (bytes, JWK) KeyRegistryService" where
  "demo_keys rows =
     \<lparr>rg_snapshot = load_snapshot demo_gcm demo_jose demo_provider rows, rg_lastRefreshAt = 0, rg_inFlight = False\<rparr>"

lemma chars_of_utf8_s1: "map (\<lambda>b. unit_char (unat b)) (utf8 ''s1'') = ''s1''"
  by (rule chars_of_utf8) (simp add: code_unit_def)

lemma demo_decrypt_complete: "decrypt_complete demo_tokens"
  by (auto simp: decrypt_complete_def demo_tokens_def outer_header_def jget_def split: if_splits)

lemma demo_verify_complete: "verify_complete demo_pair demo_tokens"
  by (auto simp: verify_complete_def demo_tokens_def demo_pair_def chars_of_utf8_s1 split: if_splits)

lemma demo_import_pairs: "import_pairs demo_pair demo_jose"
  by (auto simp: import_pairs_def demo_pair_def demo_jose_def derivePublicJwk_def EC_MEMBERS_def
      importVerificationKey_def demo_jwk_def)

lemma demo_active_material:
  "activeMaterial (load_snapshot demo_gcm demo_jose demo_provider demo_rows) =
     Inr \<lparr>tm_signingKid = ''s1'', tm_signingKey = utf8 ''s1'', tm_encryptionKid = ''e1'', tm_encryptionKey = replicate 32 1\<rparr>"
proof -
  let ?rs = "(pending_row demo_gcm demo_provider token_signing (demo_key ''s1''))\<lparr>kr_state := ks_active\<rparr>"
  let ?re = "(pending_row demo_gcm demo_provider token_encryption (demo_key ''e1''))\<lparr>kr_state := ks_active\<rparr>"
  have rows: "?rs \<in> set demo_rows" "?re \<in> set demo_rows"
    by (simp_all add: demo_rows_eq rotated_def retire_active_def token_signing_def token_encryption_def)
  have wrap: "wrap_ok (demo_key ''s1'')" "wrap_ok (demo_key ''e1'')" by (simp_all add: demo_wrap_ok)
  have gen: "generated_key demo_jose (demo_key ''s1'') (utf8 ''s1'')
     (demo_jwk ''s1'' @ [(''kid'', JStr ''s1''), (''alg'', JStr SIGNING_ALG), (''use'', JStr ''sig'')]) (demo_jwk ''s1'')"
    by (rule demo_generated) (simp add: code_unit_def)
  note ls = pending_signing_loads [OF demo_gcm_correct wrap(1) gen, where row = ?rs, OF refl]
  note le = pending_encryption_loads [OF demo_gcm_correct wrap(2), where row = ?re and jose = demo_jose, OF refl]
  have d: "distinct (map kr_kid demo_rows)" using demo_rows_ok by (simp add: config_keys_ok_def)
  have "sn_activeSigningKid (load_snapshot demo_gcm demo_jose demo_provider demo_rows) = Some ''s1''"
    using active_kid(1) [OF demo_rows_ok rows(1), of demo_gcm demo_jose demo_provider]
    by (simp add: signing_entry_def ls)
  moreover have "sn_activeEncryptionKid (load_snapshot demo_gcm demo_jose demo_provider demo_rows) = Some ''e1''"
    using active_kid(2) [OF demo_rows_ok rows(2), of demo_gcm demo_jose demo_provider]
    by (simp add: encryption_entry_def le)
  moreover have "map_of (sn_signing (load_snapshot demo_gcm demo_jose demo_provider demo_rows)) ''s1'' =
      map_option snd (signing_entry demo_gcm demo_jose demo_provider ?rs)"
    using lookup_signing [OF d, of demo_gcm demo_jose demo_provider "''s1''"] find_kid [OF demo_rows_ok rows(1)] by simp
  moreover have "map_of (sn_encryption (load_snapshot demo_gcm demo_jose demo_provider demo_rows)) ''e1'' =
      map_option snd (encryption_entry demo_gcm demo_jose demo_provider ?re)"
    using lookup_encryption [OF d, of demo_gcm demo_jose demo_provider "''e1''"] find_kid [OF demo_rows_ok rows(2)] by simp
  ultimately show ?thesis
    by (simp add: activeMaterial_def signing_entry_def encryption_entry_def ls le) (simp add: demo_key_def)
qed

lemma demo_issue_token: "issue demo_tokens demo_config 2000 demo_claims (demo_keys demo_rows) = Inr ''h.k.i.c.t''"
  by (simp add: issue_def demo_keys_def demo_active_material issueNestedToken_def assertMaterial_def
      TOKEN_KEY_BYTES_def ENCRYPTION_KEY_BYTES_def demo_tokens_def flip: demo_payload_def)

lemma demo_active_unlimited: "active_unlimited demo_rows"
  by (simp add: active_unlimited_def demo_rows_eq rotated_def retire_active_def pending_row_def token_signing_def
      token_encryption_def)

lemma demo_verify_once:
  assumes "t div 1000 - cf_jwtClockToleranceSeconds demo_config < 2 + cf_jwtAccessTtlSeconds demo_config"
  shows "verifyOnce demo_tokens demo_config t ''h.k.i.c.t'' (load_snapshot demo_gcm demo_jose demo_provider demo_rows) =
    Inr demo_payload"
proof -
  have snap: "rg_snapshot (demo_keys demo_rows) = load_snapshot demo_gcm demo_jose demo_provider demo_rows"
    by (simp add: demo_keys_def)
  show ?thesis
    using issued_token_once [OF demo_rows_ok demo_active_unlimited demo_decrypt_complete demo_verify_complete
        demo_import_pairs snap refl demo_issue_token, of t] assms
    by (simp add: snap demo_payload_def)
qed

lemma demo_fresh: "fk_kid (demo_key ''s2'') \<notin> kr_kid ` set demo_rows" "fk_kid (demo_key ''e2'') \<notin> kr_kid ` set demo_rows"
  "fk_kid (demo_key ''s2'') \<noteq> fk_kid (demo_key ''e2'')"
  by (simp_all add: demo_kid_fresh)

definition demo_settings :: env where
  "demo_settings =
     [''NODE_ENV'' \<mapsto> ''test'', ''MASTER_DATABASE_URL'' \<mapsto> ''m'', ''TENANT_CLUSTER_URL'' \<mapsto> ''t'',
      ''PROBLEM_TYPE_BASE_URI'' \<mapsto> ''p'', ''JWT_ISSUER'' \<mapsto> ''i'', ''JWT_AUDIENCE'' \<mapsto> ''a'',
      ''JWT_ACCESS_TTL_SECONDS'' \<mapsto> ''900'', ''KEY_ENCRYPTION_KEY'' \<mapsto> keyA, ''CONTROL_PLANE_API_KEY'' \<mapsto> keyE,
      ''REDIS_URL'' \<mapsto> ''r'', ''LOGIN_THROTTLE_LIMIT'' \<mapsto> ''2'']"

definition demo_number :: "string \<Rightarrow> int option" where
  "demo_number = [''900'' \<mapsto> 900, ''2'' \<mapsto> 2]"

lemma demo_settings_load: "loadConfig (\<lambda>_. True) demo_number demo_settings = Some demo_config"
proof -
  have "\<not> sameKeyBytes keyA keyE" using sameKeyBytes_chars [of keyA keyE] by simp
  moreover have "demo_number ''900'' = Some 900" "demo_number ''2'' = Some 2" by (simp_all add: demo_number_def)
  ultimately show ?thesis
    by (simp add: loadConfig_def parse_schema_def demo_settings_def zod_nodeEnv_def zod_int_def demo_config_def
        zod_url_def zod_nonempty_def key256_def withInvariants_def onUnlessOff_def offUnlessOn_def)
qed

definition demo_rotated :: "StoredKeyRow list" where
  "demo_rotated =
     snd (rotate demo_gcm demo_provider 2500 (overlapSeconds demo_number demo_settings)
       [(token_signing, demo_key ''s2''), (token_encryption, demo_key ''e2'')] demo_rows)"

theorem rotation_keeps_sessions_witness:
  "fst (verify_token demo_gcm demo_jose demo_provider demo_tokens demo_config 900000 900000 None ''h.k.i.c.t''
     (demo_keys demo_rotated)) = Inr demo_claims"
proof -
  have snap: "rg_snapshot (demo_keys demo_rows) = load_snapshot demo_gcm demo_jose demo_provider demo_rows"
    "rg_snapshot (demo_keys demo_rotated) = load_snapshot demo_gcm demo_jose demo_provider demo_rotated"
    by (simp_all add: demo_keys_def)
  show ?thesis
    using rotation_keeps_sessions [OF demo_settings_load _ demo_rows_ok demo_fresh demo_decrypt_complete demo_verify_complete
        demo_import_pairs snap(1) demo_issue_token _ snap(2) [unfolded demo_rotated_def], of 900000]
    by (simp add: demo_rotated_def demo_config_def)
qed

text \<open>C31: The overlap does not cover an instance that has not reloaded yet. Let an instance whose last reload was
  before the rotation, and less than the reload interval ago, issue a token a second or more after
  the rotation, and let the command's overlap come from the environment the service is configured
  from. Every reloaded instance refuses that token from the end of the overlap on, lifetime plus
  tolerance after the rotation; but the token expires as much later as it was issued after the
  rotation, so until the last second of that difference it is refused before it expires.\<close>

theorem stale_instance_tokens_cut_short:
  assumes "loadConfig isUrl zodInt env = Some config" and "\<And>s n. zodInt s = Some n \<Longrightarrow> num s = Some n"
    and "config_keys_ok rows" and "fk_kid k1 \<notin> kr_kid ` set rows" and "fk_kid k2 \<notin> kr_kid ` set rows"
    and "fk_kid k1 \<noteq> fk_kid k2"
    and "decrypt_sound opened jose" and "header_kept jose"
    and "rg_snapshot keys = load_snapshot gcm kj provider rows"
    and "rg_lastRefreshAt keys \<le> tr" and "t0 < rg_lastRefreshAt keys + REFRESH_INTERVAL_MS"
    and "issue jose config t0 c keys = Inr token" and "tr + 1000 \<le> t0"
    and "rows' = snd (rotate gcm provider tr (overlapSeconds num env) [(token_signing, k1), (token_encryption, k2)] rows)"
    and "rg_snapshot keys' = load_snapshot gcm kj provider rows'"
    and "ends = tr + (cf_jwtAccessTtlSeconds config + cf_jwtClockToleranceSeconds config) * 1000"
  shows "(\<forall>t t2. ends \<le> t \<longrightarrow> t \<le> t2 \<longrightarrow>
      fst (verify_token gcm kj provider jose config t t2 (Some rows') token keys') = Inl InvalidAccessTokenError) \<and>
    (\<forall>t. ends \<le> t \<longrightarrow> t < ends + (t0 - tr) - 999 \<longrightarrow>
      t div 1000 - cf_jwtClockToleranceSeconds config < t0 div 1000 + cf_jwtAccessTtlSeconds config) \<and>
    ends < ends + (t0 - tr) - 999"
proof (intro conjI allI impI)
  obtain m jws where m: "activeMaterial (load_snapshot gcm kj provider rows) = Inr m" "tm_encryptionKid m \<noteq> []"
      "tj_encrypt jose (outer_header (tm_encryptionKid m)) (utf8 jws) (tm_encryptionKey m) = Some token"
    using issue_Inr [OF assms(12)] assms(9) by metis
  have triv: "import_pairs (\<lambda>_ _. True) kj" by (simp add: import_pairs_def)
  have overlap: "ends = tr + overlapSeconds num env * 1000"
    using overlapSeconds_covers [OF assms(1,2)] assms(16) by simp
  have none: "resolve_encryption (load_snapshot gcm kj provider rows') u (tm_encryptionKid m) = None" if "ends \<le> u" for u
    using resolve_after_rotate(2) [OF assms(3-6) m(1) _ triv, of "load_snapshot gcm kj provider rows'" tr _ u]
      assms(14) that unfolding overlap by simp
  have fail: "\<exists>e. verifyOnce jose config u token (load_snapshot gcm kj provider rows') = Inl e" if "ends \<le> u" for u
  proof (rule ccontr)
    assume "\<not> ?thesis"
    then obtain payload where "verifyOnce jose config u token (load_snapshot gcm kj provider rows') = Inr payload"
      by (metis sum.exhaust)
    then obtain p outer where d: "tj_compactDecrypt jose token
        (key_by_kid (resolve_encryption (load_snapshot gcm kj provider rows') u)) decrypt_options = Some (p, outer)"
      by (rule verifyOnce_Inr)
    then have "outer = outer_header (tm_encryptionKid m)" using assms(8) m(3) unfolding header_kept_def by blast
    moreover have "key_by_kid (resolve_encryption (load_snapshot gcm kj provider rows') u) outer \<noteq> None"
      using assms(7) d unfolding decrypt_sound_def by blast
    ultimately show False using none [OF that] m(2) by simp
  qed
  fix t
  assume t: "ends \<le> t"
  have snap2: "rg_snapshot (refresh_awaited gcm kj provider t (Some rows') keys') = load_snapshot gcm kj provider rows'"
    using refresh_awaited_snapshot [of gcm kj provider t "Some rows'" keys'] assms(15) by auto
  show "fst (verify_token gcm kj provider jose config t t2 (Some rows') token keys') = Inl InvalidAccessTokenError"
    if "t \<le> t2" for t2
    using fail [OF t] fail [of t2] t that by (auto simp: verify_token_def Let_def assms(15) snap2)
  assume "t < ends + (t0 - tr) - 999"
  then have "t < (t0 div 1000 + cf_jwtAccessTtlSeconds config + cf_jwtClockToleranceSeconds config) * 1000"
    using assms(16) mult_div_mod_eq [of 1000 t0] pos_mod_bound [of 1000 t0] by (simp add: algebra_simps)
  then show "t div 1000 - cf_jwtClockToleranceSeconds config < t0 div 1000 + cf_jwtAccessTtlSeconds config"
    by (simp add: div_less_iff_less_mult)
qed (use assms(13) in simp)

definition demo_opened :: "bytes \<Rightarrow> string \<Rightarrow> bytes \<Rightarrow> bool" where
  "demo_opened k token p \<longleftrightarrow> k = replicate 32 1 \<and> token = ''h.k.i.c.t'' \<and> p = utf8 ''jws''"

definition demo_signs :: "JWK \<Rightarrow> string \<Rightarrow> claims \<Rightarrow> bool" where
  "demo_signs pub jws payload \<longleftrightarrow> take 2 pub = demo_jwk ''s1'' \<and> jws = ''jws'' \<and> payload = demo_payload"

lemma demo_decrypt_sound: "decrypt_sound demo_opened demo_tokens"
  by (auto simp: decrypt_sound_def demo_tokens_def demo_opened_def outer_header_def jget_def split: if_splits)

lemma demo_verify_sound: "verify_sound demo_signs demo_tokens"
  by (auto simp: verify_sound_def demo_tokens_def demo_signs_def acceptable_def list_ex_iff
      split: if_splits option.splits json.splits)

lemma demo_header_kept: "header_kept demo_tokens"
  by (auto simp: header_kept_def demo_tokens_def split: if_splits)

theorem stale_instance_tokens_cut_short_witness:
  "906000 div 1000 - cf_jwtClockToleranceSeconds demo_config < 2000 div 1000 + cf_jwtAccessTtlSeconds demo_config \<and>
   fst (verify_token demo_gcm demo_jose demo_provider demo_tokens demo_config 906000 906000
     (Some (snd (rotate demo_gcm demo_provider 1000 (overlapSeconds demo_number demo_settings)
       [(token_signing, demo_key ''s2''), (token_encryption, demo_key ''e2'')] demo_rows))) ''h.k.i.c.t''
     (demo_keys (snd (rotate demo_gcm demo_provider 1000 (overlapSeconds demo_number demo_settings)
       [(token_signing, demo_key ''s2''), (token_encryption, demo_key ''e2'')] demo_rows)))) = Inl InvalidAccessTokenError"
proof -
  have snap: "rg_snapshot (demo_keys rows) = load_snapshot demo_gcm demo_jose demo_provider rows"
    "rg_lastRefreshAt (demo_keys rows) = 0" for rows
    by (simp_all add: demo_keys_def)
  have ends: "(906000 :: int) = 1000 + (cf_jwtAccessTtlSeconds demo_config + cf_jwtClockToleranceSeconds demo_config) * 1000"
    by (simp add: demo_config_def)
  note cut = stale_instance_tokens_cut_short [OF demo_settings_load _ demo_rows_ok demo_fresh demo_decrypt_sound demo_header_kept
        snap(1) _ _ demo_issue_token _ refl snap(1) ends, of demo_number]
  show ?thesis
    using cut [THEN conjunct1] cut [THEN conjunct2, THEN conjunct1]
    by (simp add: snap(2) REFRESH_INTERVAL_MS_def) (simp add: demo_config_def)
qed

end
