(* ===== verification/Rate_Guard.thy ===== *)
theory Rate_Guard
  imports Rate_Limit Client_Address
begin

text \<open>
  The global rate-limit guard, \<open>services/auth/src/ratelimit/rate-limit.guard.ts\<close>: the client-wide
  budget, the budget of an annotated route, and the response headers that report them. The
  metadata the guard reads through Nest's reflector are fields of the request context.
\<close>

record RateLimitOptions =
  ro_limit :: int
  ro_windowMs :: int

record RequestContext =
  rc_isHttp :: bool
  rc_noRateLimit :: bool
  rc_rateLimit :: "RateLimitOptions option"
  rc_ip :: "string option"
  rc_method :: string
  rc_routeUrl :: "string option"
  rc_url :: string

type_synonym headers = "string \<Rightarrow> string option"

definition show_int :: "int \<Rightarrow> string" where
  "show_int i = (if i < 0 then ''-'' @ show_nat (nat (- i)) else show_nat (nat i))"

definition clientId :: "RequestContext \<Rightarrow> string" where
  "clientId req =
     (case rc_ip req of
        Some ip \<Rightarrow> if 0 < length ip then rateLimitIdentity ip else ''unknown''
      | None \<Rightarrow> ''unknown'')"

definition setHeaders :: "RateLimitResult \<Rightarrow> headers \<Rightarrow> headers" where
  "setHeaders result h =
     (if rl_degraded result then
        h(''x-ratelimit-limit'' := None, ''x-ratelimit-remaining'' := None,
          ''x-ratelimit-degraded'' := Some ''true'')
      else if h ''x-ratelimit-degraded'' \<noteq> None then h
      else
        h(''x-ratelimit-limit'' := Some (show_int (rl_limit result)),
          ''x-ratelimit-remaining'' := Some (show_int (max 0 (rl_limit result - rl_count result)))))"

definition clientKey :: "RequestContext \<Rightarrow> string" where
  "clientKey req = ''rl:client:'' @ clientId req"

definition routeKey :: "RequestContext \<Rightarrow> string" where
  "routeKey req =
     (let pattern = (case rc_routeUrl req of
                       Some p \<Rightarrow> p
                     | None \<Rightarrow> hd (split_on (CHR ''?'') (rc_url req)))
      in ''rl:route:'' @ rc_method req @ '':'' @ pattern @ '':'' @ clientId req)"

definition rateLimitGuard ::
    "AppConfig \<Rightarrow> RequestContext \<Rightarrow> store_state \<Rightarrow> headers \<Rightarrow>
     (DomainError + unit) \<times> store_state \<times> headers" where
  "rateLimitGuard config req s h =
     (if \<not> rc_isHttp req then (Inr (), s, h)
      else if rc_noRateLimit req then (Inr (), s, h)
      else
        (case s of (f, r) \<Rightarrow>
           case consume config (clientKey req) (cf_rateLimitDefaultLimit config)
                  (cf_rateLimitDefaultWindowMs config) f r of
             (glob, f', r') \<Rightarrow>
               let h' = setHeaders glob h in
               if \<not> rl_allowed glob then
                 (Inl (TooManyRequestsError (rl_retryAfterMs glob)), (f', r'), h')
               else
                 (case rc_rateLimit req of
                    None \<Rightarrow> (Inr (), (f', r'), h')
                  | Some route \<Rightarrow>
                      (case consume config (routeKey req) (ro_limit route) (ro_windowMs route) f' r' of
                         (scoped, f'', r'') \<Rightarrow>
                           let h'' = setHeaders scoped h' in
                           if \<not> rl_allowed scoped then
                             (Inl (TooManyRequestsError (rl_retryAfterMs scoped)), (f'', r''), h'')
                           else (Inr (), (f'', r''), h'')))))"

section \<open>The checks a request goes through\<close>

text \<open>The results of the consumes one request performs, in order; the second is only performed when
  the first allowed the request.\<close>

definition guard_checks :: "AppConfig \<Rightarrow> RequestContext \<Rightarrow> store_state \<Rightarrow> RateLimitResult list" where
  "guard_checks config req s =
     (if \<not> rc_isHttp req \<or> rc_noRateLimit req then []
      else
        (case s of (f, r) \<Rightarrow>
           case consume config (clientKey req) (cf_rateLimitDefaultLimit config)
                  (cf_rateLimitDefaultWindowMs config) f r of
             (glob, f', r') \<Rightarrow>
               (case rc_rateLimit req of
                  Some route \<Rightarrow>
                    if rl_allowed glob
                    then [glob, fst (consume config (routeKey req) (ro_limit route) (ro_windowMs route) f' r')]
                    else [glob]
                | None \<Rightarrow> [glob])))"

lemma guard_outcome:
  "rateLimitGuard config req s h =
     (case find (\<lambda>c. \<not> rl_allowed c) (guard_checks config req s) of
        Some c \<Rightarrow> Inl (TooManyRequestsError (rl_retryAfterMs c))
      | None \<Rightarrow> Inr (),
      fst (snd (rateLimitGuard config req s h)),
      fold setHeaders (guard_checks config req s) h)"
  by (auto simp: rateLimitGuard_def guard_checks_def Let_def split: prod.splits option.splits)

lemma setHeaders_degraded_iff:
  "setHeaders c h ''x-ratelimit-degraded'' \<noteq> None \<longleftrightarrow>
     rl_degraded c \<or> h ''x-ratelimit-degraded'' \<noteq> None"
  by (simp add: setHeaders_def)

definition figures_absent :: "headers \<Rightarrow> bool" where
  "figures_absent h \<longleftrightarrow> h ''x-ratelimit-limit'' = None \<and> h ''x-ratelimit-remaining'' = None"

definition headers_truthful :: "headers \<Rightarrow> bool" where
  "headers_truthful h \<longleftrightarrow> (h ''x-ratelimit-degraded'' \<noteq> None \<longrightarrow> figures_absent h)"

lemma setHeaders_truthful [wf_intros]: "headers_truthful h \<Longrightarrow> headers_truthful (setHeaders c h)"
  by (auto simp: headers_truthful_def setHeaders_def figures_absent_def)

lemma fold_headers_truthful: "headers_truthful h \<Longrightarrow> headers_truthful (fold setHeaders cs h)"
  by (induction cs arbitrary: h) (auto intro: wf_intros)

lemma fold_headers_degraded:
  "fold setHeaders cs h ''x-ratelimit-degraded'' \<noteq> None \<longleftrightarrow>
     (\<exists>c\<in>set cs. rl_degraded c) \<or> h ''x-ratelimit-degraded'' \<noteq> None"
  by (induction cs arbitrary: h) (auto simp: setHeaders_degraded_iff simp del: not_None_eq)

lemma fold_headers_last:
  assumes "fold setHeaders cs h ''x-ratelimit-degraded'' = None" and "cs \<noteq> []"
  shows "fold setHeaders cs h ''x-ratelimit-limit'' = Some (show_int (rl_limit (last cs)))"
  using assms
proof (induction cs rule: rev_induct)
  case (snoc c cs)
  then show ?case by (simp add: setHeaders_def split: if_splits)
qed simp

section \<open>Properties of the guard\<close>

text \<open>A request passes the guard exactly when every budget it is checked against allows it, the
  client-wide one first and the route's only when that passed; a refusal carries the wait of the
  budget that refused.\<close>

lemma rateLimitGuard_passes_iff:
  "fst (rateLimitGuard config req s h) =
     (case find (\<lambda>c. \<not> rl_allowed c) (guard_checks config req s) of
        Some c \<Rightarrow> Inl (TooManyRequestsError (rl_retryAfterMs c))
      | None \<Rightarrow> Inr ())"
  by (subst guard_outcome) simp

text \<open>The rate-limit headers of a response are truthful: with no such header set before, the
  degraded flag is present exactly when one of the request's checks could not be made, and then no
  limit or remaining figure is; otherwise the limit reported is the one of the last check.\<close>

theorem rateLimitGuard_headers_truthful:
  assumes "h ''x-ratelimit-degraded'' = None" and "figures_absent h"
    and "rateLimitGuard config req s h = (res, s', h')"
  shows "(h' ''x-ratelimit-degraded'' \<noteq> None \<longleftrightarrow> (\<exists>c\<in>set (guard_checks config req s). rl_degraded c)) \<and>
     (h' ''x-ratelimit-degraded'' \<noteq> None \<longrightarrow> figures_absent h') \<and>
     (h' ''x-ratelimit-degraded'' = None \<longrightarrow> guard_checks config req s \<noteq> [] \<longrightarrow>
        h' ''x-ratelimit-limit'' = Some (show_int (rl_limit (last (guard_checks config req s)))))"
proof -
  have h': "h' = fold setHeaders (guard_checks config req s) h"
    using assms(3) guard_outcome [of config req s h] by simp
  have "headers_truthful h'"
    unfolding h' using assms(1,2) by (intro fold_headers_truthful) (simp add: headers_truthful_def)
  then show ?thesis
    using fold_headers_degraded [of "guard_checks config req s" h] assms(1)
      fold_headers_last [of "guard_checks config req s" h]
    by (auto simp: headers_truthful_def h')
qed

definition demo_request :: RequestContext where
  "demo_request =
     \<lparr>rc_isHttp = True, rc_noRateLimit = False, rc_rateLimit = Some \<lparr>ro_limit = 20, ro_windowMs = 60000\<rparr>,
      rc_ip = None, rc_method = ''POST'', rc_routeUrl = Some ''/api/auth/login'', rc_url = ''/api/auth/login''\<rparr>"

theorem rateLimitGuard_headers_truthful_witness:
  "snd (snd (rateLimitGuard demo_config demo_request
      (newMemberIdFactory [], (demo_redis 0)\<lparr>rd_up := False\<rparr>) (\<lambda>_. None))) ''x-ratelimit-limit'' = None"
proof -
  let ?s = "(newMemberIdFactory [], (demo_redis 0)\<lparr>rd_up := False\<rparr>)"
  obtain res s' h' where run: "rateLimitGuard demo_config demo_request ?s (\<lambda>_. None) = (res, s', h')"
    by (metis prod_cases3)
  have "\<exists>c\<in>set (guard_checks demo_config demo_request ?s). rl_degraded c"
    by (auto simp: guard_checks_def demo_request_def consume_def nextMemberId_def Let_def demo_config_def
        demo_redis_def)
  with rateLimitGuard_headers_truthful [OF _ _ run] run show ?thesis
    by (simp add: figures_absent_def)
qed

end
