(* ===== verification/Access.thy ===== *)
theory Access
  imports Provisioning Tokens Rate_Guard "HOL-Library.Char_ord" "HOL-Library.List_Lexorder"
begin

text \<open>
  Who may do what: the guards of \<open>services/auth/src\<close> (\<open>tenancy/tenant.guard.ts\<close>,
  \<open>auth/access-token.guard.ts\<close>, \<open>rbac/permissions.guard.ts\<close>, \<open>tenants/control-plane.guard.ts\<close>), the
  header reader they share (\<open>common/authorization-header.ts\<close>), the request-scoped tenant context, the
  pool cache of the connection manager, and the user list. A guard takes the request and the state of
  the process and the databases and returns the request with what it attached, or the error it threw.
\<close>

section \<open>Requests\<close>

datatype header_value = HOne string | HMany "string list"

record Request =
  rq_headers :: "string \<Rightarrow> header_value option"
  rq_rawHeaders :: "string list option"
  rq_context :: RequestContext
  rq_tenant :: "Tenant option"
  rq_tenantDb :: "string option"
  rq_user :: "AccessTokenClaims option"

text \<open>Names are at the even positions.\<close>

fun authorization_lines :: "string list \<Rightarrow> nat" where
  "authorization_lines [] = 0"
| "authorization_lines [name] = (if toLowerCase name = ''authorization'' then 1 else 0)"
| "authorization_lines (name # v # rest) =
     (if toLowerCase name = ''authorization'' then 1 else 0) + authorization_lines rest"

definition singleAuthorizationHeader :: "Request \<Rightarrow> string option" where
  "singleAuthorizationHeader req =
     (if (case rq_rawHeaders req of Some raw \<Rightarrow> 1 < authorization_lines raw | None \<Rightarrow> False) then None
      else (case rq_headers req ''authorization'' of Some (HOne h) \<Rightarrow> Some h | _ \<Rightarrow> None))"

definition bearerToken :: "Request \<Rightarrow> string option" where
  "bearerToken req =
     (case singleAuthorizationHeader req of
        None \<Rightarrow> None
      | Some header \<Rightarrow>
          (case split_on (CHR '' '') header of
             [scheme, v] \<Rightarrow> if toLowerCase scheme \<noteq> ''bearer'' \<or> v = [] then None else Some v
           | _ \<Rightarrow> None))"

definition tenantHeader :: "Request \<Rightarrow> string option" where
  "tenantHeader req =
     (case (case rq_headers req ''x-tenant-id'' of None \<Rightarrow> rq_headers req ''x-tenant'' | v \<Rightarrow> v) of
        Some (HOne v) \<Rightarrow> if 0 < length v then Some v else None
      | _ \<Rightarrow> None)"

section \<open>The state the guards work on\<close>

record ('priv, 'pub) Service =
  sv_sha :: "bytes \<Rightarrow> bytes"
  sv_gcm :: Gcm
  sv_keyJose :: "('priv, 'pub) Jose"
  sv_provider :: LocalKeyProvider
  sv_jose :: "('priv, 'pub) TokenJose"
  sv_config :: AppConfig

text \<open>When a request is handled: the timestamp of an event, the times of the two attempts to verify a
  token, and what a reload of the keys in between would read.\<close>

record Moment =
  mo_iso :: string
  mo_now :: int
  mo_later :: int
  mo_rows :: "StoredKeyRow list option"

record ('priv, 'pub) AccessWorld =
  ax_world :: ProvisionWorld
  ax_masterUp :: bool
  ax_pools :: "string \<Rightarrow> string option"
  ax_keys :: "('priv, 'pub) KeyRegistryService"
  ax_log :: "audit_log_line list"

text \<open>\<open>getTenantDb\<close>: the pool of a tenant id, created for its database on first use. A pool is named by
  the database it connects to.\<close>

definition getTenantDb :: "Tenant \<Rightarrow> (string \<Rightarrow> string option) \<Rightarrow> string \<times> (string \<Rightarrow> string option)" where
  "getTenantDb tenant pools =
     (case pools (tn_id tenant) of
        Some cached \<Rightarrow> (cached, pools)
      | None \<Rightarrow> (tn_databaseName tenant, pools(tn_id tenant \<mapsto> tn_databaseName tenant)))"

text \<open>\<open>TenantContextService\<close>: both getters throw without what \<open>TenantGuard\<close> attached.\<close>

definition context_tenant :: "Request \<Rightarrow> DomainError + Tenant" where
  "context_tenant req = (case rq_tenant req of None \<Rightarrow> Inl TenantContextMissingError | Some t \<Rightarrow> Inr t)"

definition context_db :: "Request \<Rightarrow> DomainError + string" where
  "context_db req = (case rq_tenantDb req of None \<Rightarrow> Inl TenantContextMissingError | Some n \<Rightarrow> Inr n)"

text \<open>The tables behind a pool. A query to a database that is not there, or not built, fails.\<close>

definition tables_of :: "ProvisionWorld \<Rightarrow> string \<Rightarrow> TenantData option" where
  "tables_of w n = (case pw_cluster w n of None \<Rightarrow> None | Some db \<Rightarrow> cd_tables db)"

definition set_tables :: "string \<Rightarrow> TenantData \<Rightarrow> ProvisionWorld \<Rightarrow> ProvisionWorld" where
  "set_tables n t w =
     (case pw_cluster w n of
        None \<Rightarrow> w
      | Some db \<Rightarrow> w\<lparr>pw_cluster := (pw_cluster w)(n \<mapsto> db\<lparr>cd_tables := Some t\<rparr>)\<rparr>)"

text \<open>\<open>AuditService.tenantEvent\<close> on the chain behind the request's pool.\<close>

definition request_event ::
    "('priv, 'pub) Service \<Rightarrow> Moment \<Rightarrow> Request \<Rightarrow> AppendAuditEvent \<Rightarrow> ('priv, 'pub) AccessWorld \<Rightarrow> ('priv, 'pub) AccessWorld" where
  "request_event sv m req event w =
     (case (context_db req, context_tenant req) of
        (Inr n, Inr tenant) \<Rightarrow>
          (case tables_of (ax_world w) n of
             None \<Rightarrow> w\<lparr>ax_log := ax_log w @ [AppendFailed (''tenant '' @ tn_slug tenant) event ConnectionError]\<rparr>
           | Some td \<Rightarrow>
               (case tenantEvent (sv_sha sv) (mo_iso m) (Some (tenant, td_audit td)) event of
                  (Some (_, t), log) \<Rightarrow>
                    w\<lparr>ax_world := set_tables n (td\<lparr>td_audit := t\<rparr>) (ax_world w), ax_log := ax_log w @ log\<rparr>
                | (None, log) \<Rightarrow> w\<lparr>ax_log := ax_log w @ log\<rparr>))
      | _ \<Rightarrow> w\<lparr>ax_log := ax_log w @ [NoTenantContext event]\<rparr>)"

section \<open>The guards\<close>

definition tenantGuard ::
    "Request \<Rightarrow> ('priv, 'pub) AccessWorld \<Rightarrow> (app_error + Request) \<times> ('priv, 'pub) AccessWorld" where
  "tenantGuard req w =
     (case tenantHeader req of
        None \<Rightarrow> (Inl (Domain (TenantNotFoundError ''(missing x-tenant-id header)'')), w)
      | Some header \<Rightarrow>
          if \<not> ax_masterUp w then (Inl database_error, w)
          else
            (case resolveTenant (pw_tenants (ax_world w)) header of
               Inl e \<Rightarrow> (Inl (Domain e), w)
             | Inr tenant \<Rightarrow>
                 (case getTenantDb tenant (ax_pools w) of
                    (db, pools) \<Rightarrow>
                      (Inr (req\<lparr>rq_tenant := Some tenant, rq_tenantDb := Some db\<rparr>), w\<lparr>ax_pools := pools\<rparr>))))"

definition accessTokenGuard ::
    "('priv, 'pub) Service \<Rightarrow> Moment \<Rightarrow> Request \<Rightarrow> ('priv, 'pub) AccessWorld \<Rightarrow>
     (app_error + Request) \<times> ('priv, 'pub) AccessWorld" where
  "accessTokenGuard sv m req w =
     (case rq_tenant req of
        None \<Rightarrow> (Inl (Domain TenantContextMissingError), w)
      | Some tenant \<Rightarrow>
          (case bearerToken req of
             None \<Rightarrow> (Inl (Domain InvalidAccessTokenError), w)
           | Some token \<Rightarrow>
               (case verify_token (sv_gcm sv) (sv_keyJose sv) (sv_provider sv) (sv_jose sv) (sv_config sv)
                       (mo_now m) (mo_later m) (mo_rows m) token (ax_keys w) of
                  (Inl e, keys) \<Rightarrow> (Inl (Domain e), w\<lparr>ax_keys := keys\<rparr>)
                | (Inr claims, keys) \<Rightarrow>
                    if cl_tid claims \<noteq> tn_id tenant
                    then (Inl (Domain CrossTenantTokenError), w\<lparr>ax_keys := keys\<rparr>)
                    else (Inr (req\<lparr>rq_user := Some claims\<rparr>), w\<lparr>ax_keys := keys\<rparr>))))"

definition deniedEvent :: "Request \<Rightarrow> string list \<Rightarrow> string list \<Rightarrow> string \<Rightarrow> string option \<Rightarrow> AppendAuditEvent" where
  "deniedEvent req required missing reason actorId =
     (append_event ''authz.denied'' (if actorId = None then at_anonymous else at_user))
       \<lparr>ap_actorId := actorId, ap_sourceIp := rc_ip (rq_context req),
        ap_metadata :=
          [(''reason'', reason), (''method'', rc_method (rq_context req)),
           (''route'', case rc_routeUrl (rq_context req) of
                       Some p \<Rightarrow> p | None \<Rightarrow> hd (split_on (CHR ''?'') (rc_url (rq_context req)))),
           (''required'', join '','' required), (''missing'', join '','' missing)]\<rparr>"

definition deny ::
    "('priv, 'pub) Service \<Rightarrow> Moment \<Rightarrow> Request \<Rightarrow> string list \<Rightarrow> string list \<Rightarrow> string \<Rightarrow> string option \<Rightarrow>
     ('priv, 'pub) AccessWorld \<Rightarrow> ('priv, 'pub) AccessWorld" where
  "deny sv m req required missing reason actorId = request_event sv m req (deniedEvent req required missing reason actorId)"

definition ForbiddenException :: "string \<Rightarrow> app_error" where
  "ForbiddenException message = HttpException 403 (BodyMessage message)"

text \<open>\<open>required\<close> is the metadata of the handler or its class, None when neither has any.\<close>

definition permissionsGuard ::
    "('priv, 'pub) Service \<Rightarrow> Moment \<Rightarrow> string list option \<Rightarrow> Request \<Rightarrow> ('priv, 'pub) AccessWorld \<Rightarrow>
     (app_error + Request) \<times> ('priv, 'pub) AccessWorld" where
  "permissionsGuard sv m metadata req w =
     (let required = (case metadata of None \<Rightarrow> [] | Some ps \<Rightarrow> ps) in
      if length required = 0 then (Inr req, w)
      else
        (case rq_user req of
           None \<Rightarrow>
             (Inl (ForbiddenException ''No authenticated user''),
              deny sv m req required [] ''no_authenticated_user'' None w)
         | Some user \<Rightarrow>
             let missing = filter (\<lambda>p. p \<notin> set (cl_permissions user)) required in
             if 0 < length missing
             then (Inl (ForbiddenException ''Missing required permission''),
                   deny sv m req required missing ''missing_permission'' (Some (cl_sub user)) w)
             else (Inr req, w)))"

text \<open>\<open>UseGuards(TenantGuard, AccessTokenGuard, PermissionsGuard)\<close> with the route's permissions.\<close>

definition TenantAuthenticated ::
    "('priv, 'pub) Service \<Rightarrow> Moment \<Rightarrow> string list \<Rightarrow> Request \<Rightarrow> ('priv, 'pub) AccessWorld \<Rightarrow>
     (app_error + Request) \<times> ('priv, 'pub) AccessWorld" where
  "TenantAuthenticated sv m permissions req w =
     (case tenantGuard req w of
        (Inl e, w1) \<Rightarrow> (Inl e, w1)
      | (Inr req1, w1) \<Rightarrow>
          (case accessTokenGuard sv m req1 w1 of
             (Inl e, w2) \<Rightarrow> (Inl e, w2)
           | (Inr req2, w2) \<Rightarrow> permissionsGuard sv m (Some permissions) req2 w2))"

section \<open>The control plane\<close>

text \<open>The match of \<open>/^bearer\s+(\S+)$/i\<close> against the trimmed header.\<close>

definition bearer :: "string option \<Rightarrow> string option" where
  "bearer header =
     (case header of
        None \<Rightarrow> None
      | Some h \<Rightarrow>
          let t = trim h; rest = drop 6 t; v = dropWhile is_space rest in
          if toLowerCase (take 6 t) = ''bearer'' \<and> length v < length rest \<and> v \<noteq> [] \<and> list_all (\<lambda>c. \<not> is_space c) v
          then Some v else None)"

definition matches :: "bytes \<Rightarrow> string \<Rightarrow> bool" where
  "matches expected presented =
     (let candidate = utf8 presented in if length candidate \<noteq> length expected then False else candidate = expected)"

definition controlPlaneGuard :: "AppConfig \<Rightarrow> Request \<Rightarrow> DomainError + unit" where
  "controlPlaneGuard config req =
     (let expected = utf8 (cf_controlPlaneApiKey config) in
      case bearer (singleAuthorizationHeader req) of
        None \<Rightarrow> Inl ControlPlaneUnauthorizedError
      | Some presented \<Rightarrow>
          if presented = [] \<or> \<not> matches expected presented then Inl ControlPlaneUnauthorizedError else Inr ())"

section \<open>The user list\<close>

text \<open>\<open>findMany\<close> with its four selected columns, by creation time: ISO timestamps compare as strings.\<close>

definition user_json :: "UserRow \<Rightarrow> json" where
  "user_json u =
     JObj [(''id'', JStr (ur_id u)), (''email'', JStr (ur_email u)),
           (''status'', JStr (case ur_status u of us_active \<Rightarrow> ''active'' | us_disabled \<Rightarrow> ''disabled'')),
           (''createdAt'', JStr (ur_createdAt u))]"

definition users_list :: "Request \<Rightarrow> ('priv, 'pub) AccessWorld \<Rightarrow> app_error + json" where
  "users_list req w =
     (case context_db req of
        Inl e \<Rightarrow> Inl (Domain e)
      | Inr n \<Rightarrow>
          (case tables_of (ax_world w) n of
             None \<Rightarrow> Inl database_error
           | Some td \<Rightarrow>
               if \<not> tb_reachable (td_audit td) then Inl database_error
               else Inr (JArr (map user_json (sort_key ur_createdAt (td_users td))))))"

section \<open>What a request that passes has proved\<close>

text \<open>A cached pool is the one of the tenant's own database: ids are unique and rows are never renamed.\<close>

definition pools_ok :: "('priv, 'pub) AccessWorld \<Rightarrow> bool" where
  "pools_ok w \<longleftrightarrow> (\<forall>tid n. ax_pools w tid = Some n \<longrightarrow> registered (ax_world w) n tid)"

lemma resolveTenant_Inr:
  assumes "resolveTenant rows header = Inr tenant"
  obtains row where "row \<in> set rows" "tr_status row = ts_active" "tenant = toTenant row"
    "if UUID header then tr_id row = toLowerCase header else tr_slug row = header"
  using assms by (auto simp: resolveTenant_def find_Some_iff intro: nth_mem split: option.splits if_splits)

lemma registered_unique:
  assumes "registry_ok w" "row \<in> set (pw_tenants w)" "registered w n (tr_id row)"
  shows "n = tr_databaseName row"
  using assms by (auto simp: registry_ok_def registered_def list_ex_iff distinct_map inj_on_def)

lemma getTenantDb_own:
  assumes "pools_ok w" "registry_ok (ax_world w)" "row \<in> set (pw_tenants (ax_world w))" "tenant = toTenant row"
    and "getTenantDb tenant (ax_pools w) = (db, pools)"
  shows "db = tr_databaseName row \<and> pools_ok (w\<lparr>ax_pools := pools\<rparr>)"
proof (cases "ax_pools w (tr_id row)")
  case None
  with assms show ?thesis
    by (auto simp: getTenantDb_def toTenant_def pools_ok_def registered_def list_ex_iff split: if_splits)
next
  case (Some n)
  then have "registered (ax_world w) n (tr_id row)" using assms(1) by (simp add: pools_ok_def)
  with Some assms registered_unique [OF assms(2,3)] show ?thesis
    by (auto simp: getTenantDb_def toTenant_def)
qed

lemma tenantGuard_Inr:
  assumes "tenantGuard req w = (Inr req', w')" "pools_ok w" "registry_ok (ax_world w)"
  obtains header row where "tenantHeader req = Some header" "row \<in> set (pw_tenants (ax_world w))"
    "tr_status row = ts_active" "if UUID header then tr_id row = toLowerCase header else tr_slug row = header"
    "req' = req\<lparr>rq_tenant := Some (toTenant row), rq_tenantDb := Some (tr_databaseName row)\<rparr>"
    "ax_world w' = ax_world w" "ax_keys w' = ax_keys w" "ax_log w' = ax_log w" "pools_ok w'"
proof -
  obtain header tenant db pools where h: "tenantHeader req = Some header"
      "resolveTenant (pw_tenants (ax_world w)) header = Inr tenant"
      "getTenantDb tenant (ax_pools w) = (db, pools)"
      "req' = req\<lparr>rq_tenant := Some tenant, rq_tenantDb := Some db\<rparr>" "w' = w\<lparr>ax_pools := pools\<rparr>"
    using assms(1) by (auto simp: tenantGuard_def split: option.splits if_splits sum.splits prod.splits)
  obtain row where row: "row \<in> set (pw_tenants (ax_world w))" "tr_status row = ts_active" "tenant = toTenant row"
      "if UUID header then tr_id row = toLowerCase header else tr_slug row = header"
    by (rule resolveTenant_Inr [OF h(2)])
  from getTenantDb_own [OF assms(2,3) row(1,3) h(3)] h row show ?thesis by (intro that [of header row]) auto
qed

lemma accessTokenGuard_Inr:
  assumes "accessTokenGuard sv m req w = (Inr req', w')"
  obtains tenant token c where "rq_tenant req = Some tenant" "bearerToken req = Some token"
    "verify_token (sv_gcm sv) (sv_keyJose sv) (sv_provider sv) (sv_jose sv) (sv_config sv)
       (mo_now m) (mo_later m) (mo_rows m) token (ax_keys w) = (Inr c, ax_keys w')"
    "cl_tid c = tn_id tenant" "req' = req\<lparr>rq_user := Some c\<rparr>" "ax_world w' = ax_world w" "ax_log w' = ax_log w"
  using assms by (auto simp: accessTokenGuard_def split: option.splits prod.splits sum.splits if_splits)

lemma permissionsGuard_Inr:
  assumes "permissionsGuard sv m (Some permissions) req w = (Inr req', w')"
  shows "req' = req \<and> w' = w \<and> (permissions = [] \<or> (\<exists>c. rq_user req = Some c \<and> set permissions \<subseteq> set (cl_permissions c)))"
  using assms by (auto simp: permissionsGuard_def Let_def filter_empty_conv split: if_splits option.splits)

lemma bearerToken_unchanged [simp]:
  "bearerToken (req\<lparr>rq_tenant := t, rq_tenantDb := d\<rparr>) = bearerToken req"
  by (simp add: bearerToken_def singleAuthorizationHeader_def)

text \<open>The token was checked with the keys the process held, or with those a reload just read.\<close>

definition token_proven ::
    "(bytes \<Rightarrow> string \<Rightarrow> bytes \<Rightarrow> bool) \<Rightarrow> ('pub \<Rightarrow> string \<Rightarrow> claims \<Rightarrow> bool) \<Rightarrow> ('priv, 'pub) Service \<Rightarrow> Moment \<Rightarrow> string \<Rightarrow>
     ('priv, 'pub) AccessWorld \<Rightarrow> AccessTokenClaims \<Rightarrow> bool" where
  "token_proven opened signs sv m token w c \<longleftrightarrow>
     token_checked opened signs (sv_config sv) (mo_now m) token (rg_snapshot (ax_keys w)) c \<or>
     token_checked opened signs (sv_config sv) (mo_later m) token (rg_snapshot (ax_keys w)) c \<or>
     (\<exists>rows. mo_rows m = Some rows \<and>
        token_checked opened signs (sv_config sv) (mo_later m) token
          (load_snapshot (sv_gcm sv) (sv_keyJose sv) (sv_provider sv) rows) c)"

lemma verify_token_proven:
  assumes "decrypt_sound opened (sv_jose sv)" and "verify_sound signs (sv_jose sv)"
    and "verify_token (sv_gcm sv) (sv_keyJose sv) (sv_provider sv) (sv_jose sv) (sv_config sv)
       (mo_now m) (mo_later m) (mo_rows m) token (ax_keys w) = (Inr c, keys)"
  shows "token_proven opened signs sv m token w c"
  using assms(3)
proof (cases rule: verify_token_Inr)
  case (1 payload)
  then show ?thesis using verifyOnce_checked [OF assms(1,2)] by (simp add: token_proven_def)
next
  case (2 payload)
  then have "token_checked opened signs (sv_config sv) (mo_later m) token (rg_snapshot keys) c"
    using verifyOnce_checked [OF assms(1,2)] by simp
  with 2(1) refresh_awaited_snapshot [of "sv_gcm sv" "sv_keyJose sv" "sv_provider sv" "mo_now m" "mo_rows m" "ax_keys w"]
  show ?thesis by (auto simp: token_proven_def)
qed

lemma TenantAuthenticated_Inr:
  assumes "decrypt_sound opened (sv_jose sv)" and "verify_sound signs (sv_jose sv)"
    and "world_ok (ax_world w)" and "pools_ok w" and "permissions \<noteq> []"
    and "TenantAuthenticated sv m permissions req w = (Inr req', w')"
  shows "\<exists>header row token c.
    tenantHeader req = Some header \<and> row \<in> set (pw_tenants (ax_world w)) \<and> tr_status row = ts_active \<and>
    (if UUID header then tr_id row = toLowerCase header else tr_slug row = header) \<and>
    rq_tenant req' = Some (toTenant row) \<and> rq_tenantDb req' = Some (tr_databaseName row) \<and>
    marked_for (ax_world w') (tr_databaseName row) (tr_id row) \<and>
    bearerToken req = Some token \<and> token_proven opened signs sv m token w c \<and>
    rq_user req' = Some c \<and> cl_tid c = tr_id row \<and> set permissions \<subseteq> set (cl_permissions c)"
proof -
  obtain req1 w1 req2 w2 where g: "tenantGuard req w = (Inr req1, w1)" "accessTokenGuard sv m req1 w1 = (Inr req2, w2)"
      "permissionsGuard sv m (Some permissions) req2 w2 = (Inr req', w')"
    using assms(6) by (auto simp: TenantAuthenticated_def split: prod.splits sum.splits)
  have reg: "registry_ok (ax_world w)" using assms(3) by (simp add: world_ok_def)
  obtain header row where t: "tenantHeader req = Some header" "row \<in> set (pw_tenants (ax_world w))"
      "tr_status row = ts_active" "if UUID header then tr_id row = toLowerCase header else tr_slug row = header"
      "req1 = req\<lparr>rq_tenant := Some (toTenant row), rq_tenantDb := Some (tr_databaseName row)\<rparr>"
      "ax_world w1 = ax_world w" "ax_keys w1 = ax_keys w"
    by (rule tenantGuard_Inr [OF g(1) assms(4) reg])
  obtain tenant token c where a: "rq_tenant req1 = Some tenant" "bearerToken req1 = Some token"
      "verify_token (sv_gcm sv) (sv_keyJose sv) (sv_provider sv) (sv_jose sv) (sv_config sv)
         (mo_now m) (mo_later m) (mo_rows m) token (ax_keys w1) = (Inr c, ax_keys w2)"
      "cl_tid c = tn_id tenant" "req2 = req1\<lparr>rq_user := Some c\<rparr>" "ax_world w2 = ax_world w1" "ax_log w2 = ax_log w1"
    by (rule accessTokenGuard_Inr [OF g(2)])
  have "token_proven opened signs sv m token w c"
    using verify_token_proven [OF assms(1,2)] a(3) t(7) by simp
  moreover have "ax_world w' = ax_world w" using permissionsGuard_Inr [OF g(3)] a(6) t(6) by simp
  moreover from this have "marked_for (ax_world w') (tr_databaseName row) (tr_id row)"
    using reg t(2,3) by (simp add: registry_ok_def list_all_iff)
  ultimately show ?thesis
    using t a permissionsGuard_Inr [OF g(3)] assms(5) by (intro exI conjI) (auto simp: toTenant_def)
qed

text \<open>C8: A request that passes the guards of a tenant route comes from someone entitled to be there. The
  tenant header names, by id or slug, an active tenant, and the request is bound to that tenant's own
  built database; exactly one bearer token was presented, it was encrypted and signed with keys of the
  registry that were usable at that moment and has not expired, it was issued for this very tenant, and
  it carries every permission the route requires.\<close>

theorem TenantAuthenticated_sound:
  assumes "decrypt_sound opened (sv_jose sv)" and "verify_sound signs (sv_jose sv)"
    and "world_ok (ax_world w)" and "pools_ok w" and "permissions \<noteq> []"
    and "TenantAuthenticated sv m permissions req w = (Inr req', w')"
  shows "\<exists>header row token c.
    tenantHeader req = Some header \<and> row \<in> set (pw_tenants (ax_world w)) \<and> tr_status row = ts_active \<and>
    (if UUID header then tr_id row = toLowerCase header else tr_slug row = header) \<and>
    rq_tenant req' = Some (toTenant row) \<and> rq_tenantDb req' = Some (tr_databaseName row) \<and>
    marked_for (ax_world w') (tr_databaseName row) (tr_id row) \<and>
    bearerToken req = Some token \<and> token_proven opened signs sv m token w c \<and>
    rq_user req' = Some c \<and> cl_tid c = tr_id row \<and> set permissions \<subseteq> set (cl_permissions c)"
  by (rule TenantAuthenticated_Inr [OF assms])

section \<open>The control-plane credential\<close>

lemma dropWhile_shorter: "length (dropWhile P xs) < length xs \<longleftrightarrow> xs \<noteq> [] \<and> P (hd xs)"
proof (cases xs)
  case (Cons x rest)
  then show ?thesis using length_dropWhile_le [of P rest] by auto
qed simp

lemma bearer_iff:
  "bearer (Some h) = Some v \<longleftrightarrow>
     v \<noteq> [] \<and> list_all (\<lambda>c. \<not> is_space c) v \<and>
     (\<exists>scheme gap. trim h = scheme @ gap @ v \<and> toLowerCase scheme = ''bearer'' \<and> gap \<noteq> [] \<and> list_all is_space gap)"
  (is "?L \<longleftrightarrow> ?R")
proof
  assume L: ?L
  let ?rest = "drop 6 (trim h)"
  from L have v: "v = dropWhile is_space ?rest" "toLowerCase (take 6 (trim h)) = ''bearer''"
      "length v < length ?rest" "v \<noteq> []" "list_all (\<lambda>c. \<not> is_space c) v"
    by (auto simp: bearer_def Let_def split: if_splits)
  have "trim h = take 6 (trim h) @ takeWhile is_space ?rest @ v"
    using v(1) by simp
  moreover have "takeWhile is_space ?rest \<noteq> []"
    using v(1,3) dropWhile_shorter [of is_space ?rest] by (simp add: takeWhile_eq_Nil_iff del: length_drop)
  moreover have "list_all is_space (takeWhile is_space ?rest)"
    by (auto simp: list_all_iff dest: set_takeWhileD)
  ultimately show ?R using v by blast
next
  assume R: ?R
  then obtain scheme gap where s: "trim h = scheme @ gap @ v" "toLowerCase scheme = ''bearer''" "gap \<noteq> []" "list_all is_space gap"
    by blast
  have "length scheme = 6" using arg_cong [OF s(2), of length] by simp
  moreover have "dropWhile is_space (gap @ v) = v"
    using R s(4) by (cases v) (auto simp: dropWhile_append list_all_iff)
  moreover have "\<exists>x \<in> set gap \<union> set v. \<not> is_space x"
    using R by (cases v) auto
  ultimately show ?L using R s(2,3) by (simp add: bearer_def Let_def s(1))
qed

lemma matches_iff: "matches (utf8 k) presented \<longleftrightarrow> presented = k"
  by (auto simp: matches_def Let_def)

text \<open>How Node delivers the header lines of a request: the raw list has every line as it was sent, names and values in turn,
  and of several Authorization lines the parsed view keeps the first.\<close>

definition authorization_values :: "(string \<times> string) list \<Rightarrow> string list" where
  "authorization_values lines = map snd (filter (\<lambda>l. toLowerCase (fst l) = ''authorization'') lines)"

definition delivered :: "(string \<times> string) list \<Rightarrow> Request \<Rightarrow> bool" where
  "delivered lines req \<longleftrightarrow>
     rq_rawHeaders req = Some (concat (map (\<lambda>l. [fst l, snd l]) lines)) \<and>
     rq_headers req ''authorization'' =
       (case authorization_values lines of [] \<Rightarrow> None | h # _ \<Rightarrow> Some (HOne h))"

lemma authorization_lines_values:
  "authorization_lines (concat (map (\<lambda>l. [fst l, snd l]) lines)) = length (authorization_values lines)"
  by (induction lines) (simp_all add: authorization_values_def)

lemma singleAuthorizationHeader_lines:
  assumes "delivered lines req"
  shows "singleAuthorizationHeader req = Some h \<longleftrightarrow> authorization_values lines = [h]"
  using assms
  by (auto simp: singleAuthorizationHeader_def delivered_def authorization_lines_values split: list.splits)

text \<open>C29: The control plane opens for its key and for nothing else. Given the header lines a client sent, as Node delivers
  them, the guard passes exactly when one of them and no more is an Authorization line, its name in any case, and it reads
  bearer (in any case), white space, and the configured key, apart from white space around it; whatever else the request
  carries, missing, repeated (even with the right key twice), malformed and wrong credentials alike, gets the same refusal.\<close>

theorem controlPlaneGuard_exact:
  assumes "delivered lines req"
  shows "controlPlaneGuard config req =
     (if (\<exists>h scheme gap. authorization_values lines = [h] \<and> trim h = scheme @ gap @ cf_controlPlaneApiKey config \<and>
            toLowerCase scheme = ''bearer'' \<and> gap \<noteq> [] \<and> list_all is_space gap) \<and>
         cf_controlPlaneApiKey config \<noteq> [] \<and> list_all (\<lambda>c. \<not> is_space c) (cf_controlPlaneApiKey config)
      then Inr () else Inl ControlPlaneUnauthorizedError)"
proof -
  let ?k = "cf_controlPlaneApiKey config"
  have "controlPlaneGuard config req =
      (if bearer (singleAuthorizationHeader req) = Some ?k \<and> ?k \<noteq> [] then Inr () else Inl ControlPlaneUnauthorizedError)"
    by (auto simp: controlPlaneGuard_def Let_def matches_iff split: option.split)
  moreover have "bearer (singleAuthorizationHeader req) = Some ?k \<longleftrightarrow>
      (\<exists>h. authorization_values lines = [h] \<and> bearer (Some h) = Some ?k)"
    unfolding singleAuthorizationHeader_lines [OF assms, symmetric]
    by (cases "singleAuthorizationHeader req") (simp_all add: bearer_def)
  ultimately show ?thesis unfolding bearer_iff by auto
qed

section \<open>Denials\<close>

lemma set_tables_of [simp]:
  "tables_of w n \<noteq> None \<Longrightarrow> tables_of (set_tables n t w) n = Some t"
  by (auto simp: tables_of_def set_tables_def split: option.splits)

lemma marked_tables: "marked_for w n tid \<Longrightarrow> \<exists>td. tables_of w n = Some td"
  by (auto simp: marked_for_def tables_of_def split: option.splits)

lemma deniedEvent_wf:
  "wf_metadata (ap_metadata (deniedEvent req required missing reason actor))"
  "audit_events_actor_ck (audit_input (deniedEvent req required missing reason actor) now)"
  "audit_events_action_ck (audit_input (deniedEvent req required missing reason actor) now)"
  by (auto simp: deniedEvent_def wf_metadata_def audit_events_actor_ck_def audit_events_action_ck_def audit_input_def
      append_event_def)

lemma deniedEvent_request [simp]:
  "deniedEvent (req\<lparr>rq_tenant := t, rq_tenantDb := d, rq_user := u\<rparr>) = deniedEvent req"
proof -
  have "rq_context (req\<lparr>rq_tenant := t, rq_tenantDb := d, rq_user := u\<rparr>) = rq_context req" by simp
  then show ?thesis unfolding deniedEvent_def by presburger
qed

text \<open>What \<open>AuditService\<close> leaves behind: the event at the end of the chain, or a log line with it.\<close>

definition recorded_or_logged ::
    "AppendAuditEvent \<Rightarrow> string \<Rightarrow> string \<Rightarrow> AuditTable \<Rightarrow> AuditTable \<Rightarrow> audit_log_line list \<Rightarrow> audit_log_line list \<Rightarrow> bool" where
  "recorded_or_logged ev at slug t t' log log' \<longleftrightarrow>
     (\<exists>n h. tb_rows t' = tb_rows t @ [stored_row (audit_input ev at) n (head_hash (tb_rows t)) h] \<and> log' = log) \<or>
     (\<exists>e. tb_rows t' = tb_rows t \<and> log' = log @ [AppendFailed (''tenant '' @ slug) ev e])"

lemma request_event_recorded:
  assumes "context_db req = Inr n" "context_tenant req = Inr tenant" "tables_of (ax_world w) n = Some td"
  shows "\<exists>t. ax_world (request_event sv m req ev w) = set_tables n (td\<lparr>td_audit := t\<rparr>) (ax_world w) \<and>
    recorded_or_logged ev (mo_iso m) (tn_slug tenant) (td_audit td) t (ax_log w) (ax_log (request_event sv m req ev w))"
proof (cases "appendAuditEvent (sv_sha sv) (mo_iso m) ev (td_audit td)")
  case (Pair r t)
  show ?thesis
  proof (cases r)
    case (Inl e)
    with Pair assms appendAuditEvent_fails [of "sv_sha sv" "mo_iso m" ev "td_audit td" e t] show ?thesis
      by (auto simp: request_event_def tenantEvent_def audit_append_def recorded_or_logged_def)
  next
    case (Inr a)
    with Pair assms appendAuditEvent_appends(1,2) [of "sv_sha sv" "mo_iso m" ev "td_audit td" a t] show ?thesis
      by (auto simp: request_event_def tenantEvent_def audit_append_def recorded_or_logged_def)
  qed
qed

lemma tenantGuard_no_403 [simp]: "tenantGuard req w \<noteq> (Inl (ForbiddenException msg), w')"
  by (auto simp: tenantGuard_def ForbiddenException_def database_error_def split: option.split sum.split prod.split)

lemma accessTokenGuard_no_403 [simp]: "accessTokenGuard sv m req w \<noteq> (Inl (ForbiddenException msg), w')"
  by (auto simp: accessTokenGuard_def ForbiddenException_def split: option.split sum.split prod.split)

lemma permissionsGuard_403:
  assumes "permissionsGuard sv m (Some permissions) req w = (Inl (ForbiddenException msg), w')" "rq_user req = Some c"
  shows "\<exists>missing. missing = filter (\<lambda>p. p \<notin> set (cl_permissions c)) permissions \<and> missing \<noteq> [] \<and>
    w' = deny sv m req permissions missing ''missing_permission'' (Some (cl_sub c)) w"
  using assms by (auto simp: permissionsGuard_def Let_def split: if_splits)

text \<open>C30: A refused authorization leaves a trace and changes no database otherwise. When a tenant route answers 403, the tenant
  header names, by id or slug, an active tenant, the bearer token presented was proven with the registry's keys and issued for
  this very tenant, and its claims lack a permission the route requires. The event that names the token's subject, what the
  route requires and what is missing stands at the end of this tenant's own audit chain, or is in the log with the reason it
  could not be appended; nothing else changes in this tenant's database, and no other database changes.\<close>

theorem denials_are_recorded:
  assumes "decrypt_sound opened (sv_jose sv)" and "verify_sound signs (sv_jose sv)"
    and "world_ok (ax_world w)" and "pools_ok w"
    and "TenantAuthenticated sv m permissions req w = (Inl (ForbiddenException msg), w')"
  shows "\<exists>header row token c missing td t.
    tenantHeader req = Some header \<and> row \<in> set (pw_tenants (ax_world w)) \<and> tr_status row = ts_active \<and>
    (if UUID header then tr_id row = toLowerCase header else tr_slug row = header) \<and>
    bearerToken req = Some token \<and> token_proven opened signs sv m token w c \<and> cl_tid c = tr_id row \<and>
    missing = filter (\<lambda>p. p \<notin> set (cl_permissions c)) permissions \<and> missing \<noteq> [] \<and>
    tables_of (ax_world w) (tr_databaseName row) = Some td \<and>
    ax_world w' = set_tables (tr_databaseName row) (td\<lparr>td_audit := t\<rparr>) (ax_world w) \<and>
    recorded_or_logged (deniedEvent req permissions missing ''missing_permission'' (Some (cl_sub c))) (mo_iso m)
      (tr_slug row) (td_audit td) t (ax_log w) (ax_log w')"
proof -
  obtain req1 w1 req2 w2 where g: "tenantGuard req w = (Inr req1, w1)" "accessTokenGuard sv m req1 w1 = (Inr req2, w2)"
      "permissionsGuard sv m (Some permissions) req2 w2 = (Inl (ForbiddenException msg), w')"
    using assms(5) by (auto simp: TenantAuthenticated_def split: prod.splits sum.splits)
  have reg: "registry_ok (ax_world w)" using assms(3) by (simp add: world_ok_def)
  obtain header row where t: "tenantHeader req = Some header" "row \<in> set (pw_tenants (ax_world w))" "tr_status row = ts_active"
      "if UUID header then tr_id row = toLowerCase header else tr_slug row = header"
      "req1 = req\<lparr>rq_tenant := Some (toTenant row), rq_tenantDb := Some (tr_databaseName row)\<rparr>"
      "ax_world w1 = ax_world w" "ax_keys w1 = ax_keys w" "ax_log w1 = ax_log w"
    by (rule tenantGuard_Inr [OF g(1) assms(4) reg])
  obtain tenant token c where a: "rq_tenant req1 = Some tenant" "bearerToken req1 = Some token"
      "verify_token (sv_gcm sv) (sv_keyJose sv) (sv_provider sv) (sv_jose sv) (sv_config sv)
         (mo_now m) (mo_later m) (mo_rows m) token (ax_keys w1) = (Inr c, ax_keys w2)"
      "cl_tid c = tn_id tenant" "req2 = req1\<lparr>rq_user := Some c\<rparr>" "ax_world w2 = ax_world w1" "ax_log w2 = ax_log w1"
    by (rule accessTokenGuard_Inr [OF g(2)])
  have proven: "token_proven opened signs sv m token w c" "bearerToken req = Some token"
    using verify_token_proven [OF assms(1,2)] a(2,3) t(5,7) by simp_all
  have w2: "ax_world w2 = ax_world w" "ax_log w2 = ax_log w" using a(6,7) t(6,8) by simp_all
  have user: "rq_user req2 = Some c" using a(5) by simp
  obtain missing where m: "missing = filter (\<lambda>p. p \<notin> set (cl_permissions c)) permissions" "missing \<noteq> []"
      "w' = deny sv m req2 permissions missing ''missing_permission'' (Some (cl_sub c)) w2"
    using permissionsGuard_403 [OF g(3) user] by blast
  obtain td where td: "tables_of (ax_world w) (tr_databaseName row) = Some td"
    using reg t(2,3) marked_tables [of "ax_world w" "tr_databaseName row" "tr_id row"]
    by (auto simp: registry_ok_def list_all_iff)
  have ctx: "context_db req2 = Inr (tr_databaseName row)" "context_tenant req2 = Inr (toTenant row)"
    using a(5) t(5) by (simp_all add: context_db_def context_tenant_def)
  let ?ev = "deniedEvent req permissions missing ''missing_permission'' (Some (cl_sub c))"
  have w': "w' = request_event sv m req2 ?ev w2" using m(3) a(5) t(5) by (simp add: deny_def)
  obtain tb where "ax_world w' = set_tables (tr_databaseName row) (td\<lparr>td_audit := tb\<rparr>) (ax_world w2)"
      "recorded_or_logged ?ev (mo_iso m) (tr_slug row) (td_audit td) tb (ax_log w2) (ax_log w')"
    using request_event_recorded [OF ctx, of w2 td sv m ?ev] td w2(1) unfolding w' by (auto simp: toTenant_def)
  moreover have "cl_tid c = tr_id row" using a(1,4) t(5) by (auto simp: toTenant_def)
  ultimately show ?thesis
    using w2 t(1-4) proven m(1,2) td
    by (intro exI [of _ header] exI [of _ row] exI [of _ token] exI [of _ c] exI [of _ missing] exI [of _ td] exI [of _ tb]) simp
qed

section \<open>Concrete requests\<close>

definition demo_service :: "(bytes, JWK) Service" where
  "demo_service =
     \<lparr>sv_sha = demo_sha, sv_gcm = demo_gcm, sv_keyJose = demo_jose, sv_provider = demo_provider,
      sv_jose = demo_tokens, sv_config = demo_config\<rparr>"

definition demo_moment :: Moment where
  "demo_moment = \<lparr>mo_iso = ''2026-01-01T00:00:00.000Z'', mo_now = 3000, mo_later = 3000, mo_rows = None\<rparr>"

definition demo_access :: "(bytes, JWK) AccessWorld" where
  "demo_access =
     \<lparr>ax_world = \<lparr>pw_tenants = [tenant_row ''t1'' ''acme'' ''Acme'' ''tenant_acme'' ts_active],
                  pw_cluster = [''tenant_acme'' \<mapsto> built ''r1'' ''t1''], pw_locks = []\<rparr>,
      ax_masterUp = True, ax_pools = Map.empty, ax_keys = demo_keys demo_rows, ax_log = []\<rparr>"

definition demo_req :: Request where
  "demo_req =
     \<lparr>rq_headers = [''x-tenant-id'' \<mapsto> HOne ''acme'', ''authorization'' \<mapsto> HOne ''Bearer h.k.i.c.t''],
      rq_rawHeaders = Some [''x-tenant-id'', ''acme'', ''Authorization'', ''Bearer h.k.i.c.t''],
      rq_context = demo_request, rq_tenant = None, rq_tenantDb = None, rq_user = None\<rparr>"

lemma demo_service_simps [simp]:
  "sv_sha demo_service = demo_sha" "sv_gcm demo_service = demo_gcm" "sv_keyJose demo_service = demo_jose"
  "sv_provider demo_service = demo_provider" "sv_jose demo_service = demo_tokens" "sv_config demo_service = demo_config"
  "mo_iso demo_moment = ''2026-01-01T00:00:00.000Z''" "mo_now demo_moment = 3000" "mo_later demo_moment = 3000"
  "mo_rows demo_moment = None"
  "ax_keys demo_access = demo_keys demo_rows" "ax_log demo_access = []" "ax_masterUp demo_access" "ax_pools demo_access = Map.empty"
  "pw_tenants (ax_world demo_access) = [tenant_row ''t1'' ''acme'' ''Acme'' ''tenant_acme'' ts_active]"
  by (simp_all add: demo_service_def demo_moment_def demo_access_def)

lemma demo_access_ok: "world_ok (ax_world demo_access)" "pools_ok demo_access"
  by (simp_all add: demo_access_def world_defs pools_ok_def)

lemma demo_verify:
  "verify_token demo_gcm demo_jose demo_provider demo_tokens demo_config 3000 3000 None ''h.k.i.c.t'' (demo_keys demo_rows) =
     (Inr demo_claims, demo_keys demo_rows)"
proof -
  have snap: "rg_snapshot (demo_keys demo_rows) = load_snapshot demo_gcm demo_jose demo_provider demo_rows"
    by (simp add: demo_keys_def)
  show ?thesis
    by (rule issued_token_verifies [OF demo_rows_ok demo_active_unlimited demo_decrypt_complete demo_verify_complete
        demo_import_pairs snap refl demo_issue_token]) (simp add: demo_config_def)
qed

lemma demo_headers: "tenantHeader demo_req = Some ''acme''" "bearerToken demo_req = Some ''h.k.i.c.t''" "\<not> UUID ''acme''"
  by code_simp+

lemma demo_tenantGuard:
  "tenantGuard demo_req demo_access =
     (Inr (demo_req\<lparr>rq_tenant := Some \<lparr>tn_id = ''t1'', tn_slug = ''acme'', tn_databaseName = ''tenant_acme'', tn_status = ts_active\<rparr>,
                     rq_tenantDb := Some ''tenant_acme''\<rparr>),
      demo_access\<lparr>ax_pools := [''t1'' \<mapsto> ''tenant_acme'']\<rparr>)"
  by (simp add: tenantGuard_def demo_headers resolveTenant_def getTenantDb_def toTenant_def)

lemma demo_chain:
  "TenantAuthenticated demo_service demo_moment permissions demo_req demo_access =
     permissionsGuard demo_service demo_moment (Some permissions)
       (demo_req\<lparr>rq_tenant := Some \<lparr>tn_id = ''t1'', tn_slug = ''acme'', tn_databaseName = ''tenant_acme'', tn_status = ts_active\<rparr>,
                 rq_tenantDb := Some ''tenant_acme'', rq_user := Some demo_claims\<rparr>)
       (demo_access\<lparr>ax_pools := [''t1'' \<mapsto> ''tenant_acme''], ax_keys := demo_keys demo_rows\<rparr>)"
  by (simp add: TenantAuthenticated_def demo_tenantGuard accessTokenGuard_def demo_headers demo_verify)
    (simp add: demo_claims_def)

theorem TenantAuthenticated_sound_witness:
  "\<exists>req' w'. TenantAuthenticated demo_service demo_moment [usersRead] demo_req demo_access = (Inr req', w') \<and>
     rq_tenantDb req' = Some ''tenant_acme'' \<and> marked_for (ax_world w') ''tenant_acme'' ''t1''"
proof -
  let ?run = "TenantAuthenticated demo_service demo_moment [usersRead] demo_req demo_access"
  have run: "?run = (Inr (the (case fst ?run of Inr r \<Rightarrow> Some r | Inl _ \<Rightarrow> None)), snd ?run)"
    by (simp add: demo_chain permissionsGuard_def Let_def demo_claims_def)
  have sound: "decrypt_sound demo_opened (sv_jose demo_service)" "verify_sound demo_signs (sv_jose demo_service)"
    by (simp_all add: demo_decrypt_sound demo_verify_sound)
  from TenantAuthenticated_sound [OF sound demo_access_ok _ run] run show ?thesis by fastforce
qed

theorem denials_are_recorded_witness:
  "\<exists>td t. ax_world (snd (TenantAuthenticated demo_service demo_moment [rolesManage] demo_req demo_access)) =
       set_tables ''tenant_acme'' (td\<lparr>td_audit := t\<rparr>) (ax_world demo_access) \<and>
     (\<exists>c. token_proven demo_opened demo_signs demo_service demo_moment ''h.k.i.c.t'' demo_access c \<and> cl_tid c = ''t1'')"
proof -
  let ?run = "TenantAuthenticated demo_service demo_moment [rolesManage] demo_req demo_access"
  have run: "?run = (Inl (ForbiddenException ''Missing required permission''), snd ?run)"
    by (simp add: demo_chain permissionsGuard_def Let_def demo_claims_def rolesManage_def usersRead_def)
  have sound: "decrypt_sound demo_opened (sv_jose demo_service)" "verify_sound demo_signs (sv_jose demo_service)"
    by (simp_all add: demo_decrypt_sound demo_verify_sound)
  from denials_are_recorded [OF sound demo_access_ok run] show ?thesis by (auto simp: demo_headers)
qed

definition demo_twice :: Request where
  "demo_twice =
     demo_req\<lparr>rq_headers := [''authorization'' \<mapsto> HOne ''bearer k3y''],
       rq_rawHeaders := Some [''Authorization'', ''bearer k3y'', ''AUTHORIZATION'', ''bearer k3y'']\<rparr>"

theorem controlPlaneGuard_exact_witness:
  "controlPlaneGuard (demo_config\<lparr>cf_controlPlaneApiKey := ''k3y''\<rparr>)
     (demo_twice\<lparr>rq_rawHeaders := Some [''Authorization'', ''bearer k3y'']\<rparr>) = Inr () \<and>
   controlPlaneGuard (demo_config\<lparr>cf_controlPlaneApiKey := ''k3y''\<rparr>) demo_twice = Inl ControlPlaneUnauthorizedError"
proof -
  let ?line = "(''Authorization'', ''bearer k3y'')" and ?again = "(''AUTHORIZATION'', ''bearer k3y'')"
  have lower: "toLowerCase ''Authorization'' = ''authorization''" "toLowerCase ''AUTHORIZATION'' = ''authorization''"
    "toLowerCase ''bearer'' = ''bearer''" "trim ''bearer k3y'' = ''bearer k3y''" "is_space (CHR '' '')"
    "list_all (\<lambda>c. \<not> is_space c) ''k3y''"
    by code_simp+
  have one: "delivered [?line] (demo_twice\<lparr>rq_rawHeaders := Some [''Authorization'', ''bearer k3y'']\<rparr>)"
    and two: "delivered [?line, ?again] demo_twice"
    by (simp_all add: delivered_def authorization_values_def demo_twice_def lower)
  have "\<exists>scheme gap. trim ''bearer k3y'' = scheme @ gap @ ''k3y'' \<and> toLowerCase scheme = ''bearer'' \<and> gap \<noteq> [] \<and> list_all is_space gap"
    using lower by (intro exI [of _ "''bearer''"] exI [of _ "'' ''"]) simp
  then show ?thesis
    using controlPlaneGuard_exact [OF one, of "demo_config\<lparr>cf_controlPlaneApiKey := ''k3y''\<rparr>"]
      controlPlaneGuard_exact [OF two, of "demo_config\<lparr>cf_controlPlaneApiKey := ''k3y''\<rparr>"] lower
    by (simp add: authorization_values_def)
qed

end
