(* ===== verification/Http.thy ===== *)
theory Http
  imports Access
begin

text \<open>
  What goes over the wire: the problem-details filter, the success envelope, the validation errors and
  the default headers (\<open>services/auth/src/common\<close>), and the routes of the service as the framework
  runs them, guards first, then validation, the handler, the envelope or the filter, and the hook that
  adds the default headers.
\<close>

section \<open>Problem details\<close>

text \<open>The table is searched in order with \<open>instanceof\<close>; the throttle's unavailable error is a subclass of
  \<open>TooManyRequestsError\<close>.\<close>

fun is_TooManyRequests :: "DomainError \<Rightarrow> bool" where
  "is_TooManyRequests (TooManyRequestsError _) = True"
| "is_TooManyRequests LoginThrottleUnavailableError = True"
| "is_TooManyRequests _ = False"

definition STATUS_BY_ERROR :: "((DomainError \<Rightarrow> bool) \<times> nat) list" where
  "STATUS_BY_ERROR =
     [(\<lambda>e. e = InvalidCredentialsError, 401), (\<lambda>e. e = InvalidAccessTokenError, 401),
      (\<lambda>e. e = CrossTenantTokenError, 401), (\<lambda>e. e = ControlPlaneUnauthorizedError, 401),
      (\<lambda>e. case e of TenantNotFoundError _ \<Rightarrow> True | _ \<Rightarrow> False, 404),
      (\<lambda>e. case e of TenantAlreadyExistsError _ \<Rightarrow> True | _ \<Rightarrow> False, 409),
      (\<lambda>e. case e of TenantProvisioningInProgressError _ \<Rightarrow> True | _ \<Rightarrow> False, 409),
      (\<lambda>e. e = EmailAlreadyRegisteredError, 409),
      (\<lambda>e. case e of ValidationFailedError _ \<Rightarrow> True | _ \<Rightarrow> False, 422),
      (\<lambda>e. e = TenantContextMissingError, 400), (is_TooManyRequests, 429)]"

definition domain_status :: "DomainError \<Rightarrow> nat" where
  "domain_status e = (case find (\<lambda>(is, _). is e) STATUS_BY_ERROR of Some (_, status) \<Rightarrow> status | None \<Rightarrow> 400)"

definition CODE_BY_STATUS :: "(nat \<times> string) list" where
  "CODE_BY_STATUS =
     [(400, ''MALFORMED_REQUEST''), (403, ''FORBIDDEN''), (404, ''ROUTE_NOT_FOUND''), (405, ''METHOD_NOT_ALLOWED''),
      (406, ''NOT_ACCEPTABLE''), (413, ''PAYLOAD_TOO_LARGE''), (415, ''UNSUPPORTED_MEDIA_TYPE''),
      (429, ''TOO_MANY_REQUESTS'')]"

definition TITLE_BY_STATUS :: "(nat \<times> string) list" where
  "TITLE_BY_STATUS =
     [(400, ''Malformed request''), (403, ''Insufficient permissions''), (404, ''Resource not found''),
      (405, ''Method not allowed''), (406, ''Not acceptable''), (413, ''Request body too large''),
      (415, ''Unsupported media type''), (429, ''Too many requests'')]"

definition typeUri :: "AppConfig \<Rightarrow> string \<Rightarrow> string" where
  "typeUri config code =
     cf_problemTypeBaseUri config @ ''#'' @ map (\<lambda>c. if c = CHR ''_'' then CHR ''-'' else c) (toLowerCase code)"

fun httpDetail :: "http_body \<Rightarrow> string \<Rightarrow> string" where
  "httpDetail (BodyString s) path = s"
| "httpDetail (BodyMessage s) path = s"
| "httpDetail (BodyMessages ms) path = join ''; '' (map the (filter (\<lambda>m. m \<noteq> None) ms))"
| "httpDetail BodyOther path = ''Request to '' @ path @ '' could not be completed.''"

definition toProblem :: "AppConfig \<Rightarrow> app_error \<Rightarrow> string \<Rightarrow> string \<Rightarrow> ProblemDetails" where
  "toProblem config exc traceId path =
     (case exc of
        Domain e \<Rightarrow>
          \<lparr>pd_success = False, pd_type = typeUri config (de_code e), pd_title = de_title e,
           pd_status = domain_status e, pd_detail = de_message e, pd_instance = ''urn:uuid:'' @ traceId,
           pd_code = de_code e, pd_traceId = traceId,
           pd_errors = (case e of ValidationFailedError errors \<Rightarrow> Some errors | _ \<Rightarrow> None)\<rparr>
      | HttpException status body \<Rightarrow>
          let code = (case map_of CODE_BY_STATUS status of Some c \<Rightarrow> c | None \<Rightarrow> ''HTTP_'' @ show_nat status) in
          \<lparr>pd_success = False, pd_type = typeUri config code,
           pd_title = (case map_of TITLE_BY_STATUS status of Some t \<Rightarrow> t | None \<Rightarrow> ''HTTP '' @ show_nat status),
           pd_status = status, pd_detail = httpDetail body path, pd_instance = ''urn:uuid:'' @ traceId,
           pd_code = code, pd_traceId = traceId, pd_errors = None\<rparr>
      | OtherError _ \<Rightarrow>
          \<lparr>pd_success = False, pd_type = typeUri config ''INTERNAL_ERROR'', pd_title = ''Internal server error'',
           pd_status = 500,
           pd_detail = ''An unexpected error occurred. Quote traceId '' @ traceId @ '' when reporting it.'',
           pd_instance = ''urn:uuid:'' @ traceId, pd_code = ''INTERNAL_ERROR'', pd_traceId = traceId, pd_errors = None\<rparr>)"

datatype body = Problem ProblemDetails | Envelope SuccessEnvelope | RawBody "json option"

record Response =
  hr_status :: nat
  hr_headers :: headers
  hr_body :: body

text \<open>A line of the error log; \<open>describe\<close> renders the exception it holds.\<close>

datatype error_line = RequestFailed string string string app_error

definition problem_headers :: "app_error \<Rightarrow> headers \<Rightarrow> headers" where
  "problem_headers exc h =
     (let h' = (case exc of
                  Domain e \<Rightarrow>
                    (case retryAfterSeconds e of
                       Some s \<Rightarrow> h(''retry-after'' \<mapsto> show_int s, ''cache-control'' \<mapsto> ''no-store'')
                     | None \<Rightarrow> h)
                | _ \<Rightarrow> h)
      in h'(''content-type'' \<mapsto> ''application/problem+json; charset=utf-8''))"

definition catch_exception ::
    "AppConfig \<Rightarrow> string \<Rightarrow> RequestContext \<Rightarrow> app_error \<Rightarrow> headers \<Rightarrow> Response \<times> error_line list" where
  "catch_exception config traceId req exc h =
     (let problem = toProblem config exc traceId (rc_url req) in
      (\<lparr>hr_status = pd_status problem, hr_headers = problem_headers exc h, hr_body = Problem problem\<rparr>,
       if 500 \<le> pd_status problem then [RequestFailed (rc_method req) (rc_url req) traceId exc] else []))"

section \<open>The success envelope\<close>

definition defaultMeta :: "json option \<Rightarrow> ResponseMeta" where
  "defaultMeta payload =
     (case payload of Some (JArr xs) \<Rightarrow> [(''totalCount'', JNum (int (length xs)))] | _ \<Rightarrow> [])"

definition intercept :: "bool \<Rightarrow> payload \<Rightarrow> body" where
  "intercept raw payload =
     (if raw then RawBody (case payload of Bare v \<Rightarrow> v | DataWithMeta d m \<Rightarrow> Some (JObj [(''data'', d), (''meta'', JObj m)]))
      else
        (case payload of
           DataWithMeta d m \<Rightarrow> Envelope \<lparr>en_success = True, en_data = d, en_meta = m\<rparr>
         | Bare v \<Rightarrow>
             Envelope \<lparr>en_success = True, en_data = (case v of None \<Rightarrow> JNull | Some d \<Rightarrow> d), en_meta = defaultMeta v\<rparr>))"

section \<open>Validation errors\<close>

datatype ValidationError =
  ValidationError (ve_property: string) (ve_constraints: "string list") (ve_children: "ValidationError list")

definition escape_segment :: "string \<Rightarrow> string" where
  "escape_segment s =
     concat (map (\<lambda>c. if c = CHR ''/'' then ''~1'' else [c])
       (concat (map (\<lambda>c. if c = CHR ''~'' then ''~0'' else [c]) s)))"

definition pointerFor :: "string list \<Rightarrow> string" where
  "pointerFor segments = ''#/'' @ join ''/'' (map escape_segment segments)"

fun flatten_error :: "string list \<Rightarrow> ValidationError \<Rightarrow> FieldProblem list" where
  "flatten_error path (ValidationError property constraints children) =
     map (\<lambda>detail. \<lparr>fp_detail = detail, fp_pointer = pointerFor (path @ [property])\<rparr>) constraints @
     concat (map (flatten_error (path @ [property])) children)"

definition flatten :: "ValidationError list \<Rightarrow> string list \<Rightarrow> FieldProblem list" where
  "flatten errors path = concat (map (flatten_error path) errors)"

definition validationExceptionFactory :: "ValidationError list \<Rightarrow> DomainError" where
  "validationExceptionFactory errors = ValidationFailedError (flatten errors [])"

section \<open>Default headers\<close>

definition default_header :: "string \<Rightarrow> string \<Rightarrow> headers \<Rightarrow> headers" where
  "default_header name v h = (if h name = None then h(name \<mapsto> v) else h)"

definition registerDefaultResponseHeaders :: "headers \<Rightarrow> headers" where
  "registerDefaultResponseHeaders h =
     default_header ''x-content-type-options'' ''nosniff'' (default_header ''cache-control'' ''no-store'' h)"

section \<open>Problem responses\<close>

lemma domain_status_cases:
  "domain_status e = (case e of
     InvalidCredentialsError \<Rightarrow> 401 | InvalidAccessTokenError \<Rightarrow> 401 | CrossTenantTokenError \<Rightarrow> 401
   | ControlPlaneUnauthorizedError \<Rightarrow> 401 | TenantNotFoundError _ \<Rightarrow> 404 | TenantAlreadyExistsError _ \<Rightarrow> 409
   | TenantProvisioningInProgressError _ \<Rightarrow> 409 | EmailAlreadyRegisteredError \<Rightarrow> 409 | ValidationFailedError _ \<Rightarrow> 422
   | TenantContextMissingError \<Rightarrow> 400 | TooManyRequestsError _ \<Rightarrow> 429 | LoginThrottleUnavailableError \<Rightarrow> 429)"
  by (cases e) (simp_all add: domain_status_def STATUS_BY_ERROR_def)

lemma retryAfterSeconds_iff: "retryAfterSeconds e \<noteq> None \<longleftrightarrow> domain_status e = 429"
  by (cases e) (simp_all add: domain_status_cases)

lemma retryAfterSeconds_pos: "retryAfterSeconds e = Some s \<Longrightarrow> 1 \<le> s"
  by (cases e) (auto simp: ceil_seconds_pos)

text \<open>C35: Every error becomes one problem document whose status is the status of the response. A domain
  error is a client error with its own code and nothing in the error log; a 429 says how long to wait,
  at least a second, and is not to be cached; an unexpected error is a 500 that is the same whatever its
  message was, and the log alone has the exception.\<close>

theorem problem_responses:
  "\<exists>r log p. catch_exception config traceId req exc h = (r, log) \<and> hr_body r = Problem p \<and>
     hr_status r = pd_status p \<and> \<not> pd_success p \<and> pd_traceId p = traceId \<and>
     hr_headers r ''content-type'' = Some ''application/problem+json; charset=utf-8'' \<and>
     (case exc of
        Domain e \<Rightarrow>
          hr_status r \<in> {400, 401, 404, 409, 422, 429} \<and> pd_code p = de_code e \<and> log = [] \<and>
          (if hr_status r = 429
           then \<exists>s \<ge> 1. hr_headers r ''retry-after'' = Some (show_int s) \<and> hr_headers r ''cache-control'' = Some ''no-store''
           else hr_headers r ''retry-after'' = h ''retry-after'')
      | HttpException status _ \<Rightarrow> hr_status r = status
      | OtherError _ \<Rightarrow>
          hr_status r = 500 \<and> (\<forall>other. r = fst (catch_exception config traceId req (OtherError other) h)) \<and>
          log = [RequestFailed (rc_method req) (rc_url req) traceId exc])"
proof (cases exc)
  case (Domain e)
  show ?thesis
  proof (cases "retryAfterSeconds e")
    case None
    then have "domain_status e \<noteq> 429" using retryAfterSeconds_iff [of e] by simp
    with Domain None show ?thesis
      by (cases e) (auto simp: catch_exception_def toProblem_def problem_headers_def Let_def domain_status_cases)
  next
    case (Some s)
    then have "domain_status e = 429" using retryAfterSeconds_iff [of e] by simp
    with Domain Some retryAfterSeconds_pos [OF Some] show ?thesis
      by (auto simp: catch_exception_def toProblem_def problem_headers_def Let_def intro!: exI [of _ s])
  qed
qed (auto simp: catch_exception_def toProblem_def problem_headers_def Let_def)

section \<open>Pointers\<close>

text \<open>RFC 6901, section 4: \<open>~1\<close> is read as \<open>/\<close> and then \<open>~0\<close> as \<open>~\<close>.\<close>

fun unescape_segment :: "string \<Rightarrow> string" where
  "unescape_segment [] = []"
| "unescape_segment (c # s) =
     (if c = CHR ''~'' then
        (case s of
           d # s' \<Rightarrow> (if d = CHR ''1'' then CHR ''/'' else CHR ''~'') # unescape_segment s'
         | [] \<Rightarrow> [c])
      else c # unescape_segment s)"

definition pointer_path :: "string \<Rightarrow> string list" where
  "pointer_path pointer = map unescape_segment (split_on (CHR ''/'') (drop 2 pointer))"

text \<open>Every failed constraint of the tree with the property names that lead to it.\<close>

fun locations :: "string list \<Rightarrow> ValidationError \<Rightarrow> (string list \<times> string) list" where
  "locations path (ValidationError property constraints children) =
     map (Pair (path @ [property])) constraints @ concat (map (locations (path @ [property])) children)"

lemma escape_segment_simps [simp]:
  "escape_segment [] = []"
  "escape_segment (c # s) =
     (if c = CHR ''~'' then ''~0'' else if c = CHR ''/'' then ''~1'' else [c]) @ escape_segment s"
  by (simp_all add: escape_segment_def)

lemma unescape_escape [simp]: "unescape_segment (escape_segment s) = s"
  by (induction s) auto

lemma no_slash_escape: "CHR ''/'' \<notin> set (escape_segment s)"
  by (induction s) auto

lemma pointer_path_pointerFor:
  assumes "segments \<noteq> []"
  shows "pointer_path (pointerFor segments) = segments"
proof -
  have "split_on (CHR ''/'') (join [CHR ''/''] (map escape_segment segments)) = map escape_segment segments"
    using assms no_slash_escape by (intro split_on_join) auto
  then show ?thesis by (simp add: pointer_path_def pointerFor_def o_def)
qed

lemma flatten_error_locations:
  "map (\<lambda>p. (pointer_path (fp_pointer p), fp_detail p)) (flatten_error path e) = locations path e"
proof (induction path e rule: flatten_error.induct)
  case (1 path property constraints children)
  then show ?case
    by (auto simp: pointer_path_pointerFor map_concat o_def intro!: arg_cong [of _ _ concat])
qed

text \<open>C36: A validation response names every failed constraint at the field it belongs to: reading the
  JSON pointers of the problem list back, by RFC 6901, gives exactly the property paths of the failed
  constraints, in order, also for names that contain a slash or a tilde.\<close>

theorem pointers_name_fields:
  "\<exists>problems. validationExceptionFactory errors = ValidationFailedError problems \<and>
     map (\<lambda>p. (pointer_path (fp_pointer p), fp_detail p)) problems = concat (map (locations []) errors)"
proof -
  have "map (\<lambda>p. (pointer_path (fp_pointer p), fp_detail p)) (flatten errors []) = concat (map (locations []) errors)"
    by (simp add: flatten_def map_concat o_def flatten_error_locations)
  then show ?thesis by (simp add: validationExceptionFactory_def)
qed

end
