(* ===== verification/Routes.thy ===== *)
theory Routes
  imports Http
begin

text \<open>
  The controllers of \<open>services/auth/src\<close> as the framework runs them: the global rate-limit guard, the
  guards of the route, the validation of the body, the handler, and then the envelope or the problem
  filter and the default headers. The outcome of class-validator on the body is an argument.
\<close>

section \<open>The whole service\<close>

record ('priv, 'pub) System =
  sy_store :: store_state
  sy_access :: "('priv, 'pub) AccessWorld"
  sy_decoy :: "string option"
  sy_verifications :: nat
  sy_chain :: AuditTable

type_synonym ('priv, 'pub) answer = "Response \<times> ('priv, 'pub) System \<times> error_line list"

definition respond ::
    "AppConfig \<Rightarrow> string \<Rightarrow> RequestContext \<Rightarrow> nat \<Rightarrow> bool \<Rightarrow> headers \<Rightarrow> app_error + payload \<Rightarrow> Response \<times> error_line list" where
  "respond config traceId ctx status raw h result =
     (case result of
        Inl exc \<Rightarrow>
          (case catch_exception config traceId ctx exc h of
             (r, log) \<Rightarrow> (r\<lparr>hr_headers := registerDefaultResponseHeaders (hr_headers r)\<rparr>, log))
      | Inr p \<Rightarrow>
          (\<lparr>hr_status = status, hr_headers = registerDefaultResponseHeaders h, hr_body = intercept raw p\<rparr>, []))"

text \<open>A route: its rate-limit metadata, the status and kind of its success, and the rest of its work.\<close>

definition route ::
    "('priv, 'pub) Service \<Rightarrow> string \<Rightarrow> RateLimitOptions option \<Rightarrow> bool \<Rightarrow> nat \<Rightarrow> bool \<Rightarrow>
     (Request \<Rightarrow> ('priv, 'pub) System \<Rightarrow> (app_error + payload) \<times> ('priv, 'pub) System) \<Rightarrow>
     Request \<Rightarrow> ('priv, 'pub) System \<Rightarrow> ('priv, 'pub) answer" where
  "route sv traceId limit exempt status raw work req s =
     (let ctx = (rq_context req)\<lparr>rc_isHttp := True, rc_noRateLimit := exempt, rc_rateLimit := limit\<rparr> in
      case rateLimitGuard (sv_config sv) ctx (sy_store s) (\<lambda>_. None) of
        (Inl e, st, h) \<Rightarrow>
          (case respond (sv_config sv) traceId ctx status raw h (Inl (Domain e)) of
             (r, log) \<Rightarrow> (r, s\<lparr>sy_store := st\<rparr>, log))
      | (Inr _, st, h) \<Rightarrow>
          (case work (req\<lparr>rq_context := ctx\<rparr>) (s\<lparr>sy_store := st\<rparr>) of
             (result, s') \<Rightarrow>
               (case respond (sv_config sv) traceId ctx status raw h result of (r, log) \<Rightarrow> (r, s', log))))"

section \<open>Users, keys and health\<close>

definition users_work ::
    "('priv, 'pub) Service \<Rightarrow> Moment \<Rightarrow> Request \<Rightarrow> ('priv, 'pub) System \<Rightarrow> (app_error + payload) \<times> ('priv, 'pub) System" where
  "users_work sv m req s =
     (case TenantAuthenticated sv m [usersRead] req (sy_access s) of
        (Inl e, w) \<Rightarrow> (Inl e, s\<lparr>sy_access := w\<rparr>)
      | (Inr req', w) \<Rightarrow>
          (case users_list req' w of
             Inl e \<Rightarrow> (Inl e, s\<lparr>sy_access := w\<rparr>)
           | Inr users \<Rightarrow> (Inr (Bare (Some users)), s\<lparr>sy_access := w\<rparr>)))"

definition get_users ::
    "('priv, 'pub) Service \<Rightarrow> Moment \<Rightarrow> string \<Rightarrow> Request \<Rightarrow> ('priv, 'pub) System \<Rightarrow> ('priv, 'pub) answer" where
  "get_users sv m traceId = route sv traceId None False 200 False (users_work sv m)"

text \<open>The key set is served bare, with its own cache lifetime; the header decorators run with the
  handler.\<close>

definition get_jwks ::
    "('priv, 'pub) Service \<Rightarrow> Moment \<Rightarrow> string \<Rightarrow> Request \<Rightarrow> ('priv, 'pub) System \<Rightarrow> ('priv, 'pub) answer" where
  "get_jwks sv m traceId req s =
     (case route sv traceId None False 200 True
             (\<lambda>_ s. (Inr (Bare (Some (JObj [(''keys'', JArr (map JObj (jwks (rg_snapshot (ax_keys (sy_access s))) (mo_now m))))]))), s))
             req s of
        (r, s', log) \<Rightarrow>
          (if hr_status r = 200
           then r\<lparr>hr_headers := (hr_headers r)(''cache-control'' \<mapsto> ''public, max-age=300, must-revalidate'',
                    ''content-type'' \<mapsto> ''application/jwk-set+json; charset=utf-8'')\<rparr>
           else r, s', log))"

definition health_json :: "string \<Rightarrow> string \<Rightarrow> string \<Rightarrow> int \<Rightarrow> int \<Rightarrow> json" where
  "health_json name version startedAt startedMs now =
     JObj [(''status'', JStr ''ok''), (''service'', JStr name), (''version'', JStr version), (''startedAt'', JStr startedAt),
           (''uptimeSeconds'', JNum ((now - startedMs) div 1000))]"

definition get_health ::
    "('priv, 'pub) Service \<Rightarrow> Moment \<Rightarrow> string \<Rightarrow> json \<Rightarrow> Request \<Rightarrow> ('priv, 'pub) System \<Rightarrow> ('priv, 'pub) answer" where
  "get_health sv m traceId report = route sv traceId None True 200 False (\<lambda>_ s. (Inr (Bare (Some report)), s))"

section \<open>Registration and login\<close>

text \<open>The authentication service works on the tables behind the request's pool.\<close>

definition unreachable_tables :: TenantData where
  "unreachable_tables =
     \<lparr>td_users = [], td_roles = [], td_userRoles = [], td_rolePermissions = [],
      td_audit = empty_audit_table\<lparr>tb_reachable := False\<rparr>\<rparr>"

definition auth_world :: "string option \<Rightarrow> ('priv, 'pub) System \<Rightarrow> AuthWorld" where
  "auth_world db s =
     \<lparr>aw_store = sy_store s,
      aw_db = (case Option.bind db (tables_of (ax_world (sy_access s))) of None \<Rightarrow> unreachable_tables | Some td \<Rightarrow> td),
      aw_decoy = sy_decoy s, aw_verifications = sy_verifications s, aw_log = ax_log (sy_access s)\<rparr>"

definition auth_done :: "string option \<Rightarrow> AuthWorld \<Rightarrow> ('priv, 'pub) System \<Rightarrow> ('priv, 'pub) System" where
  "auth_done db aw s =
     s\<lparr>sy_store := aw_store aw, sy_decoy := aw_decoy aw, sy_verifications := aw_verifications aw,
       sy_access := (sy_access s)
         \<lparr>ax_world := (case db of
                        Some n \<Rightarrow>
                          if tables_of (ax_world (sy_access s)) n = None then ax_world (sy_access s)
                          else set_tables n (aw_db aw) (ax_world (sy_access s))
                      | None \<Rightarrow> ax_world (sy_access s)),
          ax_log := aw_log aw\<rparr>\<rparr>"

definition issue_with :: "('priv, 'pub) Service \<Rightarrow> Moment \<Rightarrow> ('priv, 'pub) KeyRegistryService \<Rightarrow> AccessTokenClaims \<Rightarrow> app_error + string" where
  "issue_with sv m keys c =
     (case issue (sv_jose sv) (sv_config sv) (mo_now m) c keys of
        Inl _ \<Rightarrow> Inl (OtherError ''token could not be issued'') | Inr token \<Rightarrow> Inr token)"

definition login_work ::
    "('priv, 'pub) Service \<Rightarrow> Moment \<Rightarrow> Argon2 \<Rightarrow> string \<Rightarrow> ValidationError list \<Rightarrow> string \<Rightarrow> string \<Rightarrow> string \<Rightarrow>
     Request \<Rightarrow> ('priv, 'pub) System \<Rightarrow> (app_error + payload) \<times> ('priv, 'pub) System" where
  "login_work sv m argon salt errors email password ip req s =
     (case tenantGuard req (sy_access s) of
        (Inl e, w) \<Rightarrow> (Inl e, s\<lparr>sy_access := w\<rparr>)
      | (Inr req', w) \<Rightarrow>
          let s1 = s\<lparr>sy_access := w\<rparr> in
          if errors \<noteq> [] then (Inl (Domain (validationExceptionFactory errors)), s1)
          else
            (case login (sv_sha sv) (sv_config sv) argon salt (issue_with sv m (ax_keys w)) (mo_iso m) (rq_tenant req')
                    email password ip (auth_world (rq_tenantDb req') s1) of
               (result, aw) \<Rightarrow>
                 (case result of Inl e \<Rightarrow> Inl e | Inr token \<Rightarrow> Inr (Bare (Some (JObj [(''accessToken'', JStr token)]))),
                  auth_done (rq_tenantDb req') aw s1)))"

definition post_login ::
    "('priv, 'pub) Service \<Rightarrow> Moment \<Rightarrow> string \<Rightarrow> Argon2 \<Rightarrow> string \<Rightarrow> ValidationError list \<Rightarrow> string \<Rightarrow> string \<Rightarrow> string \<Rightarrow>
     Request \<Rightarrow> ('priv, 'pub) System \<Rightarrow> ('priv, 'pub) answer" where
  "post_login sv m traceId argon salt errors email password ip =
     route sv traceId (Some \<lparr>ro_limit = 20, ro_windowMs = 60000\<rparr>) False 201 False
       (login_work sv m argon salt errors email password ip)"

definition register_work ::
    "('priv, 'pub) Service \<Rightarrow> Moment \<Rightarrow> Argon2 \<Rightarrow> string \<Rightarrow> string \<Rightarrow> ValidationError list \<Rightarrow> string \<Rightarrow> string \<Rightarrow>
     Request \<Rightarrow> ('priv, 'pub) System \<Rightarrow> (app_error + payload) \<times> ('priv, 'pub) System" where
  "register_work sv m argon salt newId errors email password req s =
     (case tenantGuard req (sy_access s) of
        (Inl e, w) \<Rightarrow> (Inl e, s\<lparr>sy_access := w\<rparr>)
      | (Inr req', w) \<Rightarrow>
          let s1 = s\<lparr>sy_access := w\<rparr> in
          if errors \<noteq> [] then (Inl (Domain (validationExceptionFactory errors)), s1)
          else
            (case register (sv_sha sv) argon salt newId (mo_iso m) (rq_tenant req') email password
                    (auth_world (rq_tenantDb req') s1) of
               (result, aw) \<Rightarrow>
                 (case result of
                    Inl e \<Rightarrow> Inl e
                  | Inr (i, e) \<Rightarrow> Inr (Bare (Some (JObj [(''id'', JStr i), (''email'', JStr e)]))),
                  auth_done (rq_tenantDb req') aw s1)))"

definition post_register ::
    "('priv, 'pub) Service \<Rightarrow> Moment \<Rightarrow> string \<Rightarrow> Argon2 \<Rightarrow> string \<Rightarrow> string \<Rightarrow> ValidationError list \<Rightarrow> string \<Rightarrow> string \<Rightarrow>
     Request \<Rightarrow> ('priv, 'pub) System \<Rightarrow> ('priv, 'pub) answer" where
  "post_register sv m traceId argon salt newId errors email password =
     route sv traceId (Some \<lparr>ro_limit = 10, ro_windowMs = 60000\<rparr>) False 201 False
       (register_work sv m argon salt newId errors email password)"

section \<open>Provisioning\<close>

fun provision_error :: "ProvisionError \<Rightarrow> app_error" where
  "provision_error (ProvisionDomain e) = Domain e"
| "provision_error (TenantDatabaseConflictError n reason) =
     OtherError (''Refusing to provision into database \"'' @ n @ ''\": '' @ reason @
       ''. It was not built for this tenant, so it is left exactly as it was. Find out what it is before '' @
       ''changing anything; once the name is free, repeating the request resumes the provisioning.'')"
| "provision_error UnsafeName = OtherError ''Refusing unsafe database name''"
| "provision_error StepFailed = OtherError ''a statement failed''"

definition status_name :: "TenantStatus \<Rightarrow> string" where
  "status_name st = (case st of ts_provisioning \<Rightarrow> ''provisioning'' | ts_active \<Rightarrow> ''active'' | ts_suspended \<Rightarrow> ''suspended'')"

definition tenant_json :: "Tenant \<Rightarrow> json" where
  "tenant_json t =
     JObj [(''id'', JStr (tn_id t)), (''slug'', JStr (tn_slug t)), (''databaseName'', JStr (tn_databaseName t)),
           (''status'', JStr (status_name (tn_status t)))]"

definition tenants_work ::
    "('priv, 'pub) Service \<Rightarrow> Moment \<Rightarrow> Faults \<Rightarrow> string \<Rightarrow> string \<Rightarrow> ValidationError list \<Rightarrow> string \<Rightarrow> string \<Rightarrow>
     Request \<Rightarrow> ('priv, 'pub) System \<Rightarrow> (app_error + payload) \<times> ('priv, 'pub) System" where
  "tenants_work sv m fs newId roleId errors slug name req s =
     (case controlPlaneGuard (sv_config sv) req of
        Inl e \<Rightarrow> (Inl (Domain e), s)
      | Inr _ \<Rightarrow>
          if errors \<noteq> [] then (Inl (Domain (validationExceptionFactory errors)), s)
          else
            (case provision (sv_sha sv) (mo_iso m) fs newId roleId slug name (ax_world (sy_access s)) (sy_chain s) of
               (result, w, chain, log) \<Rightarrow>
                 (case result of Inl e \<Rightarrow> Inl (provision_error e) | Inr t \<Rightarrow> Inr (Bare (Some (tenant_json t))),
                  s\<lparr>sy_chain := chain,
                    sy_access := (sy_access s)\<lparr>ax_world := w, ax_log := ax_log (sy_access s) @ log\<rparr>\<rparr>)))"

definition post_tenants ::
    "('priv, 'pub) Service \<Rightarrow> Moment \<Rightarrow> string \<Rightarrow> Faults \<Rightarrow> string \<Rightarrow> string \<Rightarrow> ValidationError list \<Rightarrow> string \<Rightarrow> string \<Rightarrow>
     Request \<Rightarrow> ('priv, 'pub) System \<Rightarrow> ('priv, 'pub) answer" where
  "post_tenants sv m traceId fs newId roleId errors slug name =
     route sv traceId (Some \<lparr>ro_limit = 30, ro_windowMs = 3600000\<rparr>) False 201 False
       (tenants_work sv m fs newId roleId errors slug name)"

section \<open>Facts about routes\<close>

lemma setHeaders_other:
  "n \<notin> {''x-ratelimit-limit'', ''x-ratelimit-remaining'', ''x-ratelimit-degraded''} \<Longrightarrow> setHeaders c h n = h n"
  by (simp add: setHeaders_def)

lemma fold_setHeaders_other:
  "n \<notin> {''x-ratelimit-limit'', ''x-ratelimit-remaining'', ''x-ratelimit-degraded''} \<Longrightarrow> fold setHeaders cs h n = h n"
  by (induction cs arbitrary: h) (simp_all add: setHeaders_other)

lemma rateLimitGuard_Inr:
  assumes "rateLimitGuard config ctx st (\<lambda>_. None) = (Inr u, st', h)"
  shows "list_all rl_allowed (guard_checks config ctx st) \<and> h ''cache-control'' = None"
proof
  have out: "(Inr u :: DomainError + unit) = (case find (\<lambda>c. \<not> rl_allowed c) (guard_checks config ctx st) of
        Some c \<Rightarrow> Inl (TooManyRequestsError (rl_retryAfterMs c)) | None \<Rightarrow> Inr ())"
      "h = fold setHeaders (guard_checks config ctx st) (\<lambda>_. None)"
    using guard_outcome [of config ctx st "\<lambda>_. None"] assms by auto
  then show "list_all rl_allowed (guard_checks config ctx st)"
    by (auto simp: list_all_iff find_None_iff split: option.splits)
  show "h ''cache-control'' = None" using out(2) by (simp add: fold_setHeaders_other)
qed

text \<open>The errors a route may end in without answering 2xx.\<close>

definition refusal :: "app_error \<Rightarrow> bool" where
  "refusal e = (case e of HttpException n _ \<Rightarrow> 400 \<le> n | _ \<Rightarrow> True)"

lemma respond_refusal:
  assumes "refusal e" "respond config traceId ctx status raw h (Inl e) = (r, log)"
  shows "400 \<le> hr_status r"
proof -
  have "400 \<le> pd_status (toProblem config e traceId (rc_url ctx))"
    using assms(1) by (auto simp: refusal_def toProblem_def Let_def domain_status_cases split: app_error.splits DomainError.splits)
  then show ?thesis
    using assms(2) by (auto simp: respond_def catch_exception_def Let_def)
qed

lemma route_success:
  assumes "route sv traceId limit exempt status raw work req s = (r, s', log)" "hr_status r < 400"
    and "\<And>e st s2. work (req\<lparr>rq_context := ctx\<rparr>) (s\<lparr>sy_store := st\<rparr>) = (Inl e, s2) \<Longrightarrow> refusal e"
    and "ctx = (rq_context req)\<lparr>rc_isHttp := True, rc_noRateLimit := exempt, rc_rateLimit := limit\<rparr>"
  obtains st h p where "rateLimitGuard (sv_config sv) ctx (sy_store s) (\<lambda>_. None) = (Inr (), st, h)"
    "work (req\<lparr>rq_context := ctx\<rparr>) (s\<lparr>sy_store := st\<rparr>) = (Inr p, s')" "log = []"
    "r = \<lparr>hr_status = status, hr_headers = registerDefaultResponseHeaders h, hr_body = intercept raw p\<rparr>"
proof -
  obtain g st h where g: "rateLimitGuard (sv_config sv) ctx (sy_store s) (\<lambda>_. None) = (g, st, h)"
    by (cases "rateLimitGuard (sv_config sv) ctx (sy_store s) (\<lambda>_. None)")
  have r: "\<not> 400 \<le> hr_status r" using assms(2) by simp
  have "g = Inr ()"
  proof (rule ccontr)
    assume "g \<noteq> Inr ()"
    then obtain e where e: "g = Inl e" by (cases g) auto
    have "refusal (Domain e)" by (simp add: refusal_def)
    with respond_refusal [OF this] g e assms(1,4) r show False
      by (auto simp: route_def Let_def split: prod.splits)
  qed
  moreover obtain result s2 where work: "work (req\<lparr>rq_context := ctx\<rparr>) (s\<lparr>sy_store := st\<rparr>) = (result, s2)"
    by (cases "work (req\<lparr>rq_context := ctx\<rparr>) (s\<lparr>sy_store := st\<rparr>)")
  ultimately have resp: "respond (sv_config sv) traceId ctx status raw h result = (r, log)" "s' = s2"
    using assms(1,4) g by (auto simp: route_def Let_def split: prod.splits)
  show ?thesis
  proof (cases result)
    case (Inl e)
    with respond_refusal assms(3) work resp(1) r show ?thesis by blast
  next
    case (Inr p)
    with that [of st h p] g \<open>g = Inr ()\<close> work resp show ?thesis by (simp add: respond_def)
  qed
qed

lemma permissionsGuard_refusal:
  "permissionsGuard sv m ps req w = (Inl e, w') \<Longrightarrow> refusal e"
  by (auto simp: permissionsGuard_def ForbiddenException_def refusal_def Let_def split: if_splits option.splits)

lemma tenantGuard_refusal: "tenantGuard req w = (Inl e, w') \<Longrightarrow> refusal e"
  by (auto simp: tenantGuard_def refusal_def database_error_def split: option.splits if_splits sum.splits prod.splits)

lemma accessTokenGuard_refusal: "accessTokenGuard sv m req w = (Inl e, w') \<Longrightarrow> refusal e"
  by (auto simp: accessTokenGuard_def refusal_def split: option.splits if_splits sum.splits prod.splits)

lemma TenantAuthenticated_refusal: "TenantAuthenticated sv m ps req w = (Inl e, w') \<Longrightarrow> refusal e"
  by (auto simp: TenantAuthenticated_def split: prod.splits sum.splits
      dest: tenantGuard_refusal accessTokenGuard_refusal permissionsGuard_refusal)

lemma users_work_refusal: "users_work sv m req s = (Inl e, s') \<Longrightarrow> refusal e"
  by (auto simp: users_work_def users_list_def refusal_def database_error_def
      split: prod.splits sum.splits option.splits if_splits app_error.splits dest: TenantAuthenticated_refusal)

end
