(* ===== verification/Histories.thy ===== *)
theory Histories
  imports Routes
begin

text \<open>
  What every request keeps, whatever it is and however it ends, and so what holds after any history of
  requests and operator commands: the registry and the cluster stay sound, a cached pool stays the one of
  its tenant, every audit chain of the deployment verifies, and no recorded event is lost or moved.
\<close>

section \<open>The invariant of the deployment\<close>

definition chains_ok :: "(bytes \<Rightarrow> bytes) \<Rightarrow> ProvisionWorld \<Rightarrow> bool" where
  "chains_ok sha w \<longleftrightarrow> (\<forall>n td. tables_of w n = Some td \<longrightarrow> table_ok sha (td_audit td))"

definition access_ok :: "(bytes \<Rightarrow> bytes) \<Rightarrow> ('priv, 'pub) AccessWorld \<Rightarrow> bool" where
  "access_ok sha w \<longleftrightarrow> world_ok (ax_world w) \<and> pools_ok w \<and> chains_ok sha (ax_world w)"

definition system_sound :: "(bytes \<Rightarrow> bytes) \<Rightarrow> ('priv, 'pub) System \<Rightarrow> bool" where
  "system_sound sha s \<longleftrightarrow> access_ok sha (sy_access s) \<and> table_ok sha (sy_chain s)"

text \<open>Evidence is kept: a database that holds tenant tables still does, with every audit row it had, in its
  place, and no tenant is lost or renamed.\<close>

definition evidence_kept :: "ProvisionWorld \<Rightarrow> ProvisionWorld \<Rightarrow> bool" where
  "evidence_kept w w' \<longleftrightarrow>
     (\<forall>n td. tables_of w n = Some td \<longrightarrow>
        (\<exists>td'. tables_of w' n = Some td' \<and> prefix (tb_rows (td_audit td)) (tb_rows (td_audit td')))) \<and>
     list_all (\<lambda>r. list_ex (row_kept r) (pw_tenants w')) (pw_tenants w)"

lemma evidence_kept_refl [simp, intro!]: "evidence_kept w w"
  by (simp add: evidence_kept_def list_all_iff row_kept_self)

lemma evidence_kept_trans:
  assumes "evidence_kept a b" "evidence_kept b c"
  shows "evidence_kept a c"
proof -
  have "list_ex (row_kept r) (pw_tenants c)" if "r \<in> set (pw_tenants a)" for r
    using assms that unfolding evidence_kept_def list_all_iff list_ex_iff by (meson row_kept_trans)
  moreover have "\<exists>td'. tables_of c n = Some td' \<and> prefix (tb_rows (td_audit td)) (tb_rows (td_audit td'))"
    if "tables_of a n = Some td" for n td
    using assms that unfolding evidence_kept_def by (meson prefix_order.trans)
  ultimately show ?thesis by (simp add: evidence_kept_def list_all_iff)
qed

lemma keeps_tables:
  assumes "keeps w w'" "tables_of w n = Some td"
  shows "tables_of w' n = Some td"
proof -
  obtain db where db: "pw_cluster w n = Some db" "cd_tables db = Some td"
    using assms(2) by (auto simp: tables_of_def split: option.splits)
  then have "pw_cluster w' n = Some db" using assms(1) unfolding keeps_def by blast
  with db(2) show ?thesis by (simp add: tables_of_def)
qed

lemma keeps_evidence: "keeps w w' \<Longrightarrow> evidence_kept w w'"
  using keeps_tables by (fastforce simp: evidence_kept_def keeps_def)

text \<open>What a step may do to the access world and to the whole system.\<close>

definition access_evolves :: "(bytes \<Rightarrow> bytes) \<Rightarrow> ('priv, 'pub) AccessWorld \<Rightarrow> ('priv, 'pub) AccessWorld \<Rightarrow> bool" where
  "access_evolves sha w w' \<longleftrightarrow>
     (access_ok sha w \<longrightarrow> access_ok sha w' \<and> evidence_kept (ax_world w) (ax_world w'))"

definition evolves :: "(bytes \<Rightarrow> bytes) \<Rightarrow> ('priv, 'pub) System \<Rightarrow> ('priv, 'pub) System \<Rightarrow> bool" where
  "evolves sha s s' \<longleftrightarrow>
     (system_sound sha s \<longrightarrow> system_sound sha s' \<and>
        evidence_kept (ax_world (sy_access s)) (ax_world (sy_access s')) \<and>
        prefix (tb_rows (sy_chain s)) (tb_rows (sy_chain s')))"

lemma access_evolves_refl [simp, intro!]: "access_evolves sha w w"
  by (simp add: access_evolves_def)

lemma access_evolves_trans: "access_evolves sha a b \<Longrightarrow> access_evolves sha b c \<Longrightarrow> access_evolves sha a c"
  by (auto simp: access_evolves_def intro: evidence_kept_trans)

lemma evolves_refl [simp, intro!]: "evolves sha s s"
  by (simp add: evolves_def)

lemma evolves_trans: "evolves sha a b \<Longrightarrow> evolves sha b c \<Longrightarrow> evolves sha a c"
  by (auto simp: evolves_def intro: evidence_kept_trans prefix_order.trans)

lemma access_ok_simps [simp]:
  "access_ok sha (w\<lparr>ax_log := l\<rparr>) = access_ok sha w" "access_ok sha (w\<lparr>ax_keys := k\<rparr>) = access_ok sha w"
  "access_ok sha (w\<lparr>ax_masterUp := b\<rparr>) = access_ok sha w"
  by (simp_all add: access_ok_def pools_ok_def)

lemma access_evolves_simps [simp]:
  "access_evolves sha w (w'\<lparr>ax_log := l\<rparr>) = access_evolves sha w w'"
  "access_evolves sha w (w'\<lparr>ax_keys := k\<rparr>) = access_evolves sha w w'"
  "access_evolves sha w (w'\<lparr>ax_masterUp := b\<rparr>) = access_evolves sha w w'"
  by (simp_all add: access_evolves_def)

lemma evolves_simps [simp]:
  "evolves sha s (s'\<lparr>sy_store := st\<rparr>) = evolves sha s s'" "evolves sha (s\<lparr>sy_store := st\<rparr>) s' = evolves sha s s'"
  "evolves sha s (s'\<lparr>sy_decoy := d\<rparr>) = evolves sha s s'" "evolves sha s (s'\<lparr>sy_verifications := v\<rparr>) = evolves sha s s'"
  by (simp_all add: evolves_def system_sound_def)

lemma evolves_access: "access_evolves sha (sy_access s) w \<Longrightarrow> evolves sha s (s\<lparr>sy_access := w\<rparr>)"
  by (simp add: evolves_def system_sound_def access_evolves_def)

subsection \<open>Writing a tenant's tables\<close>

lemma set_tables_world:
  assumes "tables_of w n \<noteq> None"
  shows "pw_tenants (set_tables n t w) = pw_tenants w" and "marked_for (set_tables n t w) = marked_for w"
    and "world_ok w \<Longrightarrow> world_ok (set_tables n t w)"
    and "tables_of (set_tables n t w) = (tables_of w)(n \<mapsto> t)"
proof -
  obtain db where db: "pw_cluster w n = Some db" "cd_tables db \<noteq> None"
    using assms by (auto simp: tables_of_def split: option.splits)
  show "pw_tenants (set_tables n t w) = pw_tenants w" by (simp add: set_tables_def db)
  show m: "marked_for (set_tables n t w) = marked_for w"
    using db by (auto simp: fun_eq_iff marked_for_def set_tables_def)
  show "world_ok w \<Longrightarrow> world_ok (set_tables n t w)"
    using db by (auto simp: world_ok_def registry_ok_def m cluster_ok_def) (auto simp: set_tables_def split: if_splits)
  show "tables_of (set_tables n t w) = (tables_of w)(n \<mapsto> t)"
    using db by (auto simp: fun_eq_iff tables_of_def set_tables_def)
qed

lemma set_tables_evolves:
  assumes "tables_of (ax_world w) n = Some td" "chain_grows sha (td_audit td) (td_audit t)"
  shows "access_evolves sha w (w\<lparr>ax_world := set_tables n t (ax_world w)\<rparr>)"
  using assms set_tables_world [of "ax_world w" n t]
  by (auto simp: access_evolves_def access_ok_def pools_ok_def chains_ok_def registered_def evidence_kept_def
      chain_grows_def list_all_iff row_kept_self)

section \<open>Guards\<close>

text \<open>The interface of a guard: what it does to the world it works on is an evolution.\<close>

locale access_guard =
  fixes sha :: "bytes \<Rightarrow> bytes"
    and guard :: "Request \<Rightarrow> ('priv, 'pub) AccessWorld \<Rightarrow> (app_error + Request) \<times> ('priv, 'pub) AccessWorld"
  assumes guard_evolves: "access_evolves sha w (snd (guard req w))"
begin

lemma guard_run: "guard req w = (r, w') \<Longrightarrow> access_evolves sha w w'"
  using guard_evolves [of w req] by simp

end

interpretation tenant: access_guard sha tenantGuard for sha
proof
  fix req :: Request and w :: "('a, 'b) AccessWorld"
  show "access_evolves sha w (snd (tenantGuard req w))"
  proof (cases "tenantGuard req w")
    case (Pair r w')
    show ?thesis
    proof (cases r)
      case (Inl e)
      with Pair show ?thesis by (auto simp: tenantGuard_def split: option.splits if_splits sum.splits prod.splits)
    next
      case (Inr req')
      with Pair have run: "tenantGuard req w = (Inr req', w')" by simp
      have "access_ok sha w' \<and> ax_world w' = ax_world w" if ok: "access_ok sha w"
      proof -
        have "pools_ok w" "registry_ok (ax_world w)" using ok by (simp_all add: access_ok_def world_ok_def)
        from tenantGuard_Inr [OF run this] ok show ?thesis by (metis access_ok_def)
      qed
      with Pair show ?thesis by (simp add: access_evolves_def)
    qed
  qed
qed

interpretation token: access_guard sha "accessTokenGuard sv m" for sha sv m
  by unfold_locales (auto simp: accessTokenGuard_def split: option.split prod.split sum.split)

lemma request_event_evolves:
  assumes "wf_metadata (ap_metadata ev)"
  shows "access_evolves (sv_sha sv) w (request_event sv m req ev w)"
proof -
  have "chain_grows (sv_sha sv) (td_audit td) t"
    if "tenantEvent (sv_sha sv) (mo_iso m) (Some (tenant, td_audit td)) ev = (Some (tenant', t), log)"
    for td t tenant tenant' log
    using that audit_append_grows [OF assms] by (auto simp: tenantEvent_def split: prod.splits) (metis fst_conv)
  then show ?thesis
    by (auto simp: request_event_def intro!: set_tables_evolves split: sum.split option.split prod.split)
qed

interpretation permissions: access_guard "sv_sha sv" "permissionsGuard sv m ps" for sv m ps
  by unfold_locales
    (auto simp: permissionsGuard_def Let_def deny_def intro!: request_event_evolves deniedEvent_wf split: option.split)

interpretation chain: access_guard "sv_sha sv" "TenantAuthenticated sv m ps" for sv m ps
proof
  fix req :: Request and w :: "('a, 'b) AccessWorld"
  show "access_evolves (sv_sha sv) w (snd (TenantAuthenticated sv m ps req w))"
    by (auto simp: TenantAuthenticated_def split: prod.split sum.split
        dest!: tenant.guard_run [of _ _ _ _ "sv_sha sv"] token.guard_run [of _ _ _ _ _ _ "sv_sha sv"]
        intro: access_evolves_trans permissions.guard_evolves)
qed

section \<open>Provisioning and the seed\<close>

text \<open>Provisioning adds databases, and their chains are empty.\<close>

lemma tables_of_update [simp]:
  "tables_of (w\<lparr>pw_cluster := (pw_cluster w)(n \<mapsto> db)\<rparr>) = (tables_of w)(n := cd_tables db)"
  "tables_of (w\<lparr>pw_tenants := rows\<rparr>) = tables_of w" "tables_of (w\<lparr>pw_locks := l\<rparr>) = tables_of w"
  by (auto simp: tables_of_def fun_eq_iff)

lemma chains_ok_simps [simp]:
  "chains_ok sha (w\<lparr>pw_tenants := rows\<rparr>) = chains_ok sha w" "chains_ok sha (w\<lparr>pw_locks := l\<rparr>) = chains_ok sha w"
  by (simp_all add: chains_ok_def)

lemma chains_ok_update:
  assumes "chains_ok sha w" "\<And>td. cd_tables db = Some td \<Longrightarrow> table_ok sha (td_audit td)"
  shows "chains_ok sha (w\<lparr>pw_cluster := (pw_cluster w)(n \<mapsto> db)\<rparr>)"
  using assms by (auto simp: chains_ok_def)

lemma built_chain: "cd_tables (built roleId tid) = Some td \<Longrightarrow> td_audit td = empty_audit_table"
  by (auto simp: built_def)

lemma provisioning_steps_chains:
  assumes "chains_ok sha w"
  shows "chains_ok sha (snd (registerOrResume fs newId slug name n w))" and "chains_ok sha (snd (createDatabase fs n w))"
    and "chains_ok sha (snd (initializeTenantDatabase fs roleId n tid w))" and "chains_ok sha (snd (activateTenant fs tid w))"
proof -
  show "chains_ok sha (snd (registerOrResume fs newId slug name n w))"
    using assms by (auto simp: registerOrResume_def Let_def write_step_def split: option.split fault.split)
  show "chains_ok sha (snd (createDatabase fs n w))"
    using assms by (auto simp: createDatabase_def write_step_def intro: chains_ok_update split: option.split fault.split)
  show "chains_ok sha (snd (activateTenant fs tid w))"
    using assms by (auto simp: activateTenant_def write_step_def split: option.split fault.split)
  show "chains_ok sha (snd (initializeTenantDatabase fs roleId n tid w))"
    by (cases rule: initialize_cases [of fs roleId n tid w]) (use assms in \<open>auto simp: built_chain intro: chains_ok_update\<close>)
qed

lemma provision_locked_chains:
  assumes "chains_ok sha w"
  shows "chains_ok sha (snd (provision_locked fs newId roleId slug name n w))"
  using assms provisioning_steps_chains [of sha]
  by (auto simp: provision_locked_def split: prod.split sum.split) (metis snd_conv)+

lemma provisionTenant_chains:
  assumes "chains_ok sha w"
  shows "chains_ok sha (snd (provisionTenant sha' fs newId roleId slug name w))"
  using assms provision_locked_chains [of sha]
  by (auto simp: provisionTenant_def lockProvisioning_def releaseLock_def Let_def split: option.split prod.split)
    (metis chains_ok_simps(2) snd_conv)+

lemma provisionTenant_evolves:
  assumes "provisionTenant sha' fs newId roleId slug name (ax_world w) = (r, w')"
  shows "access_evolves sha w (w\<lparr>ax_world := w'\<rparr>)"
proof -
  have "world_ok w' \<and> keeps (ax_world w) w'" if "world_ok (ax_world w)"
    using provisionTenant_effects [OF that assms] by simp
  moreover have "chains_ok sha w'" if "chains_ok sha (ax_world w)"
    using provisionTenant_chains [OF that] assms by (metis snd_conv)
  ultimately show ?thesis
    by (auto simp: access_evolves_def access_ok_def pools_ok_def keeps_evidence keeps_registered)
qed

lemma provisionedEvent_wf: "wf_metadata (ap_metadata (provisionedEvent tenant resumed))"
  by (simp add: wf_metadata_def provisionedEvent_def)

text \<open>The seed writes users and roles and leaves the chain.\<close>

lemma seed_tables_audit: "td_audit (snd (seed_tables argon salt newId now tenant email password db)) = td_audit db"
  by (auto simp: seed_tables_def Let_def split: option.split)

lemma seedTenantAdmin_evolves:
  assumes "seedTenantAdmin argon salt newId now idOrSlug email password (ax_world w) = (r, w')"
  shows "access_evolves sha w (w\<lparr>ax_world := w'\<rparr>)"
proof (cases "w' = ax_world w")
  case False
  then obtain tenant db td where n: "pw_cluster (ax_world w) (tn_databaseName tenant) = Some db" "cd_tables db = Some td"
      "w' = set_tables (tn_databaseName tenant)
         (snd (seed_tables argon salt newId now tenant (toLowerCase (trim email)) password td)) (ax_world w)"
    using assms by (auto simp: seedTenantAdmin_def Let_def set_tables_def split: sum.splits option.splits prod.splits)
  then have "tables_of (ax_world w) (tn_databaseName tenant) = Some td" by (simp add: tables_of_def)
  from set_tables_evolves [OF this] n(3) show ?thesis by (simp add: seed_tables_audit)
qed simp

section \<open>Routes\<close>

text \<open>The interface of the work behind a route, and what the route makes of it.\<close>

locale route_work =
  fixes sha :: "bytes \<Rightarrow> bytes"
    and work :: "Request \<Rightarrow> ('priv, 'pub) System \<Rightarrow> (app_error + payload) \<times> ('priv, 'pub) System"
  assumes work_evolves: "evolves sha s (snd (work req s))"
begin

lemma route_evolves:
  assumes "route sv traceId limit exempt status raw work req s = (r, s', log)"
  shows "evolves sha s s'"
proof -
  have "evolves sha s s2" if "work q (s\<lparr>sy_store := st\<rparr>) = (x, s2)" for q st x s2
    using work_evolves [of "s\<lparr>sy_store := st\<rparr>" q] that by simp
  then show ?thesis
    using assms by (auto simp: route_def Let_def split: prod.splits sum.splits)
qed

end

interpretation users: route_work "sv_sha sv" "users_work sv m" for sv m
  by unfold_locales (auto simp: users_work_def split: prod.split sum.split dest!: chain.guard_run intro: evolves_access)

interpretation pure: route_work sha "\<lambda>_ s. (f s, s)" for sha f
  by unfold_locales simp

text \<open>A run of the authentication service on the tables behind a pool.\<close>

lemma auth_done_evolves:
  assumes "chain_grows sha (td_audit (aw_db (auth_world db s))) (td_audit (aw_db aw))"
  shows "evolves sha s (auth_done db aw s)"
proof (cases "Option.bind db (tables_of (ax_world (sy_access s)))")
  case None
  then have "ax_world (sy_access (auth_done db aw s)) = ax_world (sy_access s)"
    by (cases db) (auto simp: auth_done_def)
  with None show ?thesis
    by (cases db) (auto simp: auth_done_def evolves_def system_sound_def access_ok_def pools_ok_def)
next
  case (Some td)
  then obtain n where n: "db = Some n" "tables_of (ax_world (sy_access s)) n = Some td" by (cases db) auto
  with assms have "access_evolves sha (sy_access s) (sy_access (auth_done db aw s))"
    using set_tables_evolves [OF n(2), of sha "aw_db aw"] by (simp add: auth_done_def auth_world_def)
  then show ?thesis by (auto simp: access_evolves_def evolves_def system_sound_def) (auto simp: auth_done_def)
qed

interpretation login: route_work "sv_sha sv" "login_work sv m argon salt errors email password ip"
  for sv m argon salt errors email password ip
proof
  fix s :: "('a, 'b) System" and req :: Request
  have "evolves (sv_sha sv) s (auth_done db aw (s\<lparr>sy_access := w\<rparr>))"
    if "tenantGuard req (sy_access s) = (r, w)"
      and "login (sv_sha sv) (sv_config sv) argon salt issue now ctx email password ip (auth_world db (s\<lparr>sy_access := w\<rparr>)) = (res, aw)"
    for r w db aw issue now ctx res
    using evolves_access [OF tenant.guard_run [OF that(1)]] auth_done_evolves login_grows that(2)
    by (metis evolves_trans snd_conv)
  then show "evolves (sv_sha sv) s (snd (login_work sv m argon salt errors email password ip req s))"
    by (auto simp: login_work_def Let_def split: prod.split sum.split
        dest: tenant.guard_run [of _ _ _ _ "sv_sha sv"] intro: evolves_access)
qed

interpretation register: route_work "sv_sha sv" "register_work sv m argon salt newId errors email password"
  for sv m argon salt newId errors email password
proof
  fix s :: "('a, 'b) System" and req :: Request
  have "evolves (sv_sha sv) s (auth_done db aw (s\<lparr>sy_access := w\<rparr>))"
    if "tenantGuard req (sy_access s) = (r, w)"
      and "register (sv_sha sv) argon salt newId now ctx email password (auth_world db (s\<lparr>sy_access := w\<rparr>)) = (res, aw)"
    for r w db aw now ctx res
    using evolves_access [OF tenant.guard_run [OF that(1)]] auth_done_evolves register_grows that(2)
    by (metis evolves_trans snd_conv)
  then show "evolves (sv_sha sv) s (snd (register_work sv m argon salt newId errors email password req s))"
    by (auto simp: register_work_def Let_def split: prod.split sum.split
        dest: tenant.guard_run [of _ _ _ _ "sv_sha sv"] intro: evolves_access)
qed

interpretation tenants: route_work "sv_sha sv" "tenants_work sv m fs newId roleId errors slug name"
  for sv m fs newId roleId errors slug name
proof
  fix s :: "('a, 'b) System" and req :: Request
  let ?w = "sy_access s"
  have "evolves (sv_sha sv) s (s\<lparr>sy_chain := chain, sy_access := ?w\<lparr>ax_world := w, ax_log := l\<rparr>\<rparr>)"
    if run: "provision (sv_sha sv) (mo_iso m) fs newId roleId slug name (ax_world ?w) (sy_chain s) = (r, w, chain, log)"
    for r w chain log l
  proof -
    obtain r' where "provisionTenant (sv_sha sv) fs newId roleId slug name (ax_world ?w) = (r', w)"
      using run by (auto simp: provision_def split: prod.splits sum.splits)
    then have "access_evolves (sv_sha sv) ?w (?w\<lparr>ax_world := w\<rparr>)" by (rule provisionTenant_evolves)
    moreover have "chain_grows (sv_sha sv) (sy_chain s) chain"
      using run audit_append_grows [OF provisionedEvent_wf]
      by (auto simp: provision_def controlPlaneEvent_def split: prod.splits sum.splits) (metis fst_conv)+
    ultimately show ?thesis
      by (auto simp: evolves_def system_sound_def access_evolves_def chain_grows_def)
  qed
  then show "evolves (sv_sha sv) s (snd (tenants_work sv m fs newId roleId errors slug name req s))"
    by (auto simp: tenants_work_def split: prod.split sum.split)
qed

section \<open>Requests and histories\<close>

text \<open>The calls of the API, with what the framework and its libraries bring to each: the outcome of the
  validation of the body, the salt and the ids drawn, and for provisioning the faults of its statements.\<close>

datatype call =
    GetUsers
  | GetJwks
  | GetHealth json
  | PostLogin Argon2 string "ValidationError list" string string string
  | PostRegister Argon2 string string "ValidationError list" string string
  | PostTenants Faults string string "ValidationError list" string string

fun handle :: "('priv, 'pub) Service \<Rightarrow> Moment \<Rightarrow> string \<Rightarrow> call \<Rightarrow> Request \<Rightarrow> ('priv, 'pub) System \<Rightarrow> ('priv, 'pub) answer" where
  "handle sv m traceId GetUsers = get_users sv m traceId"
| "handle sv m traceId GetJwks = get_jwks sv m traceId"
| "handle sv m traceId (GetHealth report) = get_health sv m traceId report"
| "handle sv m traceId (PostLogin argon salt errors email password ip) =
     post_login sv m traceId argon salt errors email password ip"
| "handle sv m traceId (PostRegister argon salt newId errors email password) =
     post_register sv m traceId argon salt newId errors email password"
| "handle sv m traceId (PostTenants fs newId roleId errors slug name) =
     post_tenants sv m traceId fs newId roleId errors slug name"

lemma handle_evolves:
  assumes "handle sv m traceId call req s = (r, s', log)"
  shows "evolves (sv_sha sv) s s'"
proof (cases call)
  case GetJwks
  with assms show ?thesis
    by (auto simp: get_jwks_def intro: pure.route_evolves split: prod.splits)
qed (use assms in \<open>auto simp: get_users_def get_health_def post_login_def post_register_def post_tenants_def
    dest: users.route_evolves pure.route_evolves login.route_evolves register.route_evolves tenants.route_evolves\<close>)

text \<open>What happens to a deployment: requests, the operator's administrator seed, a reload of the keys, a
  restarted process, Redis in any state, and databases that go away and come back.\<close>

inductive deployment_step :: "('priv, 'pub) Service \<Rightarrow> ('priv, 'pub) System \<Rightarrow> ('priv, 'pub) System \<Rightarrow> bool" for sv where
  request: "handle sv m traceId call req s = (r, s', log) \<Longrightarrow> deployment_step sv s s'"
| seed: "seedTenantAdmin argon salt newId now idOrSlug email password (ax_world (sy_access s)) = (res, w) \<Longrightarrow>
    deployment_step sv s (s\<lparr>sy_access := (sy_access s)\<lparr>ax_world := w\<rparr>\<rparr>)"
| reload: "deployment_step sv s (s\<lparr>sy_access := (sy_access s)\<lparr>ax_keys := keys\<rparr>\<rparr>)"
| restart: "deployment_step sv s (s\<lparr>sy_access := (sy_access s)\<lparr>ax_pools := Map.empty\<rparr>, sy_decoy := None, sy_verifications := 0\<rparr>)"
| redis: "deployment_step sv s (s\<lparr>sy_store := st\<rparr>)"
| master: "deployment_step sv s (s\<lparr>sy_access := (sy_access s)\<lparr>ax_masterUp := up\<rparr>\<rparr>)"
| database: "tables_of (ax_world (sy_access s)) n = Some td \<Longrightarrow>
    deployment_step sv s
      (s\<lparr>sy_access := (sy_access s)\<lparr>ax_world :=
           set_tables n (td\<lparr>td_audit := (td_audit td)\<lparr>tb_reachable := up\<rparr>\<rparr>) (ax_world (sy_access s))\<rparr>\<rparr>)"

lemma restart_evolves: "access_evolves sha w (w\<lparr>ax_pools := Map.empty\<rparr>)"
  by (simp add: access_evolves_def access_ok_def pools_ok_def)

lemma reachability_grows: "chain_grows sha t (t\<lparr>tb_reachable := up\<rparr>)"
  by (simp add: chain_grows_def table_ok_def)

lemma deployment_step_evolves: "deployment_step sv s s' \<Longrightarrow> evolves (sv_sha sv) s s'"
proof (induction rule: deployment_step.cases)
  case (request m traceId call req s r s' log)
  then show ?case by (simp add: handle_evolves)
next
  case (seed argon salt newId now idOrSlug email password s res w)
  then show ?case by (simp add: evolves_access [OF seedTenantAdmin_evolves])
next
  case (restart s)
  then show ?case by (simp add: evolves_access [OF restart_evolves])
next
  case (database s n td up)
  then show ?case by (auto intro!: evolves_access set_tables_evolves reachability_grows)
qed (auto intro: evolves_access)

interpretation deployment: invariant_system "\<lambda>s. s = s0" "deployment_step sv" "evolves (sv_sha sv) s0" for sv s0
  by unfold_locales (auto intro: evolves_trans deployment_step_evolves)

lemma reaches_evolves: "reaches (deployment_step sv) s s' \<Longrightarrow> evolves (sv_sha sv) s s'"
  by (rule deployment.reachable_inv [OF refl])

text \<open>The verifier's verdict on a sound chain.\<close>

definition sound_verdict :: "AuditTable \<Rightarrow> VerifyOutcome" where
  "sound_verdict t =
     (if tb_rows t = [] then Empty else Intact (length (tb_rows t)) (Some (se_hash (last (tb_rows t)))))"

lemma verifyChain_sound:
  assumes "table_ok sha t" "0 < pageSize"
  shows "verifyChain sha (tb_rows t) pageSize = sound_verdict t"
  using verifyChain_table_ok [OF assms(1) _ assms(2)]
  by (simp add: sound_verdict_def verifyChain_def verify_pages.simps readPage_def)

text \<open>C5: No history loses evidence. Start from a sound deployment and let any requests, seeds, reloads, restarts and
  outages happen, in any order and with any faults. Then the registry and the cluster are still sound, no
  tenant was lost or renamed, every database that held a tenant's tables still does, every audit row
  of every tenant and of the control plane is still there, in its place, and the verifier finds every chain
  of the deployment intact, at whatever page size.\<close>

theorem history_keeps_evidence:
  assumes "system_sound (sv_sha sv) s" and "reaches (deployment_step sv) s s'" and "0 < pageSize"
  shows "world_ok (ax_world (sy_access s')) \<and> pools_ok (sy_access s') \<and>
    evidence_kept (ax_world (sy_access s)) (ax_world (sy_access s')) \<and>
    prefix (tb_rows (sy_chain s)) (tb_rows (sy_chain s')) \<and>
    verifyChain (sv_sha sv) (tb_rows (sy_chain s')) pageSize = sound_verdict (sy_chain s') \<and>
    (\<forall>n td. tables_of (ax_world (sy_access s')) n = Some td \<longrightarrow>
       verifyChain (sv_sha sv) (tb_rows (td_audit td)) pageSize = sound_verdict (td_audit td))"
  using reaches_evolves [OF assms(2)] assms(1,3)
  by (auto simp: evolves_def system_sound_def access_ok_def chains_ok_def verifyChain_sound)

section \<open>A concrete history\<close>

definition demo_system :: "(bytes, JWK) System" where
  "demo_system =
     \<lparr>sy_store = (newMemberIdFactory [], (demo_redis 0)\<lparr>rd_up := False\<rparr>), sy_access = demo_access, sy_decoy = None,
      sy_verifications = 0, sy_chain = empty_audit_table\<rparr>"

lemma demo_system_sound: "system_sound sha demo_system"
proof -
  have "chains_ok sha (ax_world demo_access)"
    by (auto simp: chains_ok_def demo_access_def tables_of_def built_chain split: if_splits)
  then show ?thesis by (simp add: system_sound_def access_ok_def demo_system_def demo_access_ok)
qed

theorem history_keeps_evidence_witness:
  "\<exists>r s' log. handle demo_service demo_moment ''trace'' GetUsers demo_req demo_system = (r, s', log) \<and>
     evidence_kept (ax_world demo_access) (ax_world (sy_access s')) \<and>
     verifyChain demo_sha (tb_rows (sy_chain s')) 500 = sound_verdict (sy_chain s')"
proof (cases "handle demo_service demo_moment ''trace'' GetUsers demo_req demo_system")
  case (fields r s' log)
  from reaches_single [of "deployment_step demo_service", OF deployment_step.request [OF fields]]
  have "reaches (deployment_step demo_service) demo_system s'" .
  from history_keeps_evidence [OF demo_system_sound this, of 500] fields show ?thesis by (auto simp: demo_system_def)
qed

end
