(* ===== verification/Isolation.thy ===== *)
theory Isolation
  imports Histories
begin

text \<open>
  Tenants do not see or touch one another. Each request works on at most one tenant's database, its target;
  what it answers and does depends on no other database, and no other database changes.
\<close>

section \<open>Separated systems\<close>

text \<open>A sequence of actions with its answers.\<close>

fun run :: "('a \<Rightarrow> 's \<Rightarrow> 'o \<times> 's) \<Rightarrow> 'a list \<Rightarrow> 's \<Rightarrow> 'o list \<times> 's" where
  "run step [] s = ([], s)"
| "run step (a # as) s = (case step a s of (out, s1) \<Rightarrow> apfst (Cons out) (run step as s1))"

text \<open>Every action of the sequence, in the state it meets, has an allowed target.\<close>

fun targets_within :: "('a \<Rightarrow> 's \<Rightarrow> 'o \<times> 's) \<Rightarrow> ('s \<Rightarrow> 'a \<Rightarrow> 'd option) \<Rightarrow> ('d option \<Rightarrow> bool) \<Rightarrow> 'a list \<Rightarrow> 's \<Rightarrow> bool" where
  "targets_within step target allowed [] s = True"
| "targets_within step target allowed (a # as) s \<longleftrightarrow>
     allowed (target s a) \<and> targets_within step target allowed as (snd (step a s))"

text \<open>The interface: the view of a domain blanks out what the others hold; an action on the view does what it
  does on the state, seen through the view; and an action leaves what it does not target.\<close>

locale separated =
  fixes step :: "'a \<Rightarrow> 's \<Rightarrow> 'o \<times> 's" and view :: "'d \<Rightarrow> 's \<Rightarrow> 's" and held :: "'d \<Rightarrow> 's \<Rightarrow> 'v"
    and target :: "'s \<Rightarrow> 'a \<Rightarrow> 'd option" and inv :: "'s \<Rightarrow> bool"
  assumes view_step: "inv s \<Longrightarrow> target s a \<in> {None, Some d} \<Longrightarrow> step a (view d s) = apsnd (view d) (step a s)"
    and respects: "inv s \<Longrightarrow> target s a \<noteq> Some d \<Longrightarrow> held d (snd (step a s)) = held d s"
    and inv_step: "inv s \<Longrightarrow> inv (snd (step a s))"
    and target_view: "target (view d s) a = target s a"
begin

lemma run_view:
  "inv s \<Longrightarrow> targets_within step target (\<lambda>t. t \<in> {None, Some d}) as s \<Longrightarrow>
     run step as (view d s) = apsnd (view d) (run step as s)"
proof (induction as arbitrary: s)
  case (Cons a as)
  obtain out s1 where a: "step a s = (out, s1)" by (cases "step a s")
  with Cons.prems have "step a (view d s) = (out, view d s1)" using view_step [of s a d] by simp
  moreover have "run step as (view d s1) = apsnd (view d) (run step as s1)"
    using Cons a inv_step [of s a] by simp
  ultimately show ?case using a by (simp add: apsnd_apfst_commute)
qed simp

lemma targets_view:
  "inv s \<Longrightarrow> targets_within step target (\<lambda>t. t \<in> {None, Some d}) as (view d s) \<longleftrightarrow>
     targets_within step target (\<lambda>t. t \<in> {None, Some d}) as s"
proof (induction as arbitrary: s)
  case (Cons a as)
  show ?case
  proof (cases "target s a \<in> {None, Some d}")
    case True
    with Cons.prems have "step a (view d s) = apsnd (view d) (step a s)" by (intro view_step)
    with Cons inv_step [of s a] target_view show ?thesis by simp
  qed (auto simp: target_view)
qed simp

text \<open>States with the same view answer alike and stay alike.\<close>

lemma run_alike:
  assumes "inv s" "inv t" "view d s = view d t" "targets_within step target (\<lambda>t. t \<in> {None, Some d}) as s"
  shows "fst (run step as s) = fst (run step as t) \<and> view d (snd (run step as s)) = view d (snd (run step as t))"
proof -
  have "targets_within step target (\<lambda>t. t \<in> {None, Some d}) as t"
    using assms targets_view by metis
  with assms have "apsnd (view d) (run step as s) = apsnd (view d) (run step as t)"
    using run_view by metis
  then show ?thesis by (simp add: prod_eq_iff)
qed

lemma run_respects:
  "inv s \<Longrightarrow> targets_within step target (\<lambda>t. t \<noteq> Some d) as s \<Longrightarrow> held d (snd (run step as s)) = held d s"
proof (induction as arbitrary: s)
  case (Cons a as)
  obtain out s1 where a: "step a s = (out, s1)" by (cases "step a s")
  then have "held d (snd (run step as s1)) = held d s1" using Cons inv_step [of s a] by simp
  moreover have "held d s1 = held d s" using Cons.prems respects [of s a d] a by simp
  ultimately show ?case using a by simp
qed simp

end

section \<open>The view of one tenant\<close>

text \<open>Everything but the databases of the others: the registry, the locks, the caches, the keys, the counters and the
  tenant's own database.\<close>

definition only :: "string \<Rightarrow> ProvisionWorld \<Rightarrow> ProvisionWorld" where
  "only n w = w\<lparr>pw_cluster := pw_cluster w |` {n}\<rparr>"

definition access_view :: "string \<Rightarrow> ('priv, 'pub) AccessWorld \<Rightarrow> ('priv, 'pub) AccessWorld" where
  "access_view n w = w\<lparr>ax_world := only n (ax_world w)\<rparr>"

definition tenant_view :: "string \<Rightarrow> ('priv, 'pub) System \<Rightarrow> ('priv, 'pub) System" where
  "tenant_view n s = s\<lparr>sy_access := access_view n (sy_access s)\<rparr>"

text \<open>The database a request works on: the one of the tenant its header names, or the one to be
  provisioned.\<close>

definition addressed :: "ProvisionWorld \<Rightarrow> Request \<Rightarrow> string option" where
  "addressed w req =
     (case tenantHeader req of
        None \<Rightarrow> None
      | Some header \<Rightarrow>
          (case resolveTenant (pw_tenants w) header of Inl _ \<Rightarrow> None | Inr tenant \<Rightarrow> Some (tn_databaseName tenant)))"

fun call_target :: "ProvisionWorld \<Rightarrow> call \<Rightarrow> Request \<Rightarrow> string option" where
  "call_target w GetUsers req = addressed w req"
| "call_target w GetJwks req = None"
| "call_target w (GetHealth report) req = None"
| "call_target w (PostLogin argon salt errors email password ip) req = addressed w req"
| "call_target w (PostRegister argon salt newId errors email password) req = addressed w req"
| "call_target w (PostTenants fs newId roleId errors slug name) req = tenantDatabaseName slug"

lemma only_simps [simp]:
  "pw_tenants (only n w) = pw_tenants w" "pw_locks (only n w) = pw_locks w" "pw_cluster (only n w) n = pw_cluster w n"
  "tables_of (only n w) n = tables_of w n" "only n (w\<lparr>pw_tenants := rows\<rparr>) = (only n w)\<lparr>pw_tenants := rows\<rparr>"
  "only n (w\<lparr>pw_locks := l\<rparr>) = (only n w)\<lparr>pw_locks := l\<rparr>"
  by (simp_all add: only_def tables_of_def)

lemma only_set [simp]:
  "only n (w\<lparr>pw_cluster := (pw_cluster w)(n \<mapsto> db)\<rparr>) = (only n w)\<lparr>pw_cluster := (pw_cluster (only n w))(n \<mapsto> db)\<rparr>"
  by (simp add: only_def)

lemma set_tables_only [simp]: "set_tables n t (only n w) = only n (set_tables n t w)"
  by (auto simp: set_tables_def split: option.split)

lemma access_view_simps [simp]:
  "ax_world (access_view n w) = only n (ax_world w)" "ax_masterUp (access_view n w) = ax_masterUp w"
  "ax_pools (access_view n w) = ax_pools w" "ax_keys (access_view n w) = ax_keys w" "ax_log (access_view n w) = ax_log w"
  "access_view n (w\<lparr>ax_pools := p\<rparr>) = (access_view n w)\<lparr>ax_pools := p\<rparr>"
  "access_view n (w\<lparr>ax_keys := k\<rparr>) = (access_view n w)\<lparr>ax_keys := k\<rparr>"
  "access_view n (w\<lparr>ax_log := l\<rparr>) = (access_view n w)\<lparr>ax_log := l\<rparr>"
  "access_view n (w\<lparr>ax_world := v\<rparr>) = (access_view n w)\<lparr>ax_world := only n v\<rparr>"
  by (simp_all add: access_view_def)

lemma tenant_view_simps [simp]:
  "sy_store (tenant_view n s) = sy_store s" "sy_access (tenant_view n s) = access_view n (sy_access s)"
  "sy_decoy (tenant_view n s) = sy_decoy s" "sy_verifications (tenant_view n s) = sy_verifications s"
  "sy_chain (tenant_view n s) = sy_chain s"
  "tenant_view n (s\<lparr>sy_store := st\<rparr>) = (tenant_view n s)\<lparr>sy_store := st\<rparr>"
  "tenant_view n (s\<lparr>sy_decoy := d\<rparr>) = (tenant_view n s)\<lparr>sy_decoy := d\<rparr>"
  "tenant_view n (s\<lparr>sy_verifications := v\<rparr>) = (tenant_view n s)\<lparr>sy_verifications := v\<rparr>"
  "tenant_view n (s\<lparr>sy_chain := c\<rparr>) = (tenant_view n s)\<lparr>sy_chain := c\<rparr>"
  "tenant_view n (s\<lparr>sy_access := w\<rparr>) = (tenant_view n s)\<lparr>sy_access := access_view n w\<rparr>"
  by (simp_all add: tenant_view_def)

section \<open>The guards through the view\<close>

lemma tenantGuard_view: "tenantGuard req (access_view n w) = apsnd (access_view n) (tenantGuard req w)"
  by (auto simp: tenantGuard_def split: option.split sum.split prod.split)

lemma accessTokenGuard_view: "accessTokenGuard sv m req (access_view n w) = apsnd (access_view n) (accessTokenGuard sv m req w)"
  by (auto simp: accessTokenGuard_def split: option.split sum.split prod.split)

lemma request_event_view:
  assumes "rq_tenantDb req = Some n"
  shows "request_event sv m req ev (access_view n w) = access_view n (request_event sv m req ev w)"
  using assms by (auto simp: request_event_def context_db_def split: option.split sum.split prod.split)

lemma permissionsGuard_view:
  assumes "rq_tenantDb req = Some n"
  shows "permissionsGuard sv m ps req (access_view n w) = apsnd (access_view n) (permissionsGuard sv m ps req w)"
  using request_event_view [OF assms] by (auto simp: permissionsGuard_def deny_def Let_def split: option.split)

lemma tenantGuard_database:
  assumes "tenantGuard req w = (Inr req', w')" "pools_ok w" "registry_ok (ax_world w)"
  shows "addressed (ax_world w) req \<noteq> None" and "rq_tenantDb req' = addressed (ax_world w) req"
    and "ax_world w' = ax_world w"
proof -
  obtain header tenant db pools where h: "tenantHeader req = Some header"
      "resolveTenant (pw_tenants (ax_world w)) header = Inr tenant" "getTenantDb tenant (ax_pools w) = (db, pools)"
      "req' = req\<lparr>rq_tenant := Some tenant, rq_tenantDb := Some db\<rparr>" "w' = w\<lparr>ax_pools := pools\<rparr>"
    using assms(1) by (auto simp: tenantGuard_def split: option.splits if_splits sum.splits prod.splits)
  obtain row where row: "row \<in> set (pw_tenants (ax_world w))" "tenant = toTenant row"
    by (rule resolveTenant_Inr [OF h(2)])
  have "db = tr_databaseName row" using getTenantDb_own [OF assms(2,3) row h(3)] by simp
  with h row(2) show "addressed (ax_world w) req \<noteq> None" "rq_tenantDb req' = addressed (ax_world w) req" "ax_world w' = ax_world w"
    by (simp_all add: addressed_def toTenant_def)
qed

lemma tenantGuard_world: "tenantGuard req w = (r, w') \<Longrightarrow> ax_world w' = ax_world w"
  by (auto simp: tenantGuard_def split: option.splits if_splits sum.splits prod.splits)

lemma accessTokenGuard_keeps:
  assumes "accessTokenGuard sv m req w = (r, w')"
  shows "ax_world w' = ax_world w" and "\<And>req'. r = Inr req' \<Longrightarrow> rq_tenantDb req' = rq_tenantDb req"
  using assms by (auto simp: accessTokenGuard_def split: option.splits if_splits sum.splits prod.splits)

lemma TenantAuthenticated_view:
  assumes "pools_ok w" "registry_ok (ax_world w)" "addressed (ax_world w) req \<in> {None, Some n}"
  shows "TenantAuthenticated sv m ps req (access_view n w) = apsnd (access_view n) (TenantAuthenticated sv m ps req w)"
proof -
  have "permissionsGuard sv m (Some ps) req2 (access_view n w2) = apsnd (access_view n) (permissionsGuard sv m (Some ps) req2 w2)"
    if "tenantGuard req w = (Inr req1, w1)" "accessTokenGuard sv m req1 w1 = (Inr req2, w2)" for req1 w1 req2 w2
    using that tenantGuard_database [OF that(1) assms(1,2)] accessTokenGuard_keeps [OF that(2)] assms(3)
    by (intro permissionsGuard_view) auto
  then show ?thesis
    by (auto simp: TenantAuthenticated_def tenantGuard_view accessTokenGuard_view split: prod.split sum.split)
qed

lemma set_tables_other [simp]: "k \<noteq> n \<Longrightarrow> pw_cluster (set_tables n t w) k = pw_cluster w k"
  by (simp add: set_tables_def split: option.split)

lemma request_event_other:
  "rq_tenantDb req \<noteq> Some k \<Longrightarrow> pw_cluster (ax_world (request_event sv m req ev w)) k = pw_cluster (ax_world w) k"
  by (auto simp: request_event_def context_db_def split: option.split sum.split prod.split)

lemma TenantAuthenticated_other:
  assumes "pools_ok w" "registry_ok (ax_world w)" "addressed (ax_world w) req \<noteq> Some k"
    and "TenantAuthenticated sv m ps req w = (r, w')"
  shows "pw_cluster (ax_world w') k = pw_cluster (ax_world w) k"
proof -
  have "pw_cluster (ax_world (snd (permissionsGuard sv m (Some ps) req2 w2))) k = pw_cluster (ax_world w) k"
    if "tenantGuard req w = (Inr req1, w1)" "accessTokenGuard sv m req1 w1 = (Inr req2, w2)" for req1 w1 req2 w2
    using that tenantGuard_database [OF that(1) assms(1,2)] accessTokenGuard_keeps [OF that(2)] assms(3)
    by (auto simp: permissionsGuard_def deny_def Let_def request_event_other split: option.split)
  then show ?thesis
    using assms(4) tenantGuard_world accessTokenGuard_keeps(1)
    by (fastforce simp: TenantAuthenticated_def split: prod.splits sum.splits)
qed

section \<open>The routes through the view\<close>

text \<open>The interface of the work behind a route: the tenant it is for, that it commutes with that tenant's
  view, and that it leaves the databases of the others.\<close>

definition guarded :: "('priv, 'pub) System \<Rightarrow> bool" where
  "guarded s \<longleftrightarrow> pools_ok (sy_access s) \<and> registry_ok (ax_world (sy_access s))"

lemma guarded_store [simp]: "guarded (s\<lparr>sy_store := st\<rparr>) = guarded s"
  by (simp add: guarded_def)

lemma sound_guarded: "system_sound sha s \<Longrightarrow> guarded s"
  by (simp add: guarded_def system_sound_def access_ok_def world_ok_def)

abbreviation database_of :: "('priv, 'pub) System \<Rightarrow> string \<Rightarrow> ClusterDatabase option" where
  "database_of s \<equiv> pw_cluster (ax_world (sy_access s))"

locale isolated_work =
  fixes work :: "Request \<Rightarrow> ('priv, 'pub) System \<Rightarrow> (app_error + payload) \<times> ('priv, 'pub) System"
    and subject :: "ProvisionWorld \<Rightarrow> Request \<Rightarrow> string option"
  assumes subject_context: "subject w (req\<lparr>rq_context := ctx\<rparr>) = subject w req"
    and work_view: "guarded s \<Longrightarrow> subject (ax_world (sy_access s)) req \<in> {None, Some n} \<Longrightarrow>
      work req (tenant_view n s) = apsnd (tenant_view n) (work req s)"
    and work_other: "guarded s \<Longrightarrow> subject (ax_world (sy_access s)) req \<noteq> Some k \<Longrightarrow>
      database_of (snd (work req s)) k = database_of s k"
begin

lemma route_view:
  assumes "guarded s" "subject (ax_world (sy_access s)) req \<in> {None, Some n}"
    and "route sv traceId limit exempt status raw work req s = (r, s', log)"
  shows "route sv traceId limit exempt status raw work req (tenant_view n s) = (r, tenant_view n s', log)"
proof -
  have "work (req\<lparr>rq_context := ctx\<rparr>) ((tenant_view n s)\<lparr>sy_store := st\<rparr>) =
      apsnd (tenant_view n) (work (req\<lparr>rq_context := ctx\<rparr>) (s\<lparr>sy_store := st\<rparr>))" for ctx st
    using work_view [of "s\<lparr>sy_store := st\<rparr>" "req\<lparr>rq_context := ctx\<rparr>" n] assms(1,2) by (simp add: subject_context)
  then show ?thesis
    using assms(3) by (auto simp: route_def Let_def split: prod.splits sum.splits)
qed

lemma route_other:
  assumes "guarded s" "subject (ax_world (sy_access s)) req \<noteq> Some k"
    and "route sv traceId limit exempt status raw work req s = (r, s', log)"
  shows "database_of s' k = database_of s k"
proof -
  have "database_of (snd (work (req\<lparr>rq_context := ctx\<rparr>) (s\<lparr>sy_store := st\<rparr>))) k = database_of s k" for ctx st
    using work_other [of "s\<lparr>sy_store := st\<rparr>" "req\<lparr>rq_context := ctx\<rparr>" k] assms(1,2) by (simp add: subject_context)
  then have "database_of s2 k = database_of s k"
    if "work (req\<lparr>rq_context := ctx\<rparr>) (s\<lparr>sy_store := st\<rparr>) = (x, s2)" for ctx st x s2
    using that by (metis snd_conv)
  then show ?thesis
    using assms(3) by (auto simp: route_def Let_def split: prod.splits sum.splits)
qed

end

lemma headers_of_context [simp]:
  "tenantHeader (req\<lparr>rq_context := ctx\<rparr>) = tenantHeader req" "bearerToken (req\<lparr>rq_context := ctx\<rparr>) = bearerToken req"
  by (simp_all add: tenantHeader_def bearerToken_def singleAuthorizationHeader_def cong: option.case_cong)

lemma addressed_context [simp]: "addressed w (req\<lparr>rq_context := ctx\<rparr>) = addressed w req"
  by (simp add: addressed_def)

lemma users_list_view:
  "rq_tenantDb req = Some n \<Longrightarrow> users_list req (access_view n w) = users_list req w"
  by (simp add: users_list_def context_db_def)

lemma TenantAuthenticated_database:
  assumes "TenantAuthenticated sv m ps req w = (Inr req', w')" "pools_ok w" "registry_ok (ax_world w)"
  shows "rq_tenantDb req' = addressed (ax_world w) req \<and> addressed (ax_world w) req \<noteq> None"
proof -
  obtain req1 w1 req2 w2 where g: "tenantGuard req w = (Inr req1, w1)" "accessTokenGuard sv m req1 w1 = (Inr req2, w2)"
      "permissionsGuard sv m (Some ps) req2 w2 = (Inr req', w')"
    using assms(1) by (auto simp: TenantAuthenticated_def split: prod.splits sum.splits)
  from tenantGuard_database [OF g(1) assms(2,3)] accessTokenGuard_keeps(2) [OF g(2)] permissionsGuard_Inr [OF g(3)]
  show ?thesis by auto
qed

interpretation users: isolated_work "users_work sv m" addressed for sv m
proof
  fix s :: "('a, 'b) System" and req n k
  assume s: "guarded s"
  {
    assume n: "addressed (ax_world (sy_access s)) req \<in> {None, Some n}"
    have "users_list req' (access_view n w) = users_list req' w"
      if "TenantAuthenticated sv m [usersRead] req (sy_access s) = (Inr req', w)" for req' w
      using TenantAuthenticated_database [OF that] s n by (auto simp: guarded_def intro!: users_list_view)
    with s n show "users_work sv m req (tenant_view n s) = apsnd (tenant_view n) (users_work sv m req s)"
      by (auto simp: users_work_def TenantAuthenticated_view guarded_def split: prod.split sum.split)
  next
    assume "addressed (ax_world (sy_access s)) req \<noteq> Some k"
    with s show "database_of (snd (users_work sv m req s)) k = database_of s k"
      by (auto simp: users_work_def guarded_def dest: TenantAuthenticated_other split: prod.split sum.split)
  }
qed simp

interpretation health: isolated_work "\<lambda>_ s. (f, s)" "\<lambda>_ _. None" for f
  by unfold_locales simp_all

interpretation jwks: isolated_work "\<lambda>_ s. (f (ax_keys (sy_access s)), s)" "\<lambda>_ _. None" for f
  by unfold_locales simp_all

text \<open>The authentication service, on the tables behind the pool of the addressed tenant.\<close>

lemma auth_view [simp]:
  "auth_world (Some n) ((tenant_view n s)\<lparr>sy_access := access_view n w\<rparr>) = auth_world (Some n) (s\<lparr>sy_access := w\<rparr>)"
  "auth_done (Some n) aw ((tenant_view n s)\<lparr>sy_access := access_view n w\<rparr>) =
     tenant_view n (auth_done (Some n) aw (s\<lparr>sy_access := w\<rparr>))"
  by (simp_all add: auth_world_def auth_done_def)

lemma auth_done_other: "k \<noteq> n \<Longrightarrow> database_of (auth_done (Some n) aw s) k = database_of s k"
  by (simp add: auth_done_def)

lemma guarded_tenant:
  assumes "guarded s" "tenantGuard req (sy_access s) = (Inr req', w)"
  obtains n where "addressed (ax_world (sy_access s)) req = Some n" "rq_tenantDb req' = Some n" "ax_world w = ax_world (sy_access s)"
  using tenantGuard_database [OF assms(2)] assms(1) by (auto simp: guarded_def)

interpretation login: isolated_work "login_work sv m argon salt errors email password ip" addressed
  for sv m argon salt errors email password ip
proof
  fix s :: "('a, 'b) System" and req n k
  assume s: "guarded s"
  {
    assume "addressed (ax_world (sy_access s)) req \<in> {None, Some n}"
    then have "rq_tenantDb req' = Some n" if "tenantGuard req (sy_access s) = (Inr req', w)" for req' w
      by (rule_tac guarded_tenant [OF s that]) simp
    then show "login_work sv m argon salt errors email password ip req (tenant_view n s) =
        apsnd (tenant_view n) (login_work sv m argon salt errors email password ip req s)"
      by (auto simp: login_work_def tenantGuard_view Let_def split: prod.split sum.split)
  next
    assume "addressed (ax_world (sy_access s)) req \<noteq> Some k"
    with s show "database_of (snd (login_work sv m argon salt errors email password ip req s)) k = database_of s k"
      by (auto simp: login_work_def Let_def auth_done_other tenantGuard_world elim!: guarded_tenant split: prod.split sum.split)
  }
qed simp

interpretation register: isolated_work "register_work sv m argon salt newId errors email password" addressed
  for sv m argon salt newId errors email password
proof
  fix s :: "('a, 'b) System" and req n k
  assume s: "guarded s"
  {
    assume "addressed (ax_world (sy_access s)) req \<in> {None, Some n}"
    then have "rq_tenantDb req' = Some n" if "tenantGuard req (sy_access s) = (Inr req', w)" for req' w
      by (rule_tac guarded_tenant [OF s that]) simp
    then show "register_work sv m argon salt newId errors email password req (tenant_view n s) =
        apsnd (tenant_view n) (register_work sv m argon salt newId errors email password req s)"
      by (auto simp: register_work_def tenantGuard_view Let_def split: prod.split sum.split)
  next
    assume "addressed (ax_world (sy_access s)) req \<noteq> Some k"
    with s show "database_of (snd (register_work sv m argon salt newId errors email password req s)) k = database_of s k"
      by (auto simp: register_work_def Let_def auth_done_other tenantGuard_world elim!: guarded_tenant split: prod.split sum.split)
  }
qed simp

text \<open>Provisioning, on the database of its slug.\<close>

lemma provisioning_steps_view:
  "registerOrResume fs newId slug name n (only k w) = apsnd (only k) (registerOrResume fs newId slug name n w)"
  "createDatabase fs n (only n w) = apsnd (only n) (createDatabase fs n w)"
  "initializeTenantDatabase fs roleId n tid (only n w) = apsnd (only n) (initializeTenantDatabase fs roleId n tid w)"
  "activateTenant fs tid (only k w) = apsnd (only k) (activateTenant fs tid w)"
  by (auto simp: registerOrResume_def createDatabase_def initializeTenantDatabase_def activateTenant_def Let_def
      write_step_def split: option.split fault.split)

lemma provisionTenant_view:
  assumes "tenantDatabaseName slug \<in> {None, Some n}"
  shows "provisionTenant sha fs newId roleId slug name (only n w) = apsnd (only n) (provisionTenant sha fs newId roleId slug name w)"
proof -
  have "provision_locked fs newId roleId slug name n (only n v) = apsnd (only n) (provision_locked fs newId roleId slug name n v)" for v
    by (auto simp: provision_locked_def provisioning_steps_view split: prod.split sum.split)
  moreover have "(only n w)\<lparr>pw_locks := l\<rparr> = only n (w\<lparr>pw_locks := l\<rparr>)" for l w by simp
  ultimately show ?thesis
    using assms
    by (auto simp: provisionTenant_def lockProvisioning_def releaseLock_def Let_def simp del: only_simps(5,6) split: option.split prod.split)
qed

lemma provisioning_steps_other:
  assumes "k \<noteq> n"
  shows "pw_cluster (snd (createDatabase fs n w)) k = pw_cluster w k"
    and "pw_cluster (snd (initializeTenantDatabase fs roleId n tid w)) k = pw_cluster w k"
    and "pw_cluster (snd (activateTenant fs tid w)) = pw_cluster w"
  using assms
  by (auto simp: createDatabase_def initializeTenantDatabase_def activateTenant_def Let_def
      write_step_def split: option.split fault.split)

lemma provisionTenant_other:
  assumes "tenantDatabaseName slug \<noteq> Some k"
  shows "pw_cluster (snd (provisionTenant sha fs newId roleId slug name w)) k = pw_cluster w k"
proof (cases "tenantDatabaseName slug")
  case (Some n)
  with assms have n: "k \<noteq> n" by simp
  have "pw_cluster (snd (provision_locked fs newId roleId slug name n v)) k = pw_cluster v k" for v
    by (cases rule: provision_locked_cases [of fs newId slug name n v roleId])
      (use registerOrResume_cluster [of fs newId slug name n v] provisioning_steps_other [OF n] in \<open>auto, (metis snd_conv)+\<close>)
  with Some show ?thesis
    by (auto simp: provisionTenant_def lockProvisioning_def releaseLock_def Let_def split: prod.split)
      (metis ProvisionWorld.select_convs(2) ProvisionWorld.surjective ProvisionWorld.update_convs(3) snd_conv)+
qed (simp add: provisionTenant_def)

interpretation tenants: isolated_work "tenants_work sv m fs newId roleId errors slug name" "\<lambda>_ _. tenantDatabaseName slug"
  for sv m fs newId roleId errors slug name
proof
  fix s :: "('a, 'b) System" and req n k
  {
    assume "tenantDatabaseName slug \<in> {None, Some n}"
    from provisionTenant_view [OF this]
    show "tenants_work sv m fs newId roleId errors slug name req (tenant_view n s) =
        apsnd (tenant_view n) (tenants_work sv m fs newId roleId errors slug name req s)"
      by (auto simp: tenants_work_def provision_def split: prod.split sum.split)
  next
    assume "tenantDatabaseName slug \<noteq> Some k"
    then have "pw_cluster w k = database_of s k"
      if "provisionTenant (sv_sha sv) fs newId roleId slug name (ax_world (sy_access s)) = (r, w)" for r w
      using provisionTenant_other that by (metis snd_conv)
    then show "database_of (snd (tenants_work sv m fs newId roleId errors slug name req s)) k = database_of s k"
      by (auto simp: tenants_work_def provision_def split: prod.split sum.split)
  }
qed simp

section \<open>Requests\<close>

type_synonym sent = "Moment \<times> string \<times> call \<times> Request"

definition serve :: "('priv, 'pub) Service \<Rightarrow> sent \<Rightarrow> ('priv, 'pub) System \<Rightarrow> (Response \<times> error_line list) \<times> ('priv, 'pub) System" where
  "serve sv x s = (case x of (m, traceId, call, req) \<Rightarrow> (case handle sv m traceId call req s of (r, s', log) \<Rightarrow> ((r, log), s')))"

definition request_target :: "('priv, 'pub) System \<Rightarrow> sent \<Rightarrow> string option" where
  "request_target s x = (case x of (m, traceId, call, req) \<Rightarrow> call_target (ax_world (sy_access s)) call req)"

lemma handle_view:
  assumes "guarded s" "call_target (ax_world (sy_access s)) call req \<in> {None, Some n}"
    and "handle sv m traceId call req s = (r, s', log)"
  shows "handle sv m traceId call req (tenant_view n s) = (r, tenant_view n s', log)"
proof (cases call)
  case GetUsers
  with assms show ?thesis by (simp add: get_users_def users.route_view)
next
  case GetJwks
  let ?f = "\<lambda>k. Inr (Bare (Some (JObj [(''keys'', JArr (map JObj (jwks (rg_snapshot k) (mo_now m))))])))"
  have "route sv traceId None False 200 True (\<lambda>_ s. (?f (ax_keys (sy_access s)), s)) req (tenant_view n s) =
      (r0, tenant_view n s', log)"
    if "route sv traceId None False 200 True (\<lambda>_ s. (?f (ax_keys (sy_access s)), s)) req s = (r0, s', log)" for r0
    by (rule jwks.route_view [where f = ?f, OF assms(1) _ that]) simp
  with GetJwks assms(3) show ?thesis by (auto simp: get_jwks_def split: prod.splits)
next
  case (GetHealth report)
  with assms show ?thesis by (simp add: get_health_def health.route_view)
next
  case (PostLogin argon salt errors email password ip)
  with assms show ?thesis by (simp add: post_login_def login.route_view)
next
  case (PostRegister argon salt newId errors email password)
  with assms show ?thesis by (simp add: post_register_def register.route_view)
next
  case (PostTenants fs newId roleId errors slug name)
  with assms show ?thesis by (simp add: post_tenants_def tenants.route_view)
qed

lemma handle_other:
  assumes "guarded s" "call_target (ax_world (sy_access s)) call req \<noteq> Some k"
    and "handle sv m traceId call req s = (r, s', log)"
  shows "database_of s' k = database_of s k"
proof (cases call)
  case GetUsers
  with assms show ?thesis by (intro users.route_other) (simp_all add: get_users_def)
next
  case GetJwks
  let ?f = "\<lambda>k. Inr (Bare (Some (JObj [(''keys'', JArr (map JObj (jwks (rg_snapshot k) (mo_now m))))])))"
  obtain r0 where "route sv traceId None False 200 True (\<lambda>_ s. (?f (ax_keys (sy_access s)), s)) req s = (r0, s', log)"
    using GetJwks assms(3) by (auto simp: get_jwks_def split: prod.splits)
  from jwks.route_other [where f = ?f, OF assms(1) _ this] show ?thesis by simp
next
  case (GetHealth report)
  with assms(3) have "route sv traceId None True 200 False (\<lambda>_ s. (Inr (Bare (Some report)), s)) req s = (r, s', log)"
    by (simp add: get_health_def)
  from health.route_other [OF assms(1) _ this] show ?thesis by simp
next
  case (PostLogin argon salt errors email password ip)
  with assms show ?thesis by (intro login.route_other) (simp_all add: post_login_def)
next
  case (PostRegister argon salt newId errors email password)
  with assms show ?thesis by (intro register.route_other) (simp_all add: post_register_def)
next
  case (PostTenants fs newId roleId errors slug name)
  with assms show ?thesis by (intro tenants.route_other) (simp_all add: post_tenants_def)
qed

lemma call_target_view [simp]: "call_target (only n w) call req = call_target w call req"
  by (cases call) (auto simp: addressed_def split: option.split)

interpretation tenancy: separated "serve sv" tenant_view "\<lambda>n s. database_of s n" request_target "system_sound (sv_sha sv)" for sv
proof
  fix s :: "('a, 'b) System" and x :: sent and n
  obtain m traceId call req where x: "x = (m, traceId, call, req)" by (cases x)
  obtain r s' log where run: "handle sv m traceId call req s = (r, s', log)" by (cases "handle sv m traceId call req s")
  assume s: "system_sound (sv_sha sv) s"
  note g = sound_guarded [OF s]
  show "serve sv x (tenant_view n s) = apsnd (tenant_view n) (serve sv x s)" if "request_target s x \<in> {None, Some n}"
    using handle_view [OF g _ run] that by (simp add: serve_def request_target_def x run)
  show "database_of (snd (serve sv x s)) n = database_of s n" if "request_target s x \<noteq> Some n"
    using handle_other [OF g _ run] that by (simp add: serve_def request_target_def x run)
  show "system_sound (sv_sha sv) (snd (serve sv x s))"
    using handle_evolves [OF run] s by (simp add: serve_def x run evolves_def)
qed (simp add: request_target_def split: prod.split)

text \<open>C6: A tenant's answers depend on no other tenant's data. Take two sound deployments that agree on everything but
  the databases of other tenants, and send both the same requests, each for this tenant or for none.
  Every answer, its status, headers, body and the lines it logs are the same, and afterwards the two still
  agree on everything but those databases, this tenant's own data included.\<close>

theorem answers_ignore_other_tenants:
  assumes "system_sound (sv_sha sv) s" and "system_sound (sv_sha sv) t" and "tenant_view n s = tenant_view n t"
    and "targets_within (serve sv) request_target (\<lambda>d. d \<in> {None, Some n}) requests s"
  shows "fst (run (serve sv) requests s) = fst (run (serve sv) requests t) \<and>
    tenant_view n (snd (run (serve sv) requests s)) = tenant_view n (snd (run (serve sv) requests t)) \<and>
    database_of (snd (run (serve sv) requests s)) n = database_of (snd (run (serve sv) requests t)) n"
proof -
  have "database_of (tenant_view n u) n = database_of u n" for u :: "('a, 'b) System" by simp
  with tenancy.run_alike [OF assms] show ?thesis by metis
qed

text \<open>C7: No request touches another tenant's data. Whatever requests a sound deployment serves, a database that none of
  them is for is left exactly as it was: its users, roles, audit rows and marker.\<close>

theorem requests_leave_other_tenants:
  assumes "system_sound (sv_sha sv) s"
    and "targets_within (serve sv) request_target (\<lambda>d. d \<noteq> Some n) requests s"
  shows "database_of (snd (run (serve sv) requests s)) n = database_of s n"
  by (rule tenancy.run_respects [OF assms])

section \<open>Two tenants\<close>

text \<open>The demonstration service with a second tenant whose database holds, or does not hold, a user.\<close>

definition two_tenants :: "UserRow list \<Rightarrow> (bytes, JWK) System" where
  "two_tenants others =
     demo_system\<lparr>sy_access := demo_access\<lparr>ax_world :=
       \<lparr>pw_tenants = [tenant_row ''t1'' ''acme'' ''Acme'' ''tenant_acme'' ts_active,
                     tenant_row ''t2'' ''globex'' ''Globex'' ''tenant_globex'' ts_active],
        pw_cluster = [''tenant_acme'' \<mapsto> built ''r1'' ''t1'',
                      ''tenant_globex'' \<mapsto> (built ''r2'' ''t2'')\<lparr>cd_tables :=
                         map_option (td_users_update (\<lambda>_. others)) (cd_tables (built ''r2'' ''t2''))\<rparr>],
        pw_locks = []\<rparr>\<rparr>\<rparr>"

lemma two_tenants_sound: "system_sound sha (two_tenants others)"
proof -
  have "chains_ok sha (ax_world (sy_access (two_tenants others)))"
    by (auto simp: chains_ok_def two_tenants_def tables_of_def built_chain split: if_splits)
  moreover have "world_ok (ax_world (sy_access (two_tenants others)))"
    by (simp add: two_tenants_def world_defs built_def)
  ultimately show ?thesis
    by (simp add: system_sound_def access_ok_def pools_ok_def) (simp add: two_tenants_def demo_system_def)
qed

lemma two_tenants_target:
  "request_target (two_tenants others) (demo_moment, ''trace'', GetUsers, demo_req) = Some ''tenant_acme''"
  by (simp add: request_target_def addressed_def demo_headers resolveTenant_def two_tenants_def toTenant_def)

theorem answers_ignore_other_tenants_witness:
  "fst (run (serve demo_service) [(demo_moment, ''trace'', GetUsers, demo_req)] (two_tenants [])) =
   fst (run (serve demo_service) [(demo_moment, ''trace'', GetUsers, demo_req)]
     (two_tenants [\<lparr>ur_id = ''u9'', ur_email = ''eve@globex'', ur_passwordHash = ''h'', ur_status = us_active, ur_createdAt = ''c''\<rparr>]))"
proof -
  let ?eve = "\<lparr>ur_id = ''u9'', ur_email = ''eve@globex'', ur_passwordHash = ''h'', ur_status = us_active, ur_createdAt = ''c''\<rparr>"
  have "tenant_view ''tenant_acme'' (two_tenants []) = tenant_view ''tenant_acme'' (two_tenants [?eve])"
    by (simp add: two_tenants_def tenant_view_def access_view_def only_def)
  moreover have "targets_within (serve demo_service) request_target (\<lambda>d. d \<in> {None, Some ''tenant_acme''})
      [(demo_moment, ''trace'', GetUsers, demo_req)] (two_tenants [])"
    by (simp add: two_tenants_target)
  ultimately show ?thesis
    using answers_ignore_other_tenants [OF two_tenants_sound two_tenants_sound] by blast
qed

theorem requests_leave_other_tenants_witness:
  "database_of (snd (run (serve demo_service) [(demo_moment, ''trace'', GetUsers, demo_req)] (two_tenants []))) ''tenant_globex'' =
   database_of (two_tenants []) ''tenant_globex''"
  by (rule requests_leave_other_tenants [OF two_tenants_sound]) (simp add: two_tenants_target)

end
