(* ===== verification/Operator_Tools.thy ===== *)
theory Operator_Tools
  imports Tokens Provisioning
begin

text \<open>
  The operator commands of \<open>packages/db/src\<close> around the operations they call: the key manager
  (\<open>keys/manage-keys.ts\<close>), the token decoder (\<open>keys/decode-token.ts\<close>), the administrator seed
  (\<open>seed/seed-tenant-admin.ts\<close>) and the chain verifier (\<open>audit/verify-chain.ts\<close>). A command that exits
  with status 1 answers with the reason; what it prints otherwise is its result. \<open>Number\<close> is an argument.
\<close>

datatype CliError =
    MissingRequired "string list"
  | ShortPassword
  | MissingEnvironment
  | BadKek
  | UnknownPurposeArg string
  | UnknownCommand string
  | BadTarget
  | BadPageSize
  | SeedFailed SeedError
  | KeyCommandFailed key_db_error
  | ResolveFailed DomainError
  | NoToken
  | NotNested nat
  | DecodeFailed token_error

text \<open>A missing variable and an empty one are both falsy.\<close>

definition truthy :: "string option \<Rightarrow> bool" where
  "truthy v = (case v of None \<Rightarrow> False | Some s \<Rightarrow> s \<noteq> [])"

section \<open>The administrator seed\<close>

definition seed_main ::
    "Argon2 \<Rightarrow> string \<Rightarrow> string \<Rightarrow> string \<Rightarrow> env \<Rightarrow> string list \<Rightarrow> ProvisionWorld \<Rightarrow> (CliError + SeedResult) \<times> ProvisionWorld" where
  "seed_main argon salt newId now env argv w =
     (let args = parseArgs argv Map.empty;
          password = (case env ''SEED_ADMIN_PASSWORD'' of Some p \<Rightarrow> Some p | None \<Rightarrow> args ''password'');
          missing = (if truthy (args ''tenant'') then [] else [''--tenant'']) @
                    (if truthy (args ''email'') then [] else [''--email'']) @
                    (if truthy password then [] else [''--password or SEED_ADMIN_PASSWORD''])
      in if 0 < length missing then (Inl (MissingRequired missing), w)
         else if length (the password) < 12 then (Inl ShortPassword, w)
         else if \<not> truthy (env ''MASTER_DATABASE_URL'') \<or> \<not> truthy (env ''TENANT_CLUSTER_URL'') then (Inl MissingEnvironment, w)
         else
           (case seedTenantAdmin argon salt newId now (the (args ''tenant'')) (the (args ''email'')) (the password) w of
              (Inl e, w') \<Rightarrow> (Inl (SeedFailed e), w')
            | (Inr result, w') \<Rightarrow> (Inr result, w')))"

section \<open>The key manager\<close>

definition resolvePurpose :: "string option \<Rightarrow> CliError + string option" where
  "resolvePurpose v =
     (if \<not> truthy v then Inr None
      else if v = Some ''signing'' \<or> v = Some token_signing then Inr (Some token_signing)
      else if v = Some ''encryption'' \<or> v = Some token_encryption then Inr (Some token_encryption)
      else Inl (UnknownPurposeArg (the v)))"

text \<open>The keys a command draws, one for each purpose it goes through.\<close>

definition picks_for :: "(string \<Rightarrow> FreshKey) \<Rightarrow> string option \<Rightarrow> (string \<times> FreshKey) list" where
  "picks_for fresh only = map (\<lambda>p. (p, fresh p)) (case only of Some p \<Rightarrow> [p] | None \<Rightarrow> PURPOSES)"

definition key_outcome :: "key_db_error option \<times> StoredKeyRow list \<Rightarrow> (CliError + unit) \<times> StoredKeyRow list" where
  "key_outcome r = (case r of (None, rows) \<Rightarrow> (Inr (), rows) | (Some e, rows) \<Rightarrow> (Inl (KeyCommandFailed e), rows))"

definition keys_main ::
    "Gcm \<Rightarrow> (string \<Rightarrow> int option) \<Rightarrow> (string \<Rightarrow> FreshKey) \<Rightarrow> int \<Rightarrow> env \<Rightarrow> string list \<Rightarrow> StoredKeyRow list \<Rightarrow>
     (CliError + unit) \<times> StoredKeyRow list" where
  "keys_main gcm num fresh now env argv rows =
     (let args = parseArgs argv Map.empty;
          command = (case find (\<lambda>a. \<not> startsWith a ''--'') argv of Some c \<Rightarrow> c | None \<Rightarrow> ''list'')
      in if \<not> truthy (env ''MASTER_DATABASE_URL'') \<or> \<not> truthy (env ''KEY_ENCRYPTION_KEY'') then (Inl MissingEnvironment, rows)
         else
           (case newLocalKeyProvider (base64url_decode (the (env ''KEY_ENCRYPTION_KEY''))) of
              Inl _ \<Rightarrow> (Inl BadKek, rows)
            | Inr provider \<Rightarrow>
                if command = ''init'' then
                  key_outcome (init gcm provider now (overlapSeconds num env) (picks_for fresh None) rows)
                else if command = ''rotate'' then
                  (case resolvePurpose (args ''purpose'') of
                     Inl e \<Rightarrow> (Inl e, rows)
                   | Inr only \<Rightarrow> key_outcome (rotate gcm provider now (overlapSeconds num env) (picks_for fresh only) rows))
                else if command = ''list'' then (Inr (), rows)
                else if command = ''revoke'' then
                  if \<not> truthy (args ''kid'') \<or> \<not> truthy (args ''reason'') then (Inl (MissingRequired [''--kid'', ''--reason'']), rows)
                  else key_outcome (revoke now (the (args ''kid'')) (the (args ''reason'')) rows)
                else (Inl (UnknownCommand command), rows)))"

section \<open>The token decoder\<close>

record ('priv, 'pub) Decoder =
  dc_signing :: "(string \<times> 'pub \<times> KeyState \<times> int option) list"
  dc_encryption :: "(string \<times> bytes \<times> KeyState \<times> int option) list"

definition decoder_row ::
    "Gcm \<Rightarrow> ('priv, 'pub, 'z) Jose_scheme \<Rightarrow> LocalKeyProvider \<Rightarrow> StoredKeyRow \<Rightarrow> ('priv, 'pub) Decoder \<Rightarrow> ('priv, 'pub) Decoder" where
  "decoder_row gcm kj provider row d =
     (if kr_wrappedKey row = None then d
      else
        (case loadStoredKey gcm kj provider row of
           Inl _ \<Rightarrow> d
         | Inr (LoadedSigningKey kid _ pub _) \<Rightarrow>
             d\<lparr>dc_signing := map_set kid (pub, kr_state row, kr_notAfter row) (dc_signing d)\<rparr>
         | Inr (LoadedEncryptionKey kid secret) \<Rightarrow>
             d\<lparr>dc_encryption := map_set kid (secret, kr_state row, kr_notAfter row) (dc_encryption d)\<rparr>))"

definition decoder_keys ::
    "Gcm \<Rightarrow> ('priv, 'pub, 'z) Jose_scheme \<Rightarrow> LocalKeyProvider \<Rightarrow> StoredKeyRow list \<Rightarrow> ('priv, 'pub) Decoder" where
  "decoder_keys gcm kj provider rows =
     fold (decoder_row gcm kj provider) (filter (\<lambda>r. kr_state r \<in> {ks_active, ks_retiring}) rows)
       \<lparr>dc_signing = [], dc_encryption = []\<rparr>"

definition usable :: "int \<Rightarrow> ('k \<times> KeyState \<times> int option) option \<Rightarrow> 'k option" where
  "usable now entry =
     (case entry of None \<Rightarrow> None | Some (k, state, notAfter) \<Rightarrow> if isKeyUsable state notAfter now then Some k else None)"

definition decoder_policy :: "(string \<Rightarrow> int) \<Rightarrow> env \<Rightarrow> TokenPolicy" where
  "decoder_policy number env =
     \<lparr>tp_issuer = (case env ''JWT_ISSUER'' of Some s \<Rightarrow> s | None \<Rightarrow> []),
      tp_audience = (case env ''JWT_AUDIENCE'' of Some s \<Rightarrow> s | None \<Rightarrow> []),
      tp_ttlSeconds = (case env ''JWT_ACCESS_TTL_SECONDS'' of Some s \<Rightarrow> number s | None \<Rightarrow> 900),
      tp_clockToleranceSeconds = Some (case env ''JWT_CLOCK_TOLERANCE_SECONDS'' of Some s \<Rightarrow> number s | None \<Rightarrow> 5)\<rparr>"

record DecodeReport =
  dr_outerHeader :: claims
  dr_innerHeader :: claims
  dr_activeSigningKid :: "string option"
  dr_signedByActiveKey :: bool
  dr_signingKeys :: nat
  dr_encryptionKeys :: nat
  dr_tokenBytes :: nat
  dr_claims :: claims

definition decode_main ::
    "Gcm \<Rightarrow> ('priv, 'pub, 'z) Jose_scheme \<Rightarrow> ('priv, 'pub) TokenJose \<Rightarrow> (string \<Rightarrow> int) \<Rightarrow> int \<Rightarrow> env \<Rightarrow> string \<Rightarrow> StoredKeyRow list \<Rightarrow>
     CliError + DecodeReport" where
  "decode_main gcm kj jose number now env token rows =
     (if token = [] then Inl NoToken
      else
        let segments = length (split_on (CHR ''.'') token) in
        if segments \<noteq> 5 then Inl (NotNested segments)
        else if \<not> truthy (env ''MASTER_DATABASE_URL'') \<or> \<not> truthy (env ''KEY_ENCRYPTION_KEY'') then Inl MissingEnvironment
        else
          (case newLocalKeyProvider (base64url_decode (the (env ''KEY_ENCRYPTION_KEY''))) of
             Inl _ \<Rightarrow> Inl BadKek
           | Inr provider \<Rightarrow>
               let d = decoder_keys gcm kj provider rows;
                   activeSigningKid = map_option kr_kid
                     (find (\<lambda>r. kr_purpose r = token_signing \<and> kr_state r = ks_active)
                       (filter (\<lambda>r. kr_state r \<in> {ks_active, ks_retiring}) rows))
               in case verifyNestedToken jose now token (\<lambda>kid. usable now (map_of (dc_signing d) kid))
                        (\<lambda>kid. usable now (map_of (dc_encryption d) kid)) (decoder_policy number env) of
                    Inl e \<Rightarrow> Inl (DecodeFailed e)
                  | Inr v \<Rightarrow>
                      Inr \<lparr>dr_outerHeader = vt_outerHeader v, dr_innerHeader = vt_innerHeader v,
                           dr_activeSigningKid = activeSigningKid,
                           dr_signedByActiveKey = (jget (vt_innerHeader v) ''kid'' = map_option JStr activeSigningKid),
                           dr_signingKeys = length (dc_signing d), dr_encryptionKeys = length (dc_encryption d),
                           dr_tokenBytes = length token, dr_claims = vt_claims v\<rparr>))"

section \<open>The chain verifier\<close>

text \<open>Here a flag without a value is \<open>true\<close>, which is None.\<close>

fun verify_parseArgs :: "string list \<Rightarrow> (string \<Rightarrow> string option option) \<Rightarrow> (string \<Rightarrow> string option option)" where
  "verify_parseArgs [] out = out"
| "verify_parseArgs (arg # rest) out =
     (if \<not> startsWith arg ''--'' then verify_parseArgs rest out
      else
        (case split_flag (drop 2 arg) of
           (flag, Some v) \<Rightarrow> verify_parseArgs rest (out(flag \<mapsto> Some v))
         | (flag, None) \<Rightarrow>
             (case rest of
                [] \<Rightarrow> out(flag \<mapsto> None)
              | v # rest' \<Rightarrow>
                  if \<not> startsWith v ''--'' then verify_parseArgs rest' (out(flag \<mapsto> Some v))
                  else verify_parseArgs rest (out(flag \<mapsto> None)))))"

text \<open>\<open>number\<close> answers None for what is not an integer. The tables are those behind the pool of the
  resolved tenant, or the control plane's own.\<close>

definition verify_main ::
    "(bytes \<Rightarrow> bytes) \<Rightarrow> (string \<Rightarrow> int option) \<Rightarrow> env \<Rightarrow> string list \<Rightarrow> ProvisionWorld \<Rightarrow> AuditTable \<Rightarrow>
     CliError + VerifyOutcome" where
  "verify_main sha number env argv w chain =
     (let args = verify_parseArgs argv Map.empty;
          wantsMaster = (args ''master'' = Some None \<or> args ''master'' = Some (Some ''true''))
      in if \<not> truthy (env ''MASTER_DATABASE_URL'') then Inl MissingEnvironment
         else if args ''tenant'' = Some None then Inl BadTarget
         else
           let tenant = (case args ''tenant'' of Some v \<Rightarrow> v | None \<Rightarrow> None) in
           if wantsMaster = truthy tenant then Inl BadTarget
           else if args ''page-size'' = Some None then Inl BadPageSize
           else
             (case number (case args ''page-size'' of Some (Some s) \<Rightarrow> s | _ \<Rightarrow> ''1000'') of
                None \<Rightarrow> Inl BadPageSize
              | Some pageSize \<Rightarrow>
                  if pageSize < 1 then Inl BadPageSize
                  else if wantsMaster then Inr (verifyChain sha (tb_rows chain) (nat pageSize))
                  else
                    (case resolveTenant (pw_tenants w) (the tenant) of
                       Inl e \<Rightarrow> Inl (ResolveFailed e)
                     | Inr resolved \<Rightarrow>
                         (case Option.bind (pw_cluster w (tn_databaseName resolved)) cd_tables of
                            None \<Rightarrow> Inr (VerifyThrew ''the database is not there'')
                          | Some td \<Rightarrow> Inr (verifyChain sha (tb_rows (td_audit td)) (nat pageSize))))))"

section \<open>The decoder and the service agree\<close>

lemma map_set_map: "map_set k (f v) (map (\<lambda>(a, b). (a, f b)) m) = map (\<lambda>(a, b). (a, f b)) (map_set k v m)"
proof -
  have "fst ` set (map (\<lambda>(a, b). (a, f b)) m) = fst ` set m" by force
  then show ?thesis by (auto simp: map_set_def)
qed

definition sg_part :: "('priv, 'pub) SnapSigning \<Rightarrow> 'pub \<times> KeyState \<times> int option" where
  "sg_part k = (sg_publicKey k, sg_state k, sg_notAfter k)"

definition en_part :: "SnapEncryption \<Rightarrow> bytes \<times> KeyState \<times> int option" where
  "en_part k = (en_secret k, en_state k, en_notAfter k)"

definition decoder_of :: "('priv, 'pub) Snapshot \<Rightarrow> ('priv, 'pub) Decoder" where
  "decoder_of s = \<lparr>dc_signing = map (\<lambda>(a, b). (a, sg_part b)) (sn_signing s),
                   dc_encryption = map (\<lambda>(a, b). (a, en_part b)) (sn_encryption s)\<rparr>"

lemma decoder_row_of: "decoder_row gcm kj provider row (decoder_of s) = decoder_of (load_row gcm kj provider row s)"
proof (cases "loadStoredKey gcm kj provider row")
  case (Inl e)
  then show ?thesis by (simp add: decoder_row_def load_row_def)
next
  case (Inr key)
  have part: "(pub, st, na) = sg_part \<lparr>sg_kid = kid, sg_privateKey = priv, sg_publicKey = pub, sg_publicJwk = jwk, sg_state = st, sg_notAfter = na\<rparr>"
      "(secret, st, na) = en_part \<lparr>en_kid = kid, en_secret = secret, en_state = st, en_notAfter = na\<rparr>"
    for pub st na kid priv jwk secret
    by (simp_all add: sg_part_def en_part_def)
  show ?thesis
  proof (cases key)
    case (LoadedSigningKey kid priv pub jwk)
    with Inr show ?thesis
      unfolding decoder_row_def load_row_def part(1) [where kid = kid and priv = priv and jwk = jwk]
      by (simp add: decoder_of_def map_set_map)
  next
    case (LoadedEncryptionKey kid secret)
    with Inr show ?thesis
      unfolding decoder_row_def load_row_def part(2) [where kid = kid]
      by (simp add: decoder_of_def map_set_map)
  qed
qed

lemma decoder_keys_of: "decoder_keys gcm kj provider rows = decoder_of (load_snapshot gcm kj provider rows)"
proof -
  have "fold (decoder_row gcm kj provider) rs (decoder_of s) = decoder_of (fold (load_row gcm kj provider) rs s)" for rs s
    by (induction rs arbitrary: s) (simp_all add: decoder_row_of)
  from this [of _ EMPTY] show ?thesis
    by (simp add: decoder_keys_def load_snapshot_def decoder_of_def EMPTY_def)
qed

lemma map_of_parts: "map_of (map (\<lambda>(a, b). (a, f b)) m) k = map_option f (map_of m k)"
  by (induction m) auto

lemma decoder_resolves:
  "(\<lambda>kid. usable now (map_of (dc_signing (decoder_of s)) kid)) = resolve_signing s now"
  "(\<lambda>kid. usable now (map_of (dc_encryption (decoder_of s)) kid)) = resolve_encryption s now"
  by (auto simp: fun_eq_iff decoder_of_def map_of_parts usable_def resolve_signing_def resolve_encryption_def sg_part_def
      en_part_def split: option.split)

text \<open>The decoder and the service cannot disagree about a token. With the service's issuer, audience
  and tolerance in its environment and the same rows of the key table, the command accepts a compact
  JWE exactly when an instance that has just loaded those rows does, and reports the claims that
  instance would read.\<close>

theorem decoder_agrees_with_service:
  assumes "length (split_on (CHR ''.'') token) = 5" and "truthy (env ''MASTER_DATABASE_URL'')"
    and "truthy (env ''KEY_ENCRYPTION_KEY'')"
    and "newLocalKeyProvider (base64url_decode (the (env ''KEY_ENCRYPTION_KEY''))) = Inr provider"
    and "decoder_policy number env = token_policy config"
  shows "(\<exists>report. decode_main gcm kj jose number now env token rows = Inr report \<and> dr_claims report = payload) \<longleftrightarrow>
     verifyOnce jose config now token (load_snapshot gcm kj provider rows) = Inr payload"
proof -
  have "token \<noteq> []" using assms(1) by auto
  then show ?thesis
    using assms
    by (auto simp: decode_main_def Let_def decoder_keys_of decoder_resolves verifyOnce_def split: sum.split)
qed

text \<open>The command on the token of the demonstration keys.\<close>

definition demo_env :: env where
  "demo_env =
     [''MASTER_DATABASE_URL'' \<mapsto> ''postgres'', ''KEY_ENCRYPTION_KEY'' \<mapsto> base64url_encode (kp_kek demo_provider),
      ''JWT_ISSUER'' \<mapsto> cf_jwtIssuer demo_config, ''JWT_AUDIENCE'' \<mapsto> cf_jwtAudience demo_config]"

theorem decoder_agrees_with_service_witness:
  "\<exists>report. decode_main demo_gcm demo_jose demo_tokens (\<lambda>_. 0) 3000 demo_env ''h.k.i.c.t'' demo_rows = Inr report \<and>
     dr_claims report = demo_payload"
proof -
  have segments: "length (split_on (CHR ''.'') ''h.k.i.c.t'') = 5" by code_simp
  have "base64url_decode [] = []" by code_simp
  then have kek: "base64url_encode (replicate 32 7) \<noteq> []"
    by (metis base64url_roundtrip length_0_conv length_replicate zero_neq_numeral)
  have env: "truthy (demo_env ''MASTER_DATABASE_URL'')" "truthy (demo_env ''KEY_ENCRYPTION_KEY'')"
      "newLocalKeyProvider (base64url_decode (the (demo_env ''KEY_ENCRYPTION_KEY''))) = Inr demo_provider"
      "decoder_policy (\<lambda>_. 0) demo_env = token_policy demo_config"
    using kek by (simp_all add: demo_env_def truthy_def newLocalKeyProvider_def demo_provider_def KEK_BYTES_def decoder_policy_def token_policy_def demo_config_def)
  have "verifyOnce demo_tokens demo_config 3000 ''h.k.i.c.t'' (load_snapshot demo_gcm demo_jose demo_provider demo_rows) =
      Inr demo_payload"
    using demo_verify_once [of 3000] by (simp add: demo_config_def)
  then show ?thesis using decoder_agrees_with_service [OF segments env] by blast
qed

section \<open>Arguments and seeds\<close>

text \<open>\<open>split("=", 2)\<close> drops what follows a second equals sign: a password given inline is cut there.\<close>

lemma inline_value_truncated:
  "parseArgs [''--password=correct-horse=battery''] Map.empty ''password'' = Some ''correct-horse''"
  by code_simp

lemma upsert_pair_idem [simp]: "upsert_pair p (upsert_pair p xs) = upsert_pair p xs"
  by (simp add: upsert_pair_def)

lemma seed_tables_again:
  assumes "seed_tables argon salt newId now tenant email password db = (Inr r, db')"
  shows "seed_tables argon salt' newId' now' tenant email password' db' = (Inr (r\<lparr>sr_created := False\<rparr>), db')"
proof -
  obtain roleId name where role: "find (\<lambda>(_, name). name = TENANT_ADMIN_ROLE_NAME) (td_roles db) = Some (roleId, name)"
    using assms by (auto simp: seed_tables_def split: option.splits)
  show ?thesis
  proof (cases "find_user db email")
    case None
    with assms role show ?thesis
      by (auto simp: seed_tables_def Let_def find_user_def find_append)
  next
    case (Some u)
    with assms role show ?thesis by (auto simp: seed_tables_def Let_def find_user_def)
  qed
qed

text \<open>Seeding an administrator again changes nothing and says that the user was there.\<close>

lemma seedTenantAdmin_again:
  assumes "seedTenantAdmin argon salt newId now idOrSlug email password w = (Inr r, w')"
  shows "seedTenantAdmin argon salt' newId' now' idOrSlug email password' w' = (Inr (r\<lparr>sr_created := False\<rparr>), w')"
proof -
  obtain tenant cd db db' where run: "resolveTenant (pw_tenants w) idOrSlug = Inr tenant"
      "pw_cluster w (tn_databaseName tenant) = Some cd" "cd_tables cd = Some db"
      "seed_tables argon salt newId now tenant (toLowerCase (trim email)) password db = (Inr r, db')"
      "w' = w\<lparr>pw_cluster := (pw_cluster w)(tn_databaseName tenant \<mapsto> cd\<lparr>cd_tables := Some db'\<rparr>)\<rparr>"
    using assms by (auto simp: seedTenantAdmin_def Let_def split: sum.splits option.splits prod.splits)
  show ?thesis
    using run(1) seed_tables_again [OF run(4), of salt' newId' now' password'] by (simp add: seedTenantAdmin_def Let_def run(5))
qed

end
