(* ===== verification/Immutability.thy ===== *)
theory Immutability
  imports Operator_Tools
begin

text \<open>
  The append-only rules of \<open>packages/db/sql/audit-immutability.sql\<close> as the database applies them to every
  statement, and the probe \<open>packages/db/src/audit/immutability-probe.ts\<close> that checks them by trying to
  break them. The statements of the probe are SQL; a statement here is what it does to the rows.
\<close>

section \<open>The relation and its protection\<close>

datatype sql_op = OpInsert | OpUpdate | OpDelete | OpTruncate

fun TG_OP :: "sql_op \<Rightarrow> string" where
  "TG_OP OpInsert = ''INSERT''"
| "TG_OP OpUpdate = ''UPDATE''"
| "TG_OP OpDelete = ''DELETE''"
| "TG_OP OpTruncate = ''TRUNCATE''"

text \<open>A superuser and the owner need no grant; another role has its own grants and those of PUBLIC.\<close>

datatype sql_role = Superuser | Owner | Restricted "sql_op list"

record AuditRelation =
  ar_table :: AuditTable
  ar_noUpdate :: bool
  ar_noDelete :: bool
  ar_noTruncate :: bool
  ar_public :: "sql_op list"


definition has_privilege :: "sql_role \<Rightarrow> sql_op \<Rightarrow> AuditRelation \<Rightarrow> bool" where
  "has_privilege role p rel \<longleftrightarrow>
     (case role of Superuser \<Rightarrow> True | Owner \<Rightarrow> True | Restricted grants \<Rightarrow> p \<in> set grants \<or> p \<in> set (ar_public rel))"

fun trigger_on :: "sql_op \<Rightarrow> AuditRelation \<Rightarrow> bool" where
  "trigger_on OpInsert rel = False"
| "trigger_on OpUpdate rel = ar_noUpdate rel"
| "trigger_on OpDelete rel = ar_noDelete rel"
| "trigger_on OpTruncate rel = ar_noTruncate rel"

text \<open>A connection: its role, and whether its \<open>session_replication_role\<close> is \<open>replica\<close>, under which ordinary triggers do not
  fire. A connection starts without.\<close>

record Session =
  ses_role :: sql_role
  ses_replica :: bool

definition connect :: "sql_role \<Rightarrow> Session" where
  "connect role = \<lparr>ses_role = role, ses_replica = False\<rparr>"

definition fires :: "Session \<Rightarrow> sql_op \<Rightarrow> AuditRelation \<Rightarrow> bool" where
  "fires session p rel \<longleftrightarrow> trigger_on p rel \<and> \<not> ses_replica session"

section \<open>Statements\<close>

record PgError =
  pe_code :: "string option"
  pe_constraint :: "string option"
  pe_message :: string

definition audit_events_reject_mutation :: "sql_op \<Rightarrow> PgError" where
  "audit_events_reject_mutation p =
     \<lparr>pe_code = Some ''23001'', pe_constraint = None,
      pe_message = ''audit_events is append-only: '' @ TG_OP p @ '' is not permitted''\<rparr>"

definition insufficient_privilege :: PgError where
  "insufficient_privilege =
     \<lparr>pe_code = Some ''42501'', pe_constraint = None, pe_message = ''permission denied for table audit_events''\<rparr>"

fun pg_error :: "db_error \<Rightarrow> PgError" where
  "pg_error (UniqueViolation c) =
     \<lparr>pe_code = Some ''23505'', pe_constraint = Some c,
      pe_message = ''duplicate key value violates unique constraint \"'' @ c @ ''\"''\<rparr>"
| "pg_error (CheckViolation c) =
     \<lparr>pe_code = Some ''23514'', pe_constraint = Some c,
      pe_message = ''new row violates check constraint \"'' @ c @ ''\"''\<rparr>"
| "pg_error ConnectionError = \<lparr>pe_code = None, pe_constraint = None, pe_message = []\<rparr>"
| "pg_error (QueryError m) = \<lparr>pe_code = None, pe_constraint = None, pe_message = m\<rparr>"

text \<open>A condition may look at the whole table, as \<open>WHERE seq = (SELECT min(seq) ...)\<close> does. An insert may name its \<open>seq\<close>,
  which is a \<open>BIGSERIAL\<close>: only one that does not draws from the sequence.\<close>

datatype statement =
    InsertRow "nat option" AuditEventInput bytes bytes
  | UpdateRows "StoredAuditEvent list \<Rightarrow> StoredAuditEvent \<Rightarrow> bool" "StoredAuditEvent \<Rightarrow> StoredAuditEvent"
  | DeleteRows "StoredAuditEvent list \<Rightarrow> StoredAuditEvent \<Rightarrow> bool"
  | TruncateTable

fun statement_op :: "statement \<Rightarrow> sql_op" where
  "statement_op (InsertRow q i p h) = OpInsert"
| "statement_op (UpdateRows c f) = OpUpdate"
| "statement_op (DeleteRows c) = OpDelete"
| "statement_op TruncateTable = OpTruncate"

text \<open>The constraints of a row: the CHECKs, then the primary key, then the other unique indexes.\<close>

definition row_error :: "StoredAuditEvent list \<Rightarrow> StoredAuditEvent \<Rightarrow> db_error option" where
  "row_error rows r =
     (case check_audit_row rows r of
        Some (CheckViolation c) \<Rightarrow> Some (CheckViolation c)
      | e \<Rightarrow> if se_seq r \<in> set (map se_seq rows) then Some (UniqueViolation ''audit_events_pkey'') else e)"

text \<open>The constraints of rewritten rows: each against the ones after it covers every pair.\<close>

fun rows_error :: "StoredAuditEvent list \<Rightarrow> db_error option" where
  "rows_error [] = None"
| "rows_error (r # rs) = (case row_error rs r of Some e \<Rightarrow> Some e | None \<Rightarrow> rows_error rs)"

text \<open>What a statement does once it is allowed: row triggers fire only for a row it meets, the statement
  trigger of \<open>TRUNCATE\<close> always; what an insert draws from the sequence is gone whether or not its row is accepted.\<close>

fun perform :: "Session \<Rightarrow> statement \<Rightarrow> AuditRelation \<Rightarrow> (PgError + unit) \<times> AuditRelation" where
  "perform session (InsertRow q i p h) rel =
     (let t = ar_table rel;
          n = (case q of Some n \<Rightarrow> n | None \<Rightarrow> Suc (tb_sequence t));
          t' = t\<lparr>tb_sequence := (case q of Some _ \<Rightarrow> tb_sequence t | None \<Rightarrow> n)\<rparr>;
          row = stored_row i n p h
      in case row_error (tb_rows t) row of
           Some e \<Rightarrow> (Inl (pg_error e), rel\<lparr>ar_table := t'\<rparr>)
         | None \<Rightarrow> (Inr (), rel\<lparr>ar_table := t'\<lparr>tb_rows := tb_rows t @ [row]\<rparr>\<rparr>))"
| "perform session (UpdateRows c f) rel =
     (let rows = tb_rows (ar_table rel); rows' = map (\<lambda>r. if c rows r then f r else r) rows in
      if fires session OpUpdate rel \<and> list_ex (c rows) rows then (Inl (audit_events_reject_mutation OpUpdate), rel)
      else
        (case rows_error rows' of
           Some e \<Rightarrow> (Inl (pg_error e), rel)
         | None \<Rightarrow> (Inr (), rel\<lparr>ar_table := (ar_table rel)\<lparr>tb_rows := rows'\<rparr>\<rparr>)))"
| "perform session (DeleteRows c) rel =
     (let rows = tb_rows (ar_table rel) in
      if fires session OpDelete rel \<and> list_ex (c rows) rows then (Inl (audit_events_reject_mutation OpDelete), rel)
      else (Inr (), rel\<lparr>ar_table := (ar_table rel)\<lparr>tb_rows := filter (\<lambda>r. \<not> c rows r) rows\<rparr>\<rparr>))"
| "perform session TruncateTable rel =
     (if fires session OpTruncate rel then (Inl (audit_events_reject_mutation OpTruncate), rel)
      else (Inr (), rel\<lparr>ar_table := (ar_table rel)\<lparr>tb_rows := []\<rparr>\<rparr>))"

definition execute :: "Session \<Rightarrow> statement \<Rightarrow> AuditRelation \<Rightarrow> (PgError + unit) \<times> AuditRelation" where
  "execute session st rel =
     (if \<not> tb_reachable (ar_table rel) then (Inl (pg_error ConnectionError), rel)
      else if \<not> has_privilege (ses_role session) (statement_op st) rel then (Inl insufficient_privilege, rel)
      else perform session st rel)"

text \<open>What can take the triggers out of the way: \<open>SET session_replication_role\<close>, for a superuser, and \<open>ALTER TABLE\<close> with
  \<open>DISABLE\<close> or \<open>ENABLE TRIGGER\<close>, or \<open>DROP\<close> and \<open>CREATE TRIGGER\<close>, for the owner or a superuser. Each session has its own setting.\<close>

datatype command = Run statement | SetReplica bool | AlterTrigger sql_op bool

record PgState =
  ps_relation :: AuditRelation
  ps_replica :: "nat \<Rightarrow> bool"

definition must_be_owner :: PgError where
  "must_be_owner =
     \<lparr>pe_code = Some ''42501'', pe_constraint = None, pe_message = ''must be owner of table audit_events''\<rparr>"

definition denied_parameter :: PgError where
  "denied_parameter =
     \<lparr>pe_code = Some ''42501'', pe_constraint = None,
      pe_message = ''permission denied to set parameter session_replication_role''\<rparr>"

fun alter_trigger :: "sql_op \<Rightarrow> bool \<Rightarrow> AuditRelation \<Rightarrow> AuditRelation" where
  "alter_trigger OpInsert on rel = rel"
| "alter_trigger OpUpdate on rel = rel\<lparr>ar_noUpdate := on\<rparr>"
| "alter_trigger OpDelete on rel = rel\<lparr>ar_noDelete := on\<rparr>"
| "alter_trigger OpTruncate on rel = rel\<lparr>ar_noTruncate := on\<rparr>"

fun command_step :: "sql_role \<Rightarrow> nat \<Rightarrow> command \<Rightarrow> PgState \<Rightarrow> (PgError + unit) \<times> PgState" where
  "command_step role s (Run st) pg =
     (case execute \<lparr>ses_role = role, ses_replica = ps_replica pg s\<rparr> st (ps_relation pg) of
        (res, rel) \<Rightarrow> (res, pg\<lparr>ps_relation := rel\<rparr>))"
| "command_step role s (SetReplica on) pg =
     (if role = Superuser then (Inr (), pg\<lparr>ps_replica := (ps_replica pg)(s := on)\<rparr>) else (Inl denied_parameter, pg))"
| "command_step role s (AlterTrigger p on) pg =
     (if role = Superuser \<or> role = Owner then (Inr (), pg\<lparr>ps_relation := alter_trigger p on (ps_relation pg)\<rparr>)
      else (Inl must_be_owner, pg))"

text \<open>Commands of several sessions in the order the database takes them; a session keeps its role.\<close>

fun run_commands :: "(nat \<Rightarrow> sql_role) \<Rightarrow> (nat \<times> command) list \<Rightarrow> PgState \<Rightarrow> PgState" where
  "run_commands roles [] pg = pg"
| "run_commands roles ((s, c) # rest) pg = run_commands roles rest (snd (command_step (roles s) s c pg))"

text \<open>\<open>BEGIN\<close>, the statement, \<open>ROLLBACK\<close>: everything is undone but what the sequence gave out.\<close>

definition rolled_back :: "sql_role \<Rightarrow> statement \<Rightarrow> AuditRelation \<Rightarrow> (PgError + unit) \<times> AuditRelation" where
  "rolled_back role st rel =
     (case execute (connect role) st rel of
        (res, rel') \<Rightarrow> (res, rel\<lparr>ar_table := (ar_table rel)\<lparr>tb_sequence := tb_sequence (ar_table rel')\<rparr>\<rparr>))"

section \<open>The probe\<close>

definition RESTRICT_VIOLATION :: string where "RESTRICT_VIOLATION = ''23001''"

definition UNIQUE_VIOLATION :: string where "UNIQUE_VIOLATION = ''23505''"

definition PREV_HASH_UNIQUE :: string where "PREV_HASH_UNIQUE = ''audit_events_prev_hash_unique''"

record ChainState =
  cs_count :: nat
  cs_headHash :: "bytes option"

definition readState :: "AuditRelation \<Rightarrow> ChainState" where
  "readState rel =
     (let rows = tb_rows (ar_table rel) in
      \<lparr>cs_count = length rows,
       cs_headHash = (case rev (sort_key se_seq rows) of [] \<Rightarrow> None | r # _ \<Rightarrow> Some (se_hash r))\<rparr>)"

definition headStillPresent :: "AuditRelation \<Rightarrow> bytes \<Rightarrow> bool" where
  "headStillPresent rel h \<longleftrightarrow> h \<in> set (map se_hash (tb_rows (ar_table rel)))"

text \<open>A pass is a refusal by the trigger or by the missing privilege; a success and any other error are
  failures.\<close>

definition attempt :: "sql_role \<Rightarrow> statement \<Rightarrow> AuditRelation \<Rightarrow> bool \<times> AuditRelation" where
  "attempt role st rel =
     (case rolled_back role st rel of
        (Inr _, rel') \<Rightarrow> (False, rel')
      | (Inl e, rel') \<Rightarrow>
          (pe_code e = Some RESTRICT_VIOLATION \<and> includesSub (pe_message e) ''append-only'' \<or>
           pe_code e = Some ''42501'', rel'))"

definition first_row :: "StoredAuditEvent list \<Rightarrow> StoredAuditEvent \<Rightarrow> bool" where
  "first_row rows r \<longleftrightarrow> se_seq r = Min (set (map se_seq rows))"

definition tampered :: "StoredAuditEvent \<Rightarrow> StoredAuditEvent" where
  "tampered r = r\<lparr>ae_action := ae_action r @ ''.tampered''\<rparr>"

definition fork_event :: "string \<Rightarrow> AuditEventInput" where
  "fork_event now = audit_input (append_event ''probe.fork'' at_system) now"

text \<open>The fork: a row that claims the predecessor of the head, with random bytes for its hash.\<close>

definition fork_attempt :: "sql_role \<Rightarrow> string \<Rightarrow> bytes \<Rightarrow> AuditRelation \<Rightarrow> bool \<times> AuditRelation" where
  "fork_attempt role now random rel =
     (case rev (sort_key se_seq (tb_rows (ar_table rel))) of
        [] \<Rightarrow> (False, rel)
      | r # _ \<Rightarrow>
          (case rolled_back role (InsertRow None (fork_event now) (se_prevHash r) random) rel of
             (Inr _, rel') \<Rightarrow> (False, rel')
           | (Inl e, rel') \<Rightarrow>
               (pe_code e = Some UNIQUE_VIOLATION \<and> pe_constraint e = Some PREV_HASH_UNIQUE, rel')))"

definition probeEvent :: AppendAuditEvent where
  "probeEvent =
     (append_event ''probe.immutability'' at_system)
       \<lparr>ap_actorId := Some ''immutability-probe'',
        ap_metadata := [(''note'', ''appended to prove the table still accepts writes'')]\<rparr>"

definition append_attempt :: "(bytes \<Rightarrow> bytes) \<Rightarrow> sql_role \<Rightarrow> string \<Rightarrow> AuditRelation \<Rightarrow> bool \<times> AuditRelation" where
  "append_attempt sha role now rel =
     (if \<not> has_privilege role OpInsert rel then (False, rel)
      else
        (case appendAuditEvent sha now probeEvent (ar_table rel) of
           (Inr _, t) \<Rightarrow> (True, rel\<lparr>ar_table := t\<rparr>)
         | (Inl _, t) \<Rightarrow> (False, rel\<lparr>ar_table := t\<rparr>)))"

text \<open>Events that other sessions record while the probe runs.\<close>

fun record_all :: "(bytes \<Rightarrow> bytes) \<Rightarrow> string \<Rightarrow> AppendAuditEvent list \<Rightarrow> AuditTable \<Rightarrow> AuditTable" where
  "record_all sha now [] t = t"
| "record_all sha now (ev # evs) t = record_all sha now evs (fst (audit_append sha now t ev ''master''))"

text \<open>The checks in their order, true for a pass, and the table afterwards.\<close>

definition immutability_checks ::
    "(bytes \<Rightarrow> bytes) \<Rightarrow> sql_role \<Rightarrow> string \<Rightarrow> bytes \<Rightarrow> AppendAuditEvent list \<Rightarrow> AuditRelation \<Rightarrow> bool list \<times> AuditRelation" where
  "immutability_checks sha role now random others rel =
     (let before = readState rel in
      if cs_count before = 0 then ([False], rel)
      else
        (case attempt role (UpdateRows first_row tampered) rel of (updated, rel1) \<Rightarrow>
         case attempt role (DeleteRows first_row) rel1 of (deleted, rel2) \<Rightarrow>
         case attempt role TruncateTable rel2 of (truncated, rel3) \<Rightarrow>
         case fork_attempt role now random rel3 of (forked, rel4) \<Rightarrow>
         let rel5 = rel4\<lparr>ar_table := record_all sha now others (ar_table rel4)\<rparr>;
             after = readState rel5;
             stillThere = (case cs_headHash before of None \<Rightarrow> False | Some h \<Rightarrow> headStillPresent rel5 h);
             public = \<not> list_ex (\<lambda>p. p \<in> {OpUpdate, OpDelete, OpTruncate}) (ar_public rel5)
         in case append_attempt sha role now rel5 of (appended, rel6) \<Rightarrow>
            ([True, updated, deleted, truncated, forked,
              cs_count before \<le> cs_count after \<and> stillThere, public, appended], rel6)))"

text \<open>The command: the chain it is for, and exit 0 when no check failed.\<close>

definition probe_target :: "env \<Rightarrow> string list \<Rightarrow> TenantRecord list \<Rightarrow> CliError + string option" where
  "probe_target env argv tenants =
     (let args = verify_parseArgs argv Map.empty;
          wantsMaster = (args ''master'' = Some None \<or> args ''master'' = Some (Some ''true''))
      in if \<not> truthy (env ''MASTER_DATABASE_URL'') then Inl MissingEnvironment
         else if args ''tenant'' = Some None then Inl BadTarget
         else
           let tenant = (case args ''tenant'' of Some v \<Rightarrow> v | None \<Rightarrow> None) in
           if wantsMaster = truthy tenant then Inl BadTarget
           else if wantsMaster then Inr None
           else
             (case resolveTenant tenants (the tenant) of
                Inl e \<Rightarrow> Inl (ResolveFailed e)
              | Inr resolved \<Rightarrow> Inr (Some (tn_databaseName resolved))))"

definition immutability_main ::
    "(bytes \<Rightarrow> bytes) \<Rightarrow> sql_role \<Rightarrow> string \<Rightarrow> bytes \<Rightarrow> AppendAuditEvent list \<Rightarrow> env \<Rightarrow> string list \<Rightarrow> TenantRecord list \<Rightarrow>
     (string option \<Rightarrow> AuditRelation option) \<Rightarrow> (CliError + bool) \<times> (string option \<Rightarrow> AuditRelation option)" where
  "immutability_main sha role now random others env argv tenants relations =
     (case probe_target env argv tenants of
        Inl e \<Rightarrow> (Inl e, relations)
      | Inr target \<Rightarrow>
          (case relations target of
             None \<Rightarrow> (Inr False, relations)
           | Some rel \<Rightarrow>
               (case immutability_checks sha role now random others rel of
                  (checks, rel') \<Rightarrow> (Inr (list_all (\<lambda>c. c) checks), relations(target \<mapsto> rel')))))"

section \<open>Append-only, against every statement\<close>









text \<open>What the script's own comment concedes: one command of a superuser or of the owner opens the table again.\<close>

lemma protection_can_be_lifted:
  assumes "tb_reachable (ar_table (ps_relation pg))"
  shows "roles s = Superuser \<Longrightarrow>
      tb_rows (ar_table (ps_relation (run_commands roles [(s, SetReplica True), (s, Run TruncateTable)] pg))) = []"
    and "roles s = Superuser \<or> roles s = Owner \<Longrightarrow>
      tb_rows (ar_table (ps_relation (run_commands roles [(s, AlterTrigger OpTruncate False), (s, Run TruncateTable)] pg))) = []"
  using assms by (auto simp: execute_def has_privilege_def fires_def split: prod.splits)


section \<open>What the probe finds\<close>

definition refuses :: "sql_role \<Rightarrow> sql_op \<Rightarrow> AuditRelation \<Rightarrow> bool" where
  "refuses role p rel \<longleftrightarrow> \<not> has_privilege role p rel \<or> trigger_on p rel"

lemma pg_error_codes [simp]: "pe_code (pg_error e) \<noteq> Some ''23001''" "pe_code (pg_error e) \<noteq> Some ''42501''"
  by (cases e; simp)+

lemma reject_mutation_passes [simp]:
  "pe_code (audit_events_reject_mutation p) = Some ''23001''"
  "includesSub (pe_message (audit_events_reject_mutation p)) ''append-only''"
  by (cases p; code_simp)+

lemma first_row_exists: "rows \<noteq> [] \<Longrightarrow> list_ex (first_row rows) rows"
  using Min_in [of "se_seq ` set rows"] by (fastforce simp: list_ex_iff first_row_def)

text \<open>An attempt to rewrite passes exactly if the database refuses it, and changes nothing.\<close>

lemma attempt_rewrite:
  assumes "tb_reachable (ar_table rel)" "tb_rows (ar_table rel) \<noteq> []"
    and "st \<in> {UpdateRows first_row tampered, DeleteRows first_row, TruncateTable}"
  shows "attempt role st rel = (refuses role (statement_op st) rel, rel)"
  using assms first_row_exists [OF assms(2)]
  by (auto simp: attempt_def rolled_back_def execute_def connect_def fires_def refuses_def RESTRICT_VIOLATION_def
      insufficient_privilege_def Let_def
      split: option.split)

lemma attempt_fork:
  assumes "tb_reachable (ar_table rel)" "table_ok sha (ar_table rel)" "tb_rows (ar_table rel) \<noteq> []"
    and "has_privilege role OpInsert rel" "length random = 32"
  shows "fork_attempt role now random rel =
    (True, rel\<lparr>ar_table := (ar_table rel)\<lparr>tb_sequence := Suc (tb_sequence (ar_table rel))\<rparr>\<rparr>)"
proof -
  let ?rows = "tb_rows (ar_table rel)"
  have s: "sort_key se_seq ?rows = ?rows" using assms(2) seqs_ok_sort by (auto simp: table_ok_def)
  obtain xs r where rows: "?rows = xs @ [r]" using assms(3) by (cases ?rows rule: rev_cases) auto
  have "chain_ok sha GENESIS_HASH (xs @ [r])" using assms(2) rows by (simp add: table_ok_def)
  then have "length (se_prevHash r) = 32" by (simp add: AUDIT_HASH_BYTES_def)
  then have "check_audit_row ?rows (stored_row (fork_event now) n (se_prevHash r) random) =
      Some (UniqueViolation PREV_HASH_UNIQUE)" for n
    using assms(5) rows
    by (simp add: check_audit_row_def audit_events_hash_width_ck_def audit_events_actor_ck_def audit_events_action_ck_def
        fork_event_def audit_input_def append_event_def PREV_HASH_UNIQUE_def)
  moreover have "Suc (tb_sequence (ar_table rel)) \<notin> set (map se_seq ?rows)"
    using assms(2) by (auto simp: table_ok_def seqs_ok_def)
  ultimately have "row_error ?rows (stored_row (fork_event now) (Suc (tb_sequence (ar_table rel))) (se_prevHash r) random) =
      Some (UniqueViolation PREV_HASH_UNIQUE)"
    by (simp add: row_error_def)
  then show ?thesis
    using assms(1,4) s rows
    by (simp add: fork_attempt_def rolled_back_def execute_def connect_def UNIQUE_VIOLATION_def Let_def)
qed

lemma record_all_grows:
  "list_all (\<lambda>ev. wf_metadata (ap_metadata ev)) evs \<Longrightarrow> chain_grows sha t (record_all sha now evs t)"
  by (induction evs arbitrary: t) (auto intro: chain_grows_trans audit_append_grows)

lemma audit_append_reachable [simp]: "tb_reachable (fst (audit_append sha now t ev whereabouts)) = tb_reachable t"
  by (auto simp: audit_append_def appendAuditEvent_def Let_def split: option.split sum.split)

lemma record_all_reachable [simp]: "tb_reachable (record_all sha now evs t) = tb_reachable t"
  by (induction evs arbitrary: t) simp_all

lemma probeEvent_ok:
  "wf_metadata (ap_metadata probeEvent)" "audit_events_actor_ck (audit_input probeEvent now)"
  "audit_events_action_ck (audit_input probeEvent now)"
  by (simp_all add: probeEvent_def append_event_def wf_metadata_def audit_events_actor_ck_def audit_events_action_ck_def
      audit_input_def)

text \<open>The head before the probe, and that growth keeps it.\<close>

lemma readState_growth:
  assumes "table_ok sha (ar_table rel)" "tb_rows (ar_table rel) \<noteq> []"
    and "prefix (tb_rows (ar_table rel)) (tb_rows (ar_table rel'))"
  obtains h where "cs_headHash (readState rel) = Some h" "headStillPresent rel' h"
    "cs_count (readState rel) \<le> cs_count (readState rel')"
proof -
  let ?rows = "tb_rows (ar_table rel)"
  have s: "sort_key se_seq ?rows = ?rows" using assms(1) seqs_ok_sort by (auto simp: table_ok_def)
  obtain xs r where rows: "?rows = xs @ [r]" using assms(2) by (cases ?rows rule: rev_cases) auto
  with s have "cs_headHash (readState rel) = Some (se_hash r)" by (simp add: readState_def)
  moreover have "headStillPresent rel' (se_hash r)"
    using assms(3) rows by (auto simp: headStillPresent_def prefix_def)
  moreover have "cs_count (readState rel) \<le> cs_count (readState rel')"
    using assms(3) by (auto simp: readState_def Let_def prefix_def)
  ultimately show ?thesis by (rule that)
qed

text \<open>C39: The immutability probe tells protection from its absence. On a reachable, sound, non-empty chain that the
  role may append to, whatever other sessions append meanwhile, every check passes if and only if the
  database refuses this role an update, a deletion and a truncation, by a trigger or by a missing
  privilege, and PUBLIC holds none of the three.\<close>

theorem immutability_probe_exact:
  assumes "table_ok sha (ar_table rel)" and "tb_reachable (ar_table rel)" and "tb_rows (ar_table rel) \<noteq> []"
    and "has_privilege role OpInsert rel" and "length random = 32"
    and "\<And>x. length (sha x) = AUDIT_HASH_BYTES" and "list_all (\<lambda>ev. wf_metadata (ap_metadata ev)) others"
    and "live = record_all sha now others ((ar_table rel)\<lparr>tb_sequence := Suc (tb_sequence (ar_table rel))\<rparr>)"
    and "GENESIS_HASH \<notin> set (map se_hash (tb_rows live))"
    and "sha (hash_input (audit_input probeEvent now) (head_hash (tb_rows live))) \<notin> set (map se_hash (tb_rows live))"
  shows "list_all (\<lambda>c. c) (fst (immutability_checks sha role now random others rel)) \<longleftrightarrow>
    refuses role OpUpdate rel \<and> refuses role OpDelete rel \<and> refuses role OpTruncate rel \<and>
    set (ar_public rel) \<inter> {OpUpdate, OpDelete, OpTruncate} = {}"
proof -
  let ?t1 = "(ar_table rel)\<lparr>tb_sequence := Suc (tb_sequence (ar_table rel))\<rparr>"
  let ?live = "rel\<lparr>ar_table := live\<rparr>"
  have t1: "table_ok sha ?t1" using assms(1) by (simp add: table_ok_def)
  have grows: "chain_grows sha ?t1 live" using record_all_grows [OF assms(7)] assms(8) by simp
  with t1 have live: "table_ok sha live" "prefix (tb_rows (ar_table rel)) (tb_rows live)" "tb_reachable live"
    using assms(2,8) by (simp_all add: chain_grows_def)
  obtain h where h: "cs_headHash (readState rel) = Some h" "headStillPresent ?live h"
      "cs_count (readState rel) \<le> cs_count (readState ?live)"
    using readState_growth [OF assms(1,3), of ?live] live(2) by auto
  have "\<exists>a t. appendAuditEvent sha now probeEvent live = (Inr a, t)"
    using live(3)
    by (auto simp: appendAuditEvent_def Let_def computeAuditHash_ok [OF head_hash_width [OF live(1) assms(6)]]
        check_audit_row_accepts [OF live(1) probeEvent_ok(1) assms(6,9,10) probeEvent_ok(2,3)])
  moreover have "has_privilege role OpInsert ?live" using assms(4) by (simp add: has_privilege_def split: sql_role.splits)
  ultimately have append: "fst (append_attempt sha role now ?live)" by (auto simp: append_attempt_def)
  have "cs_count (readState rel) \<noteq> 0" using assms(3) by (simp add: readState_def Let_def)
  with h append show ?thesis
    by (auto simp: immutability_checks_def Let_def attempt_rewrite [OF assms(2,3)] attempt_fork [OF assms(2,1,3-5)]
        assms(8) list_ex_iff split: prod.splits)
qed

lemma rolled_back_grows: "chain_grows sha (ar_table rel) (ar_table (snd (rolled_back role st rel)))"
proof -
  have "tb_sequence (ar_table rel) \<le> tb_sequence (ar_table (snd (execute (connect role) st rel)))"
    by (cases st) (auto simp: execute_def Let_def split: option.split)
  then show ?thesis
    by (auto simp: rolled_back_def chain_grows_def table_ok_def seqs_ok_def split: prod.split)
qed

lemma attempts_grow:
  "chain_grows sha (ar_table rel) (ar_table (snd (attempt role st rel)))"
  "chain_grows sha (ar_table rel) (ar_table (snd (fork_attempt role now random rel)))"
  using rolled_back_grows [of sha rel role]
  by (auto simp: attempt_def fork_attempt_def split: prod.split sum.split list.split) (metis snd_conv)+

lemma append_attempt_grows: "chain_grows sha (ar_table rel) (ar_table (snd (append_attempt sha role now rel)))"
  using audit_append_grows [OF probeEvent_ok(1), of sha "ar_table rel" now "''''"]
  by (auto simp: append_attempt_def audit_append_def split: prod.split sum.split)

text \<open>The probe is safe to run where nothing protects the log. Whatever triggers and privileges are missing, and
  whatever it reports, a probe run leaves every row that was there in its place and a sound chain sound.\<close>

theorem immutability_probe_harmless:
  assumes "list_all (\<lambda>ev. wf_metadata (ap_metadata ev)) others"
    and "immutability_checks sha role now random others rel = (checks, rel')"
  shows "prefix (tb_rows (ar_table rel)) (tb_rows (ar_table rel')) \<and>
    (table_ok sha (ar_table rel) \<longrightarrow> table_ok sha (ar_table rel'))"
proof -
  let ?rel1 = "snd (attempt role (UpdateRows first_row tampered) rel)"
  let ?rel2 = "snd (attempt role (DeleteRows first_row) ?rel1)"
  let ?rel3 = "snd (attempt role TruncateTable ?rel2)"
  let ?rel4 = "snd (fork_attempt role now random ?rel3)"
  let ?rel5 = "?rel4\<lparr>ar_table := record_all sha now others (ar_table ?rel4)\<rparr>"
  have "rel' = rel \<or> rel' = snd (append_attempt sha role now ?rel5)"
    using assms(2) by (auto simp: immutability_checks_def Let_def split: prod.splits if_splits)
  moreover have "chain_grows sha (ar_table rel) (ar_table ?rel4)"
    by (meson attempts_grow chain_grows_trans)
  then have "chain_grows sha (ar_table rel) (ar_table ?rel5)"
    using record_all_grows [OF assms(1)] chain_grows_trans by fastforce
  then have "chain_grows sha (ar_table rel) (ar_table (snd (append_attempt sha role now ?rel5)))"
    using append_attempt_grows chain_grows_trans by blast
  ultimately have "chain_grows sha (ar_table rel) (ar_table rel')" by auto
  then show ?thesis by (simp add: chain_grows_def)
qed

section \<open>Concrete relations\<close>

text \<open>A digest of two values, one for the first event of a chain and one for the others.\<close>

definition two_digest :: "bytes \<Rightarrow> bytes" where
  "two_digest bs = replicate 32 (if take 32 bs = GENESIS_HASH then 1 else 2)"

lemma length_two_digest [simp]: "length (two_digest bs) = AUDIT_HASH_BYTES"
  by (simp add: two_digest_def AUDIT_HASH_BYTES_def)

definition first_event :: StoredAuditEvent where
  "first_event =
     stored_row (fork_event ''t'') 1 GENESIS_HASH (two_digest (hash_input (fork_event ''t'') GENESIS_HASH))"

definition demo_relation :: "bool \<Rightarrow> AuditRelation" where
  "demo_relation protected =
     \<lparr>ar_table = \<lparr>tb_rows = [first_event], tb_sequence = 1, tb_reachable = True\<rparr>,
      ar_noUpdate = protected, ar_noDelete = protected, ar_noTruncate = protected, ar_public = []\<rparr>"

definition demo_random :: bytes where
  "demo_random = replicate 32 9"

lemma demo_digest [simp]:
  "GENESIS_HASH \<noteq> two_digest bs"
  "two_digest (hash_input (audit_input probeEvent ''t'') (se_hash first_event)) \<noteq> se_hash first_event"
proof -
  show differs: "GENESIS_HASH \<noteq> two_digest bs" for bs
    by (simp add: two_digest_def GENESIS_HASH_def AUDIT_HASH_BYTES_def)
  have "take 32 (hash_input e p) = p" if "length p = 32" for e :: AuditEventInput and p
    using that by (simp add: hash_input_def)
  with differs show "two_digest (hash_input (audit_input probeEvent ''t'') (se_hash first_event)) \<noteq> se_hash first_event"
    by (simp add: first_event_def two_digest_def GENESIS_HASH_def AUDIT_HASH_BYTES_def)
qed

lemma demo_relation_simps [simp]:
  "tb_reachable (ar_table (demo_relation p))" "tb_rows (ar_table (demo_relation p)) = [first_event]"
  "GENESIS_HASH \<noteq> se_hash first_event" "head_hash [first_event] = se_hash first_event"
  by (simp_all add: demo_relation_def head_hash_def) (simp add: first_event_def)

lemma demo_relation_ok: "table_ok two_digest (ar_table (demo_relation p))"
  by (simp add: demo_relation_def table_ok_def seqs_ok_def)
    (simp add: first_event_def hash_input_def canonicalAuditForm_stored_row fork_event_def audit_input_def append_event_def
      wf_metadata_def)

lemma demo_relation_protection [simp]:
  "ar_public (demo_relation p) = []" "refuses Owner OpUpdate (demo_relation p) = p"
  "refuses Owner OpDelete (demo_relation p) = p" "refuses Owner OpTruncate (demo_relation p) = p"
  by (simp_all add: demo_relation_def refuses_def has_privilege_def)


theorem immutability_probe_exact_witness:
  "list_all (\<lambda>c. c) (fst (immutability_checks two_digest Owner ''t'' demo_random [] (demo_relation True))) \<and>
   \<not> list_all (\<lambda>c. c) (fst (immutability_checks two_digest Owner ''t'' demo_random [] (demo_relation False)))"
proof -
  have "list_all (\<lambda>c. c) (fst (immutability_checks two_digest Owner ''t'' demo_random [] (demo_relation p))) \<longleftrightarrow>
      refuses Owner OpUpdate (demo_relation p) \<and> refuses Owner OpDelete (demo_relation p) \<and>
      refuses Owner OpTruncate (demo_relation p) \<and>
      set (ar_public (demo_relation p)) \<inter> {OpUpdate, OpDelete, OpTruncate} = {}" for p
    by (rule immutability_probe_exact [OF demo_relation_ok _ _ _ _ _ _ refl]) (simp_all add: has_privilege_def demo_random_def)
  then show ?thesis by simp
qed

theorem immutability_probe_harmless_witness:
  "prefix (tb_rows (ar_table (demo_relation False)))
     (tb_rows (ar_table (snd (immutability_checks two_digest Owner ''t'' demo_random [] (demo_relation False)))))"
  using immutability_probe_harmless [of "[]" two_digest Owner "''t''" demo_random "demo_relation False"]
  by (metis list.pred_inject(1) prod.collapse)

end
