(* ===== verification/Audit_Concurrency.thy ===== *)
theory Audit_Concurrency
  imports Audit_Chain
begin

text \<open>
  Concurrent appends. Every appender runs the transaction of \<open>appendAuditEvent\<close> one statement
  at a time: take the advisory lock, read the head, insert, commit. The relation takes the lock
  as a flag, so the same machine shows both lines of defence: with the lock an appender always
  hashes onto the current head; without it, \<open>UNIQUE(prev_hash)\<close> alone still keeps the
  committed rows one verifiable chain.
\<close>

section \<open>Appenders as a step relation\<close>

datatype append_pc =
    Idle
  | Waiting AppendAuditEvent
  | Locked AppendAuditEvent
  | HeadRead AppendAuditEvent string bytes
  | Inserted AppendAuditEvent StoredAuditEvent
  | Done AppendedAuditEvent
  | Rejected db_error

record ChainSys =
  ch_rows :: "StoredAuditEvent list"
  ch_sequence :: nat
  ch_lock :: "nat option"
  ch_pc :: "nat \<Rightarrow> append_pc"

definition chain_init :: "ChainSys \<Rightarrow> bool" where
  "chain_init s \<longleftrightarrow> s = \<lparr>ch_rows = [], ch_sequence = 0, ch_lock = None, ch_pc = (\<lambda>_. Idle)\<rparr>"

definition goto :: "nat \<Rightarrow> append_pc \<Rightarrow> ChainSys \<Rightarrow> ChainSys" where
  "goto i pc s = s\<lparr>ch_pc := (ch_pc s)(i := pc)\<rparr>"

text \<open>The transaction-level lock goes with the transaction, committed or rolled back.\<close>

definition finish :: "nat \<Rightarrow> append_pc \<Rightarrow> ChainSys \<Rightarrow> ChainSys" where
  "finish i pc s =
     (goto i pc s)\<lparr>ch_lock := (if ch_lock s = Some i then None else ch_lock s)\<rparr>"

fun in_transaction :: "append_pc \<Rightarrow> bool" where
  "in_transaction Idle = False"
| "in_transaction (Done _) = False"
| "in_transaction (Rejected _) = False"
| "in_transaction _ = True"

fun past_lock :: "append_pc \<Rightarrow> bool" where
  "past_lock (Locked _) = True"
| "past_lock (HeadRead _ _ _) = True"
| "past_lock (Inserted _ _) = True"
| "past_lock _ = False"

definition new_row :: "(bytes \<Rightarrow> bytes) \<Rightarrow> AppendAuditEvent \<Rightarrow> string \<Rightarrow> bytes \<Rightarrow> nat \<Rightarrow> StoredAuditEvent" where
  "new_row sha event now p n =
     stored_row (audit_input event now) n p (sha (hash_input (audit_input event now) p))"

inductive append_step :: "bool \<Rightarrow> (bytes \<Rightarrow> bytes) \<Rightarrow> ChainSys \<Rightarrow> ChainSys \<Rightarrow> bool"
  for useLock :: bool and sha :: "bytes \<Rightarrow> bytes" where
  begin_tx: "ch_pc s i = Idle \<Longrightarrow> wf_metadata (ap_metadata ev) \<Longrightarrow>
     append_step useLock sha s (goto i (Waiting ev) s)"
| take_lock: "ch_pc s i = Waiting ev \<Longrightarrow> useLock \<Longrightarrow> ch_lock s = None \<Longrightarrow>
     append_step useLock sha s ((goto i (Locked ev) s)\<lparr>ch_lock := Some i\<rparr>)"
| skip_lock: "ch_pc s i = Waiting ev \<Longrightarrow> \<not> useLock \<Longrightarrow>
     append_step useLock sha s (goto i (Locked ev) s)"
| read_head: "ch_pc s i = Locked ev \<Longrightarrow>
     append_step useLock sha s (goto i (HeadRead ev now (head_hash (ch_rows s))) s)"
| insert_ok: "ch_pc s i = HeadRead ev now p \<Longrightarrow>
     row = new_row sha ev now p (Suc (ch_sequence s)) \<Longrightarrow>
     check_audit_row (ch_rows s) row = None \<Longrightarrow>
     (\<And>j ev' r. ch_pc s j = Inserted ev' r \<Longrightarrow>
        se_prevHash r \<noteq> se_prevHash row \<and> se_hash r \<noteq> se_hash row) \<Longrightarrow>
     append_step useLock sha s
       ((goto i (Inserted ev row) s)\<lparr>ch_sequence := Suc (ch_sequence s)\<rparr>)"
| insert_refused: "ch_pc s i = HeadRead ev now p \<Longrightarrow>
     check_audit_row (ch_rows s) (new_row sha ev now p (Suc (ch_sequence s))) = Some e \<Longrightarrow>
     append_step useLock sha s
       ((finish i (Rejected e) s)\<lparr>ch_sequence := Suc (ch_sequence s)\<rparr>)"
| commit: "ch_pc s i = Inserted ev r \<Longrightarrow>
     append_step useLock sha s
       ((finish i (Done \<lparr>aa_seq = se_seq r, aa_occurredAt = ae_occurredAt r, aa_hash = se_hash r,
                          aa_prevHash = se_prevHash r\<rparr>) s)\<lparr>ch_rows := ch_rows s @ [r]\<rparr>)"
| rollback: "in_transaction (ch_pc s i) \<Longrightarrow>
     append_step useLock sha s (finish i (Rejected ConnectionError) s)"

section \<open>One chain, whatever the interleaving\<close>

definition uncommitted_ok :: "(bytes \<Rightarrow> bytes) \<Rightarrow> ChainSys \<Rightarrow> StoredAuditEvent \<Rightarrow> bool" where
  "uncommitted_ok sha s r \<longleftrightarrow>
     chain_ok sha GENESIS_HASH (ch_rows s @ [r]) \<and> seqs_ok (ch_rows s @ [r]) (ch_sequence s)"

fun pc_ok :: "(bytes \<Rightarrow> bytes) \<Rightarrow> ChainSys \<Rightarrow> append_pc \<Rightarrow> bool" where
  "pc_ok sha s (Waiting ev) = wf_metadata (ap_metadata ev)"
| "pc_ok sha s (Locked ev) = wf_metadata (ap_metadata ev)"
| "pc_ok sha s (HeadRead ev now p) =
     (wf_metadata (ap_metadata ev) \<and> p \<in> insert GENESIS_HASH (set (map se_hash (ch_rows s))))"
| "pc_ok sha s (Inserted ev r) = uncommitted_ok sha s r"
| "pc_ok sha s _ = True"

definition single_writer :: "ChainSys \<Rightarrow> bool" where
  "single_writer s \<longleftrightarrow>
     (\<forall>i j ev ev' r r'. ch_pc s i = Inserted ev r \<longrightarrow> ch_pc s j = Inserted ev' r' \<longrightarrow> i = j)"

definition chain_inv :: "(bytes \<Rightarrow> bytes) \<Rightarrow> ChainSys \<Rightarrow> bool" where
  "chain_inv sha s \<longleftrightarrow>
     chain_ok sha GENESIS_HASH (ch_rows s) \<and> seqs_ok (ch_rows s) (ch_sequence s) \<and>
     (\<forall>i. pc_ok sha s (ch_pc s i)) \<and> single_writer s"

lemma sys_simps [simp]:
  "ch_rows (goto i pc s) = ch_rows s" "ch_sequence (goto i pc s) = ch_sequence s"
  "ch_lock (goto i pc s) = ch_lock s" "ch_pc (goto i pc s) = (ch_pc s)(i := pc)"
  "ch_rows (finish i pc s) = ch_rows s" "ch_sequence (finish i pc s) = ch_sequence s"
  "ch_pc (finish i pc s) = (ch_pc s)(i := pc)"
  "ch_lock (finish i pc s) = (if ch_lock s = Some i then None else ch_lock s)"
  by (simp_all add: goto_def finish_def)

lemma chain_hash_has_successor:
  "chain_ok sha p es \<Longrightarrow> h \<in> insert p (set (map se_hash es)) \<Longrightarrow>
   h \<notin> set (map se_prevHash es) \<Longrightarrow> h = chain_head p es"
  by (induction es arbitrary: p) auto

lemma chain_head_in: "chain_head p es \<in> insert p (set (map se_hash es))"
  by (induction es arbitrary: p) auto

lemma pc_ok_frame:
  assumes "pc_ok sha s pc" and "ch_rows t = ch_rows s" and "ch_sequence t = ch_sequence s"
  shows "pc_ok sha t pc"
  using assms by (cases pc) (auto simp: uncommitted_ok_def)

lemma pc_ok_Suc:
  assumes "pc_ok sha s pc" and "ch_rows t = ch_rows s" and "ch_sequence t = Suc (ch_sequence s)"
  shows "pc_ok sha t pc"
  using assms by (cases pc) (auto simp: uncommitted_ok_def)

lemma single_writer_goto:
  "single_writer s \<Longrightarrow> (\<And>ev r. pc \<noteq> Inserted ev r) \<Longrightarrow> ch_pc t = (ch_pc s)(i := pc) \<Longrightarrow> single_writer t"
  by (auto simp: single_writer_def)

lemma new_row_extends:
  assumes inv: "chain_inv sha s" and pc: "ch_pc s i = HeadRead ev now p"
    and chk: "check_audit_row (ch_rows s) (new_row sha ev now p (Suc (ch_sequence s))) = None"
  shows "chain_ok sha GENESIS_HASH (ch_rows s @ [new_row sha ev now p (Suc (ch_sequence s))])"
    and "p = chain_head GENESIS_HASH (ch_rows s)"
proof -
  from inv pc have wf: "wf_metadata (ap_metadata ev)"
    and p: "p \<in> insert GENESIS_HASH (set (map se_hash (ch_rows s)))"
    and ok: "chain_ok sha GENESIS_HASH (ch_rows s)"
    unfolding chain_inv_def by (metis pc_ok.simps(3))+
  from chk have len: "length p = 32" and fresh: "p \<notin> set (map se_prevHash (ch_rows s))"
    by (auto simp: check_audit_row_def new_row_def audit_events_hash_width_ck_def split: if_splits)
  show head: "p = chain_head GENESIS_HASH (ch_rows s)"
    by (rule chain_hash_has_successor [OF ok p fresh])
  have "wf_metadata (ae_metadata (audit_input ev now))" using wf by (simp add: audit_input_def)
  then show "chain_ok sha GENESIS_HASH (ch_rows s @ [new_row sha ev now p (Suc (ch_sequence s))])"
    using ok head len
    by (simp add: new_row_def hash_input_def canonicalAuditForm_stored_row AUDIT_HASH_BYTES_def)
qed

lemma uncommitted_prev:
  assumes "chain_inv sha s" and "ch_pc s j = Inserted ev r"
  shows "se_prevHash r = chain_head GENESIS_HASH (ch_rows s)" and "uncommitted_ok sha s r"
proof -
  from assms show "uncommitted_ok sha s r" unfolding chain_inv_def by (metis pc_ok.simps(4))
  then show "se_prevHash r = chain_head GENESIS_HASH (ch_rows s)"
    by (simp add: uncommitted_ok_def)
qed

lemma chain_inv_frame:
  assumes "chain_inv sha s" and "ch_rows t = ch_rows s"
    and "ch_sequence t = ch_sequence s \<or> ch_sequence t = Suc (ch_sequence s)"
    and "ch_pc t = (ch_pc s)(i := pc)" and "pc_ok sha t pc" and "\<And>ev r. pc \<noteq> Inserted ev r"
  shows "chain_inv sha t"
  using assms pc_ok_frame [of sha s _ t] pc_ok_Suc [of sha s _ t]
    single_writer_goto [of s pc t i]
  unfolding chain_inv_def by (auto simp del: sys_simps)

lemma chain_inv_insert:
  assumes inv: "chain_inv sha s" and pc: "ch_pc s i = HeadRead ev now p"
    and row: "row = new_row sha ev now p (Suc (ch_sequence s))"
    and chk: "check_audit_row (ch_rows s) row = None"
    and others: "\<And>j ev' r. ch_pc s j = Inserted ev' r \<Longrightarrow>
        se_prevHash r \<noteq> se_prevHash row \<and> se_hash r \<noteq> se_hash row"
  shows "chain_inv sha ((goto i (Inserted ev row) s)\<lparr>ch_sequence := Suc (ch_sequence s)\<rparr>)"
    (is "chain_inv sha ?t")
proof -
  note ext = new_row_extends [OF inv pc chk [unfolded row]]
  have prev: "se_prevHash row = chain_head GENESIS_HASH (ch_rows s)"
    using ext(2) by (simp add: row new_row_def)
  have none: "ch_pc s j \<noteq> Inserted ev' r" for j ev' r
    using others uncommitted_prev(1) [OF inv] prev by metis
  have seqs: "seqs_ok (ch_rows s) (ch_sequence s)" using inv by (simp add: chain_inv_def)
  then have "seqs_ok (ch_rows s @ [row]) (Suc (ch_sequence s))"
    by (simp add: row new_row_def)
  then have "uncommitted_ok sha ?t row"
    using ext(1) by (simp add: uncommitted_ok_def row del: chain_ok_append)
  moreover have "pc_ok sha ?t (ch_pc s j)" for j
    using inv pc_ok_Suc [of sha s "ch_pc s j" ?t] by (simp add: chain_inv_def)
  ultimately show ?thesis
    using inv none seqs by (auto simp: chain_inv_def single_writer_def)
qed

lemma chain_inv_commit:
  assumes inv: "chain_inv sha s" and pc: "ch_pc s i = Inserted ev r"
  shows "chain_inv sha ((finish i (Done a) s)\<lparr>ch_rows := ch_rows s @ [r]\<rparr>)" (is "chain_inv sha ?t")
proof -
  have none: "ch_pc s j \<noteq> Inserted ev' r'" if "j \<noteq> i" for j ev' r'
    using inv pc that unfolding chain_inv_def single_writer_def by metis
  have un: "uncommitted_ok sha s r" by (rule uncommitted_prev(2) [OF inv pc])
  have "pc_ok sha ?t (ch_pc ?t j)" for j
  proof (cases "j = i")
    case False
    have "pc_ok sha s (ch_pc s j)" using inv by (simp add: chain_inv_def)
    with False none show ?thesis by (cases "ch_pc s j") auto
  qed simp
  moreover have "single_writer ?t" using none by (auto simp: single_writer_def)
  ultimately show ?thesis
    using un by (simp add: chain_inv_def uncommitted_ok_def)
qed

lemma chain_inv_sorted: "chain_inv sha s \<Longrightarrow> sort_key se_seq (ch_rows s) = ch_rows s"
  unfolding chain_inv_def using seqs_ok_sort by blast

lemma chain_inv_step: "append_step useLock sha s t \<Longrightarrow> chain_inv sha s \<Longrightarrow> chain_inv sha t"
proof (induction rule: append_step.induct)
  case (begin_tx s i ev)
  then show ?case by (intro chain_inv_frame [OF begin_tx(3), of _ i "Waiting ev"]) auto
next
  case (take_lock s i ev)
  then have "pc_ok sha s (Waiting ev)" unfolding chain_inv_def by metis
  with take_lock show ?case by (intro chain_inv_frame [OF take_lock(4), of _ i "Locked ev"]) auto
next
  case (skip_lock s i ev)
  then have "pc_ok sha s (Waiting ev)" unfolding chain_inv_def by metis
  with skip_lock show ?case by (intro chain_inv_frame [OF skip_lock(3), of _ i "Locked ev"]) auto
next
  case (read_head s i ev now)
  then have "pc_ok sha s (Locked ev)" unfolding chain_inv_def by metis
  moreover have "head_hash (ch_rows s) = chain_head GENESIS_HASH (ch_rows s)"
    using read_head.prems by (simp add: head_hash_chain_head chain_inv_sorted)
  ultimately show ?case
    using read_head.prems chain_head_in [of GENESIS_HASH "ch_rows s"]
    by (intro chain_inv_frame [OF read_head(2), of _ i "HeadRead ev now (head_hash (ch_rows s))"]) auto
next
  case (insert_ok s i ev now p row)
  then show ?case by (blast intro: chain_inv_insert)
next
  case (insert_refused s i ev now p e)
  then show ?case by (intro chain_inv_frame [OF insert_refused(3), of _ i "Rejected e"]) auto
next
  case (commit s i ev r)
  then show ?case by (blast intro: chain_inv_commit)
next
  case (rollback s i)
  then show ?case by (intro chain_inv_frame [OF rollback(2), of _ i "Rejected ConnectionError"]) auto
qed

lemma chain_inv_init: "chain_init s \<Longrightarrow> chain_inv sha s"
  by (simp add: chain_init_def chain_inv_def single_writer_def seqs_ok_def)

interpretation appenders: invariant_system chain_init "append_step useLock sha" "chain_inv sha"
  for useLock sha
  by unfold_locales (blast intro: chain_inv_init chain_inv_step)+

section \<open>The lock keeps the head current\<close>

definition lock_inv :: "ChainSys \<Rightarrow> bool" where
  "lock_inv s \<longleftrightarrow>
     sort_key se_seq (ch_rows s) = ch_rows s \<and>
     (\<forall>i. past_lock (ch_pc s i) \<longrightarrow> ch_lock s = Some i) \<and>
     (\<forall>i ev now p. ch_pc s i = HeadRead ev now p \<longrightarrow> p = chain_head GENESIS_HASH (ch_rows s))"

definition locked_inv :: "(bytes \<Rightarrow> bytes) \<Rightarrow> ChainSys \<Rightarrow> bool" where
  "locked_inv sha s \<longleftrightarrow> chain_inv sha s \<and> lock_inv s"

lemma lock_inv_frame:
  assumes "lock_inv s" and "ch_rows t = ch_rows s" and "ch_pc t = (ch_pc s)(i := pc)"
    and "ch_lock t = ch_lock s \<or> ch_lock s = None \<or> ch_lock s = Some i \<and> \<not> past_lock pc"
    and "past_lock pc \<Longrightarrow> ch_lock t = Some i"
    and "\<And>ev now p. pc = HeadRead ev now p \<Longrightarrow> p = chain_head GENESIS_HASH (ch_rows s)"
  shows "lock_inv t"
  using assms unfolding lock_inv_def by (auto split: if_splits)

lemma lock_holder: "lock_inv s \<Longrightarrow> ch_pc s i = pc \<Longrightarrow> past_lock pc \<Longrightarrow> ch_lock s = Some i"
  by (auto simp: lock_inv_def)

lemma lock_inv_commit:
  assumes "lock_inv s" and "ch_pc s i = Inserted ev r"
    and "sort_key se_seq (ch_rows s @ [r]) = ch_rows s @ [r]"
  shows "lock_inv ((finish i (Done a) s)\<lparr>ch_rows := ch_rows s @ [r]\<rparr>)"
proof -
  have "ch_lock s = Some i" by (rule lock_holder [OF assms(1,2)]) simp
  then have "\<not> past_lock (ch_pc s j)" if "j \<noteq> i" for j
    using assms(1) that by (auto simp: lock_inv_def)
  moreover from this have "ch_pc s j \<noteq> HeadRead ev' now p" if "j \<noteq> i" for j ev' now p
    using that by (metis past_lock.simps(2))
  ultimately show ?thesis using assms(3) by (auto simp: lock_inv_def)
qed

lemma lock_inv_step:
  assumes "append_step True sha s t" and "lock_inv s" and "chain_inv sha t"
  shows "lock_inv t"
  using assms
proof (induction rule: append_step.induct)
  case (begin_tx s i ev)
  then show ?case by (intro lock_inv_frame [OF begin_tx(3), of _ i "Waiting ev"]) auto
next
  case (take_lock s i ev)
  then show ?case by (intro lock_inv_frame [OF take_lock(4), of _ i "Locked ev"]) auto
next
  case (skip_lock s i ev)
  then show ?case by simp
next
  case (read_head s i ev now)
  have "ch_lock s = Some i" by (rule lock_holder [OF read_head(2,1)]) simp
  moreover have "head_hash (ch_rows s) = chain_head GENESIS_HASH (ch_rows s)"
    using read_head(2) by (simp add: lock_inv_def head_hash_chain_head)
  ultimately show ?case
    using read_head(2)
    by (intro lock_inv_frame [OF read_head(2), of _ i "HeadRead ev now (head_hash (ch_rows s))"]) auto
next
  case (insert_ok s i ev now p row)
  have "ch_lock s = Some i" by (rule lock_holder [OF insert_ok(5) insert_ok(1)]) simp
  with insert_ok(5) show ?case by (intro lock_inv_frame [OF insert_ok(5), of _ i "Inserted ev row"]) auto
next
  case (insert_refused s i ev now p e)
  have "ch_lock s = Some i" by (rule lock_holder [OF insert_refused(3,1)]) simp
  with insert_refused(3) show ?case by (intro lock_inv_frame [OF insert_refused(3), of _ i "Rejected e"]) auto
next
  case (commit s i ev r)
  then show ?case
    using chain_inv_sorted [OF commit(3)] by (intro lock_inv_commit) auto
next
  case (rollback s i)
  then show ?case by (intro lock_inv_frame [OF rollback(2), of _ i "Rejected ConnectionError"]) auto
qed

interpretation locked_appenders: invariant_system chain_init "append_step True sha" "locked_inv sha"
  for sha
proof unfold_locales
  show "locked_inv sha s" if "chain_init s" for s
    using that chain_inv_init by (simp add: locked_inv_def lock_inv_def chain_init_def)
  show "locked_inv sha t" if "locked_inv sha s" and "append_step True sha s t" for s t
    using that chain_inv_step lock_inv_step by (auto simp: locked_inv_def)
qed

section \<open>Properties of concurrent appends\<close>

lemma appendAuditEvent_Inr_cases:
  assumes "appendAuditEvent sha now ev t = (Inr a, t')"
  obtains "tb_reachable t"
    "check_audit_row (tb_rows t)
       (new_row sha ev now (head_hash (tb_rows t)) (Suc (tb_sequence t))) = None"
    "a = \<lparr>aa_seq = Suc (tb_sequence t), aa_occurredAt = now,
          aa_hash = sha (hash_input (audit_input ev now) (head_hash (tb_rows t))),
          aa_prevHash = head_hash (tb_rows t)\<rparr>"
    "t' = t\<lparr>tb_sequence := Suc (tb_sequence t),
            tb_rows := tb_rows t @ [new_row sha ev now (head_hash (tb_rows t)) (Suc (tb_sequence t))]\<rparr>"
  using assms
  by (auto simp: appendAuditEvent_def Let_def computeAuditHash_def new_row_def hash_input_def
      split: if_splits sum.splits option.splits)

lemma append_run:
  assumes idle: "ch_pc s i = Idle" and free: "ch_lock s = None"
    and quiet: "\<And>j ev' r. ch_pc s j \<noteq> Inserted ev' r"
    and wf: "wf_metadata (ap_metadata ev)"
    and table: "ch_rows s = tb_rows t" "ch_sequence s = tb_sequence t"
    and run: "appendAuditEvent sha now ev t = (Inr a, t')"
  shows "\<exists>s'. reaches (append_step True sha) s s' \<and> ch_rows s' = tb_rows t' \<and>
    ch_sequence s' = tb_sequence t' \<and> ch_lock s' = None \<and> ch_pc s' = (ch_pc s)(i := Done a)"
  using run
proof (cases rule: appendAuditEvent_Inr_cases)
  case 1
  let ?p = "head_hash (ch_rows s)" and ?step = "append_step True sha"
  let ?row = "new_row sha ev now ?p (Suc (ch_sequence s))"
  define s1 where "s1 = goto i (Waiting ev) s"
  define s2 where "s2 = (goto i (Locked ev) s1)\<lparr>ch_lock := Some i\<rparr>"
  define s3 where "s3 = goto i (HeadRead ev now (head_hash (ch_rows s2))) s2"
  define s4 where "s4 = (goto i (Inserted ev ?row) s3)\<lparr>ch_sequence := Suc (ch_sequence s3)\<rparr>"
  define s5 where "s5 = (finish i (Done \<lparr>aa_seq = se_seq ?row, aa_occurredAt = ae_occurredAt ?row,
      aa_hash = se_hash ?row, aa_prevHash = se_prevHash ?row\<rparr>) s4)\<lparr>ch_rows := ch_rows s4 @ [?row]\<rparr>"
  have "?step s s1" unfolding s1_def using idle wf by (rule begin_tx)
  moreover have "?step s1 s2" unfolding s2_def by (rule take_lock) (simp_all add: s1_def free)
  moreover have "?step s2 s3" unfolding s3_def by (rule read_head) (simp add: s2_def)
  moreover have "?step s3 s4" unfolding s4_def
  proof (rule insert_ok)
    show "ch_pc s3 i = HeadRead ev now ?p" by (simp add: s3_def s2_def s1_def)
    show "?row = new_row sha ev now ?p (Suc (ch_sequence s3))" by (simp add: s3_def s2_def s1_def)
    show "check_audit_row (ch_rows s3) ?row = None"
      using 1(2) table by (simp add: s3_def s2_def s1_def)
  qed (use quiet in \<open>auto simp: s3_def s2_def s1_def split: if_splits\<close>)
  moreover have "?step s4 s5" unfolding s5_def by (rule commit) (simp add: s4_def)
  ultimately have "reaches ?step s s5" by (meson reaches.intros)
  moreover have "ch_rows s5 = tb_rows t'" "ch_sequence s5 = tb_sequence t'" "ch_lock s5 = None"
    using 1(4) table by (simp_all add: s5_def s4_def s3_def s2_def s1_def)
  moreover have "ch_pc s5 = (ch_pc s)(i := Done a)"
    using 1(3) table by (simp add: s5_def s4_def s3_def s2_def s1_def new_row_def audit_input_def)
  ultimately show ?thesis by blast
qed

text \<open>C15: However many appenders interleave, roll back or are refused, and with or without the
  advisory lock, the committed rows are one chain that verifies from the genesis hash, in
  ascending order of sequence number, and an uncommitted row extends that same chain.\<close>

theorem concurrent_appends_never_fork:
  assumes "chain_init s" and "reaches (append_step useLock sha) s t"
  shows "verifyAuditChain sha (ch_rows t) GENESIS_HASH = Inr None \<and>
     sorted_wrt (<) (map se_seq (ch_rows t)) \<and>
     (\<forall>i ev r. ch_pc t i = Inserted ev r \<longrightarrow>
        verifyAuditChain sha (ch_rows t @ [r]) GENESIS_HASH = Inr None)"
proof -
  have inv: "chain_inv sha t" by (rule appenders.reachable_inv [OF assms])
  then have "verifyAuditChain sha (ch_rows t @ [r]) GENESIS_HASH = Inr None"
    if "ch_pc t i = Inserted ev r" for i ev r
    using uncommitted_prev(2) [OF inv that]
    by (simp only: uncommitted_ok_def verifyAuditChain_None_iff)
  with inv show ?thesis
    unfolding chain_inv_def seqs_ok_def by (auto simp: verifyAuditChain_None_iff)
qed

definition idle_system :: ChainSys where
  "idle_system = \<lparr>ch_rows = [], ch_sequence = 0, ch_lock = None, ch_pc = (\<lambda>_. Idle)\<rparr>"

definition first_append :: AppendAuditEvent where
  "first_append = append_event ''auth.login.failed'' at_anonymous"

lemma first_append_run:
  "\<exists>s'. reaches (append_step True sum_digest) idle_system s' \<and> length (ch_rows s') = 1"
proof -
  obtain a t' where run: "appendAuditEvent sum_digest [] first_append empty_audit_table = (Inr a, t')"
    and rows: "length (tb_rows t') = 1"
    by (auto simp: appendAuditEvent_def Let_def empty_audit_table_def first_append_def
        append_event_def check_audit_row_def head_hash_def computeAuditHash_def
        audit_events_hash_width_ck_def audit_events_actor_ck_def audit_events_action_ck_def
        audit_input_def AUDIT_HASH_BYTES_def sum_digest_def GENESIS_HASH_def)
  then show ?thesis
    using append_run [OF _ _ _ _ _ _ run, of idle_system 0]
    by (auto simp: idle_system_def empty_audit_table_def first_append_def append_event_def
        wf_metadata_def)
qed

theorem concurrent_appends_never_fork_witness:
  "\<exists>t :: ChainSys. length (ch_rows t) = 1 \<and> verifyAuditChain sum_digest (ch_rows t) GENESIS_HASH = Inr None"
proof -
  obtain t where "reaches (append_step True sum_digest) idle_system t" "length (ch_rows t) = 1"
    using first_append_run by blast
  with concurrent_appends_never_fork [of idle_system True sum_digest t] show ?thesis
    by (auto simp: chain_init_def idle_system_def)
qed

text \<open>With the advisory lock taken before the head is read, at most one appender is past
  the lock, and the head it has read is still the head of the table when it inserts: its row
  extends the chain, so the unique index on the predecessor is never what refuses it.\<close>

theorem locked_append_has_current_head:
  assumes "chain_init s" and "reaches (append_step True sha) s t"
    and "ch_pc t i = HeadRead ev now p"
  shows "p = head_hash (ch_rows t) \<and> (\<forall>j. past_lock (ch_pc t j) \<longrightarrow> j = i) \<and>
     (GENESIS_HASH \<notin> set (map se_hash (ch_rows t)) \<longrightarrow> distinct (map se_hash (ch_rows t)) \<longrightarrow>
      check_audit_row (ch_rows t) (new_row sha ev now p (Suc (ch_sequence t))) \<noteq>
        Some (UniqueViolation ''audit_events_prev_hash_unique''))"
proof -
  have inv: "chain_inv sha t" "lock_inv t"
    using locked_appenders.reachable_inv [OF assms(1,2)] by (simp_all add: locked_inv_def)
  then have s: "sort_key se_seq (ch_rows t) = ch_rows t" by (simp add: lock_inv_def)
  have p: "p = chain_head GENESIS_HASH (ch_rows t)"
    using inv(2) assms(3) unfolding lock_inv_def by blast
  have "ch_lock t = Some i" by (rule lock_holder [OF inv(2) assms(3)]) simp
  then have "j = i" if "past_lock (ch_pc t j)" for j
    using lock_holder [OF inv(2) refl that] by simp
  moreover have "p \<notin> set (map se_prevHash (ch_rows t))"
    if "GENESIS_HASH \<notin> set (map se_hash (ch_rows t))" "distinct (map se_hash (ch_rows t))"
  proof (cases "ch_rows t = []")
    case False
    with inv(1) that p chain_head_unused show ?thesis unfolding chain_inv_def by blast
  qed simp
  ultimately show ?thesis
    using p head_hash_chain_head [OF s] by (auto simp: check_audit_row_def new_row_def)
qed

lemma first_append_reads_head:
  "reaches (append_step True sum_digest) idle_system
     (goto 0 (HeadRead first_append [] GENESIS_HASH) (idle_system\<lparr>ch_lock := Some 0\<rparr>))"
proof -
  let ?s1 = "goto 0 (Waiting first_append) idle_system"
  let ?s2 = "(goto 0 (Locked first_append) ?s1)\<lparr>ch_lock := Some 0\<rparr>"
  have "append_step True sum_digest idle_system ?s1"
    by (rule begin_tx) (simp_all add: idle_system_def first_append_def append_event_def wf_metadata_def)
  moreover have "append_step True sum_digest ?s1 ?s2"
    by (rule take_lock) (simp_all add: idle_system_def)
  moreover have "append_step True sum_digest ?s2
      (goto 0 (HeadRead first_append [] (head_hash (ch_rows ?s2))) ?s2)"
    by (rule read_head) simp
  ultimately have "reaches (append_step True sum_digest) idle_system
      (goto 0 (HeadRead first_append [] (head_hash (ch_rows ?s2))) ?s2)"
    by (blast intro: reaches_refl reaches_step)
  then show ?thesis by (simp add: goto_def idle_system_def head_hash_def)
qed

theorem locked_append_has_current_head_witness:
  "GENESIS_HASH = head_hash (ch_rows
     (goto 0 (HeadRead first_append [] GENESIS_HASH) (idle_system\<lparr>ch_lock := Some 0\<rparr>)))"
proof -
  have "chain_init idle_system" by (simp add: chain_init_def idle_system_def)
  from locked_append_has_current_head [OF this first_append_reads_head, of 0] show ?thesis
    by simp
qed

text \<open>The sequential description of an append is a run of the concurrent machine: from a
  state where the lock is free, an idle appender can take the lock, read, insert and commit, and
  the machine then holds exactly the table and the result that the sequential function gives.\<close>

theorem appendAuditEvent_is_a_run:
  assumes "ch_pc s i = Idle" and "ch_lock s = None" and "\<And>j ev' r. ch_pc s j \<noteq> Inserted ev' r"
    and "wf_metadata (ap_metadata ev)"
    and "ch_rows s = tb_rows t" and "ch_sequence s = tb_sequence t"
    and "appendAuditEvent sha now ev t = (Inr a, t')"
  shows "\<exists>s'. reaches (append_step True sha) s s' \<and> ch_rows s' = tb_rows t' \<and>
    ch_sequence s' = tb_sequence t' \<and> ch_lock s' = None \<and> ch_pc s' = (ch_pc s)(i := Done a)"
  by (rule append_run [OF assms])

theorem appendAuditEvent_is_a_run_witness:
  "\<exists>a t' s'. appendAuditEvent sum_digest [] first_append empty_audit_table = (Inr a, t') \<and>
     reaches (append_step True sum_digest) idle_system s' \<and> ch_rows s' = tb_rows t'"
proof -
  obtain a t' where run: "appendAuditEvent sum_digest [] first_append empty_audit_table = (Inr a, t')"
    by (auto simp: appendAuditEvent_def Let_def empty_audit_table_def first_append_def
        append_event_def check_audit_row_def head_hash_def computeAuditHash_def
        audit_events_hash_width_ck_def audit_events_actor_ck_def audit_events_action_ck_def
        audit_input_def AUDIT_HASH_BYTES_def sum_digest_def GENESIS_HASH_def)
  then show ?thesis
    using appendAuditEvent_is_a_run [OF _ _ _ _ _ _ run, of idle_system 0]
    by (auto simp: idle_system_def empty_audit_table_def first_append_def append_event_def
        wf_metadata_def)
qed

end
