(* ===== verification/Contention.thy ===== *)
theory Contention
  imports Audit_Concurrency
begin

text \<open>
  \<open>packages/db/src/audit/contention-probe.ts\<close>: fire concurrent appends at the live chain and judge what they left.
  The probe walks the chain with a loop of its own; here that loop is shown to agree with the verifier, and
  the probe to pass whatever the interleaving of the writers. \<open>Number\<close> is an argument.
\<close>

section \<open>The probe\<close>

datatype appends_error = AppendsMissing | AppendsInvalid string

fun after_flag :: "string \<Rightarrow> string list \<Rightarrow> string list option" where
  "after_flag flag [] = None"
| "after_flag flag (a # rest) = (if a = flag then Some rest else after_flag flag rest)"

definition appends_arg :: "(string \<Rightarrow> int option) \<Rightarrow> string list \<Rightarrow> appends_error + nat" where
  "appends_arg number argv =
     (case after_flag ''--appends'' argv of
        None \<Rightarrow> Inr 50
      | Some [] \<Rightarrow> Inl AppendsMissing
      | Some (raw # _) \<Rightarrow>
          if startsWith raw ''--'' then Inl AppendsMissing
          else
            (case number raw of
               None \<Rightarrow> Inl (AppendsInvalid raw)
             | Some n \<Rightarrow> if n < 1 then Inl (AppendsInvalid raw) else Inr (nat n)))"

text \<open>A rejected append is known by its message.\<close>

type_synonym outcome = "string + AppendedAuditEvent"

definition isUnique :: "string \<Rightarrow> bool" where
  "isUnique msg \<longleftrightarrow> includesSub msg ''audit_events_prev_hash_unique'' \<or> includesSub msg ''audit_events_hash_unique''"

definition rejections :: "outcome list \<Rightarrow> string list" where
  "rejections outcomes = concat (map (\<lambda>r. case r of Inl msg \<Rightarrow> [msg] | Inr _ \<Rightarrow> []) outcomes)"

text \<open>The rows appended after the start, and the hash the first of them should point at.\<close>

definition rows_after :: "nat \<Rightarrow> StoredAuditEvent list \<Rightarrow> StoredAuditEvent list" where
  "rows_after startSeq rows = sort_key se_seq (filter (\<lambda>r. startSeq < se_seq r) rows)"

definition start_hash :: "nat \<Rightarrow> StoredAuditEvent list \<Rightarrow> bytes option" where
  "start_hash startSeq rows =
     (if startSeq = 0 then Some GENESIS_HASH else map_option se_hash (find (\<lambda>r. se_seq r = startSeq) rows))"

text \<open>The loop: the first broken link, the first broken hash, the count of checked rows; or the throw of the
  hash function.\<close>

fun probe_walk :: "(bytes \<Rightarrow> bytes) \<Rightarrow> bytes \<Rightarrow> nat \<Rightarrow> StoredAuditEvent list \<Rightarrow> string + nat option \<times> nat option \<times> nat" where
  "probe_walk sha expectedPrev checked [] = Inr (None, None, checked)"
| "probe_walk sha expectedPrev checked (r # rest) =
     (if se_prevHash r \<noteq> expectedPrev then Inr (Some (se_seq r), None, checked)
      else
        (case computeAuditHash sha r (se_prevHash r) of
           Inl err \<Rightarrow> Inl err
         | Inr recomputed \<Rightarrow>
             if recomputed \<noteq> se_hash r then Inr (None, Some (se_seq r), checked)
             else probe_walk sha (se_hash r) (Suc checked) rest))"

definition contention_checks ::
    "(bytes \<Rightarrow> bytes) \<Rightarrow> nat \<Rightarrow> outcome list \<Rightarrow> nat \<Rightarrow> StoredAuditEvent list \<Rightarrow> string + bool list" where
  "contention_checks sha appends outcomes startSeq table =
     (let uniqueViolations = filter isUnique (rejections outcomes);
          others = filter (\<lambda>m. \<not> isUnique m) (rejections outcomes);
          rows = rows_after startSeq table
      in case start_hash startSeq table of
           None \<Rightarrow> Inl ''the head at the start is gone''
         | Some expectedPrev \<Rightarrow>
             (case probe_walk sha expectedPrev 0 rows of
                Inl err \<Rightarrow> Inl err
              | Inr (linkBreak, hashBreak, checked) \<Rightarrow>
                  Inr ([uniqueViolations = [], others = [], appends \<le> length rows] @
                       (if rows = [] then [False] else [linkBreak = None, hashBreak = None]))))"

definition contention_passes ::
    "(bytes \<Rightarrow> bytes) \<Rightarrow> nat \<Rightarrow> outcome list \<Rightarrow> nat \<Rightarrow> StoredAuditEvent list \<Rightarrow> bool" where
  "contention_passes sha appends outcomes startSeq table =
     (case contention_checks sha appends outcomes startSeq table of Inl _ \<Rightarrow> False | Inr checks \<Rightarrow> list_all (\<lambda>c. c) checks)"

text \<open>The events it fires, and the command: \<open>fire\<close> gives the outcomes of the appends, the last sequence number before them
  and the table after them. The exit code is 0 or 1.\<close>

definition contention_event :: "nat \<Rightarrow> AppendAuditEvent" where
  "contention_event i =
     (append_event ''probe.concurrent'' at_system)
       \<lparr>ap_actorId := Some (''probe-'' @ show_nat i), ap_metadata := [(''index'', show_nat i)]\<rparr>"

definition contention_main ::
    "(bytes \<Rightarrow> bytes) \<Rightarrow> (string \<Rightarrow> int option) \<Rightarrow> string list \<Rightarrow> string option \<Rightarrow>
     (AppendAuditEvent list \<Rightarrow> outcome list \<times> nat \<times> StoredAuditEvent list) \<Rightarrow> nat" where
  "contention_main sha number argv url fire =
     (case appends_arg number argv of
        Inl _ \<Rightarrow> 1
      | Inr appends \<Rightarrow>
          if url = None \<or> url = Some [] then 1
          else
            (case fire (map contention_event [0..<appends]) of
               (outcomes, startSeq, table) \<Rightarrow> if contention_passes sha appends outcomes startSeq table then 0 else 1))"

section \<open>The probe and the verifier agree\<close>

lemma probe_walk_clean:
  "(\<exists>n. probe_walk sha p k rows = Inr (None, None, n)) \<longleftrightarrow> chain_ok sha p rows"
proof (induction rows arbitrary: p k)
  case (Cons r rest)
  then show ?case
    by (auto simp: computeAuditHash_def hash_input_def split: if_splits)
qed simp

lemma rejections_empty: "rejections outcomes = [] \<longleftrightarrow> list_all (\<lambda>r. \<not> isl r) outcomes"
  by (auto simp: rejections_def list_all_iff isl_def split: sum.splits)

lemma contention_passes_iff:
  "contention_passes sha appends outcomes startSeq table \<longleftrightarrow>
     list_all (\<lambda>r. \<not> isl r) outcomes \<and> appends \<le> length (rows_after startSeq table) \<and> rows_after startSeq table \<noteq> [] \<and>
     (\<exists>p. start_hash startSeq table = Some p \<and> verifyAuditChain sha (rows_after startSeq table) p = Inr None)"
proof (cases "start_hash startSeq table")
  case (Some p)
  let ?rows = "rows_after startSeq table"
  have walk: "verifyAuditChain sha ?rows p = Inr None \<longleftrightarrow> (\<exists>n. probe_walk sha p 0 ?rows = Inr (None, None, n))"
    by (simp add: probe_walk_clean verifyAuditChain_None_iff)
  have "rejections outcomes = [] \<longleftrightarrow> filter isUnique (rejections outcomes) = [] \<and> filter (\<lambda>m. \<not> isUnique m) (rejections outcomes) = []"
    by (auto simp: filter_empty_conv)
  with Some walk show ?thesis
    unfolding contention_passes_def contention_checks_def rejections_empty [symmetric]
    by (auto simp: Let_def split: sum.split)
qed (simp add: contention_passes_def contention_checks_def)

text \<open>The contention probe exits with 0 exactly if its arguments give a positive number of appends, the database is
  configured, every append it fired succeeded, at least as many rows landed as it fired, at
  least one did, and the verifier finds those rows one unbroken chain from the head at the start. In
  particular its own walk of the chain agrees with the verifier's, and it never passes on nothing.\<close>

theorem contention_probe_exact:
  "contention_main sha number argv url fire = 0 \<longleftrightarrow>
     (\<exists>appends outcomes startSeq table p.
        appends_arg number argv = Inr appends \<and> url \<noteq> None \<and> url \<noteq> Some [] \<and>
        fire (map contention_event [0..<appends]) = (outcomes, startSeq, table) \<and>
        list_all (\<lambda>r. \<not> isl r) outcomes \<and> appends \<le> length (rows_after startSeq table) \<and> rows_after startSeq table \<noteq> [] \<and>
        start_hash startSeq table = Some p \<and> verifyAuditChain sha (rows_after startSeq table) p = Inr None)"
  by (auto simp: contention_main_def contention_passes_iff split: sum.split prod.split)

section \<open>The probe on the real writers\<close>

lemma append_step_rows: "append_step useLock sha s t \<Longrightarrow> prefix (ch_rows s) (ch_rows t)"
  by (induction rule: append_step.induct) simp_all

lemma reaches_rows: "reaches (append_step useLock sha) s t \<Longrightarrow> prefix (ch_rows s) (ch_rows t)"
  by (induction rule: reaches.induct) (auto intro: prefix_order.trans append_step_rows)

definition last_seq :: "StoredAuditEvent list \<Rightarrow> nat" where
  "last_seq rows = (if rows = [] then 0 else Max (set (map se_seq rows)))"

lemma last_seq_snoc: "seqs_ok (xs @ [r]) n \<Longrightarrow> last_seq (xs @ [r]) = se_seq r"
  by (auto simp: last_seq_def seqs_ok_def sorted_wrt_append intro!: Max_eqI)

lemma find_after: "(\<And>q. q \<in> set zs \<Longrightarrow> \<not> P q) \<Longrightarrow> P r \<Longrightarrow> find P (zs @ r # ys) = Some r"
  by (induction zs) auto

lemma rows_after_prefix:
  assumes "seqs_ok (xs @ ys) n"
  shows "rows_after (last_seq xs) (xs @ ys) = ys" and "start_hash (last_seq xs) (xs @ ys) = Some (chain_head GENESIS_HASH xs)"
proof -
  have s: "sorted_wrt (<) (map se_seq xs)" "sorted_wrt (<) (map se_seq ys)" "\<And>x y. x \<in> set xs \<Longrightarrow> y \<in> set ys \<Longrightarrow> se_seq x < se_seq y"
      "\<And>r. r \<in> set xs \<union> set ys \<Longrightarrow> 1 \<le> se_seq r"
    using assms by (auto simp: seqs_ok_def sorted_wrt_append)
  have xs: "se_seq x \<le> last_seq xs" if "x \<in> set xs" for x using that by (auto simp: last_seq_def)
  have ys: "last_seq xs < se_seq y" if "y \<in> set ys" for y
    using that s(3,4) by (cases "xs = []") (force simp: last_seq_def)+
  have "filter (\<lambda>r. last_seq xs < se_seq r) (xs @ ys) = ys"
    using xs ys by (simp add: filter_empty_conv filter_id_conv not_less)
  with s(2) show "rows_after (last_seq xs) (xs @ ys) = ys"
    by (simp add: rows_after_def sort_key_id_if_sorted strict_sorted_imp_sorted)
  show "start_hash (last_seq xs) (xs @ ys) = Some (chain_head GENESIS_HASH xs)"
  proof (cases xs rule: rev_cases)
    case (snoc zs r)
    then have "last_seq xs = se_seq r" using assms last_seq_snoc [of zs r n] by (auto simp: seqs_ok_def sorted_wrt_append)
    moreover have "find (\<lambda>q. se_seq q = se_seq r) (zs @ r # ys) = Some r"
      using s(1) snoc by (intro find_after) (auto simp: sorted_wrt_append)
    ultimately show ?thesis using s(4) [of r] snoc by (simp add: start_hash_def chain_head_last)
  qed (simp add: start_hash_def last_seq_def)
qed

text \<open>The writers pass their probe. Let any appenders run to some state and take its last sequence number as the start;
  let them go on in any interleaving, until at least the fired appends have landed and none was
  rejected. Then the probe passes on the table they left, rows of other writers among them.\<close>

theorem contention_probe_passes:
  assumes "chain_init s0" and "reaches (append_step useLock sha) s0 s" and "reaches (append_step useLock sha) s t"
    and "0 < appends" and "length (ch_rows s) + appends \<le> length (ch_rows t)" and "list_all (\<lambda>r. \<not> isl r) outcomes"
  shows "contention_passes sha appends outcomes (last_seq (ch_rows s)) (ch_rows t)"
proof -
  obtain ys where ys: "ch_rows t = ch_rows s @ ys" using reaches_rows [OF assms(3)] by (auto simp: prefix_def)
  have "chain_inv sha s" by (rule appenders.reachable_inv [OF assms(1,2)])
  then have "chain_inv sha t" by (rule appenders.inv_reaches [OF assms(3)])
  then have ok: "chain_ok sha GENESIS_HASH (ch_rows s @ ys)" "seqs_ok (ch_rows s @ ys) (ch_sequence t)"
    by (simp_all add: chain_inv_def ys)
  have "rows_after (last_seq (ch_rows s)) (ch_rows t) = ys"
      "start_hash (last_seq (ch_rows s)) (ch_rows t) = Some (chain_head GENESIS_HASH (ch_rows s))"
    using rows_after_prefix [OF ok(2)] by (simp_all add: ys)
  moreover have "verifyAuditChain sha ys (chain_head GENESIS_HASH (ch_rows s)) = Inr None"
    using ok(1) by (simp add: verifyAuditChain_None_iff del: verifyAuditChain.simps)
  ultimately show ?thesis using assms(4-6) ys by (auto simp: contention_passes_iff)
qed

theorem contention_probe_passes_witness:
  "\<exists>t :: ChainSys. length (ch_rows t) = 1 \<and> contention_passes sum_digest 1 [Inr \<lparr>aa_seq = 1, aa_occurredAt = [], aa_hash = [], aa_prevHash = []\<rparr>] 0 (ch_rows t)"
proof -
  obtain t where t: "reaches (append_step True sum_digest) idle_system t" "length (ch_rows t) = 1"
    using first_append_run by blast
  have "chain_init idle_system" "ch_rows idle_system = []" by (simp_all add: chain_init_def idle_system_def)
  with contention_probe_passes [OF _ reaches_refl t(1), of 1 "[Inr \<lparr>aa_seq = 1, aa_occurredAt = [], aa_hash = [], aa_prevHash = []\<rparr>]"] t(2) show ?thesis
    by (auto simp: last_seq_def)
qed

end
