(* ===== verification/Live_Verification.thy ===== *)
theory Live_Verification
  imports Audit_Chain
begin

text \<open>
  The loop of \<open>packages/db/src/audit/verify-chain.ts\<close> on a chain that is being written to: each page is read from the
  table as it is at that moment. The loop has no bound of its own; that it ends, and what it then says, is
  shown here.
\<close>

section \<open>The loop, one table per read\<close>

text \<open>None: the loop is still running after these reads.\<close>

fun verify_live ::
    "(bytes \<Rightarrow> bytes) \<Rightarrow> nat \<Rightarrow> StoredAuditEvent list list \<Rightarrow> nat \<Rightarrow> bytes \<Rightarrow> nat \<Rightarrow> bytes option \<Rightarrow> VerifyOutcome option" where
  "verify_live sha pageSize [] afterSeq expectedPrev verified headHash = None"
| "verify_live sha pageSize (rows # later) afterSeq expectedPrev verified headHash =
     (let events = readPage rows afterSeq pageSize in
      if events = [] then Some (if verified = 0 then Empty else Intact verified headHash)
      else
        (case verifyAuditChain sha events expectedPrev of
           Inl err \<Rightarrow> Some (VerifyThrew err)
         | Inr (Some broken) \<Rightarrow>
             Some (Broken broken
               (verified + (case findIndex (\<lambda>e. se_seq e = cb_seq broken) events of None \<Rightarrow> 0 | Some i \<Rightarrow> i)))
         | Inr None \<Rightarrow>
             verify_live sha pageSize later (se_seq (last events)) (se_hash (last events))
               (verified + length events) (Some (se_hash (last events)))))"

text \<open>On a table that stays as it is, this is the loop of \<^const>\<open>verify_pages\<close>.\<close>

lemma verify_live_still:
  "0 < k \<Longrightarrow> verify_live sha k (replicate m rows) a p v h = Some x \<Longrightarrow> verify_pages sha rows k a p v h = x"
proof (induction m arbitrary: a p v h)
  case (Suc m)
  then show ?case
    by (subst verify_pages.simps) (auto simp: Let_def split: if_splits sum.splits option.splits)
qed simp

text \<open>What it says after the first \<open>m\<close> rows of a sound chain.\<close>

definition live_verdict :: "StoredAuditEvent list \<Rightarrow> nat \<Rightarrow> VerifyOutcome" where
  "live_verdict rows m = (if m = 0 then Empty else Intact m (Some (se_hash (rows ! (m - 1)))))"

definition seq_after :: "StoredAuditEvent list \<Rightarrow> nat" where
  "seq_after xs = (if xs = [] then 0 else se_seq (last xs))"

lemma seq_after_splits:
  assumes "seqs_ok (xs @ ys) n"
  shows "r \<in> set xs \<Longrightarrow> se_seq r \<le> seq_after xs" and "r \<in> set ys \<Longrightarrow> seq_after xs < se_seq r"
proof -
  show "se_seq r \<le> seq_after xs" if "r \<in> set xs"
    using that assms by (cases xs rule: rev_cases) (auto simp: seq_after_def seqs_ok_def sorted_wrt_append)
  show "seq_after xs < se_seq r" if "r \<in> set ys"
    using that assms seqs_ok_bounds [OF assms, of "last xs" r] by (auto simp: seq_after_def seqs_ok_def Suc_le_eq)
qed

lemma seqs_ok_prefix: "seqs_ok (xs @ ys) n \<Longrightarrow> seqs_ok xs n"
  by (auto simp: seqs_ok_def sorted_wrt_append)

text \<open>The page after \<open>xs\<close>, read from any earlier state of the table.\<close>

lemma readPage_prefix:
  assumes "seqs_ok (xs @ ys) n" "prefix rows (xs @ ys)"
  obtains (caught_up) "readPage rows (seq_after xs) k = []" "prefix rows xs"
  | (more) zs where "rows = xs @ zs" "prefix zs ys" "zs \<noteq> []" "readPage rows (seq_after xs) k = take k zs"
proof (cases "prefix rows xs")
  case True
  then have "readPage rows (seq_after xs) k = []"
    using seq_after_splits(1) [OF assms(1)] by (auto simp: readPage_def filter_empty_conv prefix_def not_less)
  then show ?thesis using True by (rule caught_up)
next
  case False
  with assms(2) obtain zs where zs: "rows = xs @ zs" "prefix zs ys" "zs \<noteq> []"
    by (auto simp: prefix_append)
  then obtain us where "ys = zs @ us" by (auto simp: prefix_def)
  with assms(1) have ok: "seqs_ok (xs @ zs) n" using seqs_ok_prefix [of "xs @ zs" us n] by simp
  have "readPage rows (seq_after xs) k = take k zs"
    unfolding zs(1) by (rule readPage_split [OF ok seq_after_splits [OF ok]])
  with zs show ?thesis by (metis more)
qed

lemma verify_live_ends:
  assumes "seqs_ok (xs @ ys) n" and "chain_ok sha GENESIS_HASH (xs @ ys)" and "0 < k"
    and "list_all (\<lambda>rows. prefix rows (xs @ ys)) reads" and "sorted_wrt prefix reads" and "length ys < length reads"
  shows "\<exists>m. length (hd reads) \<le> m \<and> m \<le> length (xs @ ys) \<and>
    verify_live sha k reads (seq_after xs) (chain_head GENESIS_HASH xs) (length xs)
      (if xs = [] then None else Some (chain_head GENESIS_HASH xs)) = Some (live_verdict (xs @ ys) m)"
  using assms
proof (induction reads arbitrary: xs ys)
  case (Cons rows later)
  have page: "prefix rows (xs @ ys)" using Cons.prems(4) by simp
  from Cons.prems(1) page show ?case
  proof (cases rule: readPage_prefix [where k = k])
    case caught_up
    moreover have "live_verdict (xs @ ys) (length xs) = (if xs = [] then Empty else Intact (length xs) (Some (chain_head GENESIS_HASH xs)))"
      by (auto simp: live_verdict_def chain_head_last last_conv_nth nth_append)
    ultimately show ?thesis by (intro exI [of _ "length xs"]) (auto dest: prefix_length_le)
  next
    case (more zs)
    let ?page = "take k zs"
    obtain us where ys: "ys = zs @ us" using more(2) by (auto simp: prefix_def)
    have page: "?page \<noteq> []" using more(3) Cons.prems(3) by simp
    have split: "xs @ ys = (xs @ ?page) @ drop k zs @ us" by (simp add: ys)
    have "chain_ok sha (chain_head GENESIS_HASH xs) ?page"
      using Cons.prems(2) unfolding split by simp
    then have ok: "verifyAuditChain sha ?page (chain_head GENESIS_HASH xs) = Inr None"
      by (simp add: verifyAuditChain_None_iff del: verifyAuditChain.simps)
    have fewer: "length (drop k zs @ us) < length ys" using page by (simp add: ys)
    then have later: "later \<noteq> []" "length (drop k zs @ us) < length later" using Cons.prems(6) by auto
    have "length rows \<le> length (hd later)" using Cons.prems(5) later(1) by (cases later) (auto dest: prefix_length_le)
    moreover obtain m where m: "length (hd later) \<le> m" "m \<le> length (xs @ ys)"
        "verify_live sha k later (seq_after (xs @ ?page)) (chain_head GENESIS_HASH (xs @ ?page)) (length (xs @ ?page))
          (Some (chain_head GENESIS_HASH (xs @ ?page))) = Some (live_verdict (xs @ ys) m)"
      using Cons.IH [of "xs @ ?page" "drop k zs @ us"] Cons.prems later(2) page unfolding split by auto
    ultimately show ?thesis
      using more(4) ok page by (intro exI [of _ m]) (auto simp: seq_after_def chain_head_last)
  qed
qed simp

text \<open>C17: The verifier ends on a live chain, and raises no false alarm. Let the rows it reads at each page come from a
  sound table that only grows while it runs. After at most one read more than there are rows at the end it
  has answered, with any page size, and its answer is that the chain is intact, with the count and the
  head hash of some point between the chain as it was at its first read and as it is at the end.\<close>

theorem verifier_ends_on_live_chain:
  assumes "seqs_ok rows n" and "chain_ok sha GENESIS_HASH rows" and "0 < pageSize" and "sorted_wrt prefix reads"
    and "list_all (\<lambda>rs. prefix rs rows) reads" and "length rows < length reads"
  shows "\<exists>m. length (hd reads) \<le> m \<and> m \<le> length rows \<and>
    verify_live sha pageSize reads 0 GENESIS_HASH 0 None = Some (live_verdict rows m)"
  using verify_live_ends [of "[]" rows n sha pageSize reads] assms by (simp add: seq_after_def)

text \<open>One row stored before the first read; a second one arrives after it.\<close>

definition early_row :: StoredAuditEvent where
  "early_row = sample_stored (sample_event ''a'' []) 1 GENESIS_HASH"

definition late_row :: StoredAuditEvent where
  "late_row = sample_stored (sample_event ''b'' []) 3 (se_hash early_row)"

lemma growing_rows_ok:
  "seqs_ok [early_row, late_row] 3" "chain_ok sum_digest GENESIS_HASH [early_row, late_row]"
  by (simp_all add: seqs_ok_def early_row_def late_row_def)

theorem verifier_ends_on_live_chain_witness:
  "\<exists>m. 1 \<le> m \<and> m \<le> 2 \<and>
     verify_live sum_digest 500 [[early_row], [early_row, late_row], [early_row, late_row]] 0 GENESIS_HASH 0 None =
       Some (live_verdict [early_row, late_row] m)"
  using verifier_ends_on_live_chain [of "[early_row, late_row]" 3 sum_digest 500
      "[[early_row], [early_row, late_row], [early_row, late_row]]"] growing_rows_ok
  by (simp del: verify_live.simps chain_ok.simps add: numeral_2_eq_2)

end
