(* ===== verification/Provisioning_Probe.thy ===== *)
theory Provisioning_Probe
  imports Provisioning
begin

text \<open>
  The provisioning probe, \<open>packages/db/src/tenants/provisioning-probe.ts\<close>: scenarios that stage what an
  interrupted run left, or what somebody else owns, call \<^const>\<open>provisionTenant\<close>, and look at the outcome. Each
  scenario answers its checks and whether the probe stopped there, with the world it leaves. The table
  \<open>probe_foreign\<close> of the scenario with a foreign marker is not one of the tenant tables and is left out.
\<close>

section \<open>One run of the probe\<close>

text \<open>What the run meets: the digest, the suffix of its slugs, the ids the databases generate, the faults of each call,
  whether the second of the two racing calls asks for the lock while the first one holds it, and the faults of the
  \<open>DROP DATABASE\<close> and the \<open>DELETE\<close> that remove each slug again.\<close>

record ProbeRun =
  pb_sha :: "bytes \<Rightarrow> bytes"
  pb_run :: string
  pb_ids :: "nat \<Rightarrow> string"
  pb_roleIds :: "nat \<Rightarrow> string"
  pb_faults :: "nat \<Rightarrow> Faults"
  pb_overlap :: bool
  pb_drop :: "string \<Rightarrow> fault"
  pb_delete :: "string \<Rightarrow> fault"

type_synonym probe_result = "(bool list \<times> bool) \<times> ProvisionWorld"
type_synonym scenario = "string \<Rightarrow> string \<Rightarrow> ProvisionWorld \<Rightarrow> probe_result"

definition stopped_at :: "ProvisionWorld \<Rightarrow> probe_result" where
  "stopped_at w = (([], True), w)"

definition answered :: "bool list \<Rightarrow> ProvisionWorld \<Rightarrow> probe_result" where
  "answered checks w = ((checks, False), w)"

definition slugFor :: "ProbeRun \<Rightarrow> string \<Rightarrow> string" where
  "slugFor p scenario = ''resume-'' @ scenario @ ''-'' @ pb_run p"

definition call_provision ::
    "ProbeRun \<Rightarrow> nat \<Rightarrow> string \<Rightarrow> string \<Rightarrow> ProvisionWorld \<Rightarrow> (ProvisionError + Tenant \<times> bool) \<times> ProvisionWorld" where
  "call_provision p k slug name w =
     provisionTenant (pb_sha p) (pb_faults p k) (pb_ids p k) (pb_roleIds p k) slug name w"

section \<open>Statements the probe makes itself\<close>

definition stageRow :: "string \<Rightarrow> string \<Rightarrow> string \<Rightarrow> string \<Rightarrow> ProvisionWorld \<Rightarrow> ProvisionWorld option" where
  "stageRow newId slug name databaseName w =
     (let row = \<lparr>tr_id = newId, tr_slug = slug, tr_name = name, tr_databaseName = databaseName, tr_status = ts_provisioning\<rparr>
      in if tenant_constraints row (pw_tenants w) then Some (w\<lparr>pw_tenants := pw_tenants w @ [row]\<rparr>) else None)"

definition rowOf :: "string \<Rightarrow> ProvisionWorld \<Rightarrow> TenantRecord option" where
  "rowOf slug w = find (\<lambda>r. tr_slug r = slug) (pw_tenants w)"

definition create_probe_database :: "string \<Rightarrow> ProvisionWorld \<Rightarrow> ProvisionWorld option" where
  "create_probe_database n w =
     (if pw_cluster w n = None
      then Some (w\<lparr>pw_cluster := (pw_cluster w)(n \<mapsto> \<lparr>cd_marker = None, cd_permissions = [], cd_tables = None\<rparr>)\<rparr>)
      else None)"

definition databaseExists :: "string \<Rightarrow> ProvisionWorld \<Rightarrow> bool" where
  "databaseExists n w \<longleftrightarrow> pw_cluster w n \<noteq> None"

definition markerOf :: "string \<Rightarrow> ProvisionWorld \<Rightarrow> string option" where
  "markerOf n w = Option.bind (pw_cluster w n) cd_marker"

text \<open>A change inside one database; None when the connection or the statement is refused.\<close>

definition inDatabase ::
    "string \<Rightarrow> (ClusterDatabase \<Rightarrow> ClusterDatabase option) \<Rightarrow> ProvisionWorld \<Rightarrow> ProvisionWorld option" where
  "inDatabase n f w = map_option (\<lambda>d. w\<lparr>pw_cluster := (pw_cluster w)(n \<mapsto> d)\<rparr>) (Option.bind (pw_cluster w n) f)"

text \<open>A query over the tenant tables; None when the database or the tables are not there.\<close>

definition tenant_tables :: "string \<Rightarrow> ProvisionWorld \<Rightarrow> TenantData option" where
  "tenant_tables n w = Option.bind (pw_cluster w n) cd_tables"

definition roles_named :: "string \<Rightarrow> TenantData \<Rightarrow> nat" where
  "roles_named role db = length (filter (\<lambda>(_, r). r = role) (td_roles db))"

definition insert_role :: "string \<Rightarrow> string \<Rightarrow> ClusterDatabase \<Rightarrow> ClusterDatabase option" where
  "insert_role roleId role d =
     map_option (\<lambda>db. d\<lparr>cd_tables := Some (db\<lparr>td_roles := td_roles db @ [(roleId, role)]\<rparr>)\<rparr>) (cd_tables d)"

record RbacCounts =
  rb_adminRoles :: nat
  rb_permissions :: nat
  rb_grants :: nat

definition rbacOf :: "string \<Rightarrow> ProvisionWorld \<Rightarrow> RbacCounts option" where
  "rbacOf n w =
     (case pw_cluster w n of
        None \<Rightarrow> None
      | Some d \<Rightarrow>
          map_option (\<lambda>db. \<lparr>rb_adminRoles = roles_named TENANT_ADMIN_ROLE_NAME db, rb_permissions = length (cd_permissions d),
                           rb_grants = length (td_rolePermissions db)\<rparr>) (cd_tables d))"

definition builtOnce :: "RbacCounts \<Rightarrow> bool" where
  "builtOnce rbac \<longleftrightarrow>
     rb_adminRoles rbac = 1 \<and> rb_permissions rbac = length DEFAULT_PERMISSIONS \<and> rb_grants rbac = length DEFAULT_PERMISSIONS"

fun rejectionOf :: "ProvisionError + 'a \<Rightarrow> ProvisionError option" where
  "rejectionOf (Inl e) = Some e"
| "rejectionOf (Inr _) = None"

fun is_conflict :: "ProvisionError option \<Rightarrow> bool" where
  "is_conflict (Some (TenantDatabaseConflictError _ _)) \<longleftrightarrow> True"
| "is_conflict _ \<longleftrightarrow> False"

fun is_existing :: "ProvisionError option \<Rightarrow> bool" where
  "is_existing (Some (ProvisionDomain (TenantAlreadyExistsError _))) \<longleftrightarrow> True"
| "is_existing _ \<longleftrightarrow> False"

fun is_in_progress :: "ProvisionError option \<Rightarrow> bool" where
  "is_in_progress (Some (ProvisionDomain (TenantProvisioningInProgressError _))) \<longleftrightarrow> True"
| "is_in_progress _ \<longleftrightarrow> False"

definition still_provisioning :: "string \<Rightarrow> ProvisionWorld \<Rightarrow> bool" where
  "still_provisioning slug w \<longleftrightarrow> map_option tr_status (rowOf slug w) = Some ts_provisioning"

section \<open>The scenarios\<close>

definition fresh_scenario :: "ProbeRun \<Rightarrow> scenario" where
  "fresh_scenario p slug n w =
     (case call_provision p 0 slug ''Probe fresh'' w of
        (Inl _, w1) \<Rightarrow> stopped_at w1
      | (Inr (tenant, resumed), w1) \<Rightarrow>
          answered [tn_status tenant = ts_active \<and> \<not> resumed, markerOf n w1 = Some (tenantDatabaseMarker (tn_id tenant))] w1)"

text \<open>The retry and its check, the same in the two scenarios whose database was not built.\<close>

definition retry_check :: "ProbeRun \<Rightarrow> nat \<Rightarrow> string \<Rightarrow> string \<Rightarrow> string \<Rightarrow> string \<Rightarrow> ProvisionWorld \<Rightarrow> probe_result" where
  "retry_check p k newId slug name n w =
     (case call_provision p k slug name w of
        (Inl _, w1) \<Rightarrow> stopped_at w1
      | (Inr (tenant, resumed), w1) \<Rightarrow>
          (case rbacOf n w1 of
             None \<Rightarrow> stopped_at w1
           | Some rbac \<Rightarrow>
               answered [resumed \<and> tn_id tenant = newId \<and> tn_status tenant = ts_active \<and>
                 markerOf n w1 = Some (tenantDatabaseMarker newId) \<and> builtOnce rbac] w1))"

definition nodb_scenario :: "ProbeRun \<Rightarrow> scenario" where
  "nodb_scenario p slug n w =
     (case stageRow (pb_ids p 21) slug ''Probe nodb'' n w of
        None \<Rightarrow> stopped_at w
      | Some w1 \<Rightarrow> retry_check p 1 (pb_ids p 21) slug ''Probe nodb'' n w1)"

definition emptydb_scenario :: "ProbeRun \<Rightarrow> scenario" where
  "emptydb_scenario p slug n w =
     (case stageRow (pb_ids p 22) slug ''Probe emptydb'' n w of
        None \<Rightarrow> stopped_at w
      | Some w1 \<Rightarrow>
          (case create_probe_database n w1 of
             None \<Rightarrow> stopped_at w1
           | Some w2 \<Rightarrow> retry_check p 2 (pb_ids p 22) slug ''Probe emptydb'' n w2))"

definition set_provisioning :: "string \<Rightarrow> TenantRecord \<Rightarrow> TenantRecord" where
  "set_provisioning tenantId r = (if tr_id r = tenantId then r\<lparr>tr_status := ts_provisioning\<rparr> else r)"

definition built_scenario :: "ProbeRun \<Rightarrow> scenario" where
  "built_scenario p slug n w =
     (case call_provision p 3 slug ''Probe built'' w of
        (Inl _, w1) \<Rightarrow> stopped_at w1
      | (Inr (first, _), w1) \<Rightarrow>
          let w2 = w1\<lparr>pw_tenants := map (set_provisioning (tn_id first)) (pw_tenants w1)\<rparr> in
          (case inDatabase n (insert_role (pb_roleIds p 23) ''probe-sentinel'') w2 of
             None \<Rightarrow> stopped_at w2
           | Some w3 \<Rightarrow>
               (case call_provision p 4 slug ''Probe built'' w3 of
                  (Inl _, w4) \<Rightarrow> stopped_at w4
                | (Inr (tenant, resumed), w4) \<Rightarrow>
                    (case (rbacOf n w4, tenant_tables n w4) of
                       (Some rbac, Some db) \<Rightarrow>
                         answered [resumed \<and> tn_id tenant = tn_id first \<and> tn_status tenant = ts_active \<and> builtOnce rbac \<and>
                           roles_named ''probe-sentinel'' db = 1] w4
                     | _ \<Rightarrow> stopped_at w4))))"

definition marked_scenario :: "ProbeRun \<Rightarrow> scenario" where
  "marked_scenario p slug n w =
     (case stageRow (pb_ids p 25) slug ''Probe marked'' n w of
        None \<Rightarrow> stopped_at w
      | Some w1 \<Rightarrow>
          (case create_probe_database n w1 of
             None \<Rightarrow> stopped_at w1
           | Some w2 \<Rightarrow>
               let foreignMarker = tenantDatabaseMarker (pb_ids p 30) in
               (case inDatabase n (\<lambda>d. Some (d\<lparr>cd_marker := Some foreignMarker\<rparr>)) w2 of
                  None \<Rightarrow> stopped_at w2
                | Some w3 \<Rightarrow>
                    (case call_provision p 5 slug ''Probe marked'' w3 of
                       (result, w4) \<Rightarrow>
                         if \<not> databaseExists n w4 then stopped_at w4
                         else
                           answered [is_conflict (rejectionOf result) \<and> still_provisioning slug w4 \<and>
                             markerOf n w4 = Some foreignMarker \<and> tenant_tables n w4 = None] w4))))"

text \<open>The tenant schema with no rows in it.\<close>

definition tenant_schema :: TenantData where
  "tenant_schema = \<lparr>td_users = [], td_roles = [], td_userRoles = [], td_rolePermissions = [], td_audit = empty_audit_table\<rparr>"

definition leftover_scenario :: "ProbeRun \<Rightarrow> scenario" where
  "leftover_scenario p slug n w =
     (case stageRow (pb_ids p 26) slug ''Probe leftover'' n w of
        None \<Rightarrow> stopped_at w
      | Some w1 \<Rightarrow>
          (case create_probe_database n w1 of
             None \<Rightarrow> stopped_at w1
           | Some w2 \<Rightarrow>
               (case inDatabase n (\<lambda>d. insert_role (pb_roleIds p 26) ''leftover-role'' (d\<lparr>cd_tables := Some tenant_schema\<rparr>)) w2 of
                  None \<Rightarrow> stopped_at w2
                | Some w3 \<Rightarrow>
                    (case call_provision p 6 slug ''Probe leftover'' w3 of
                       (result, w4) \<Rightarrow>
                         (case tenant_tables n w4 of
                            None \<Rightarrow> stopped_at w4
                          | Some db \<Rightarrow>
                              answered [is_conflict (rejectionOf result) \<and> still_provisioning slug w4 \<and>
                                markerOf n w4 = None \<and> roles_named ''leftover-role'' db = 1 \<and>
                                roles_named TENANT_ADMIN_ROLE_NAME db = 0] w4)))))"

definition rename_scenario :: "ProbeRun \<Rightarrow> scenario" where
  "rename_scenario p slug n w =
     (case stageRow (pb_ids p 27) slug ''Probe original name'' n w of
        None \<Rightarrow> stopped_at w
      | Some w1 \<Rightarrow>
          (case call_provision p 7 slug ''Probe other name'' w1 of
             (result, w2) \<Rightarrow>
               answered [is_existing (rejectionOf result) \<and> still_provisioning slug w2 \<and>
                 map_option tr_name (rowOf slug w2) = Some ''Probe original name'' \<and> \<not> databaseExists n w2] w2))"

text \<open>\<open>pg_advisory_lock\<close> waits for a lock that somebody else holds; the probe then gets no further.\<close>

definition locked_scenario :: "ProbeRun \<Rightarrow> scenario" where
  "locked_scenario p slug n w =
     (case stageRow (pb_ids p 28) slug ''Probe locked'' n w of
        None \<Rightarrow> stopped_at w
      | Some w1 \<Rightarrow>
          let key = provisioningLockKeys (pb_sha p) n in
          if key \<in> set (pw_locks w1) then stopped_at w1
          else
            (case call_provision p 8 slug ''Probe locked'' (w1\<lparr>pw_locks := key # pw_locks w1\<rparr>) of
               (refused, w2) \<Rightarrow>
                 let check = is_in_progress (rejectionOf refused) \<and> still_provisioning slug w2 \<and> \<not> databaseExists n w2;
                     w3 = w2\<lparr>pw_locks := remove1 key (pw_locks w2)\<rparr>
                 in (case call_provision p 9 slug ''Probe locked'' w3 of
                       (Inl _, w4) \<Rightarrow> (([check], True), w4)
                     | (Inr (tenant, resumed), w4) \<Rightarrow> answered [check, resumed \<and> tn_status tenant = ts_active] w4)))"

text \<open>Two calls at once: the second asks for the lock while the first holds it, or after the first has ended; the lock
  admits no other order. While it is held the second call sees only the lock.\<close>

definition race ::
    "ProbeRun \<Rightarrow> string \<Rightarrow> string \<Rightarrow> string \<Rightarrow> ProvisionWorld \<Rightarrow>
     (ProvisionError + Tenant \<times> bool) list \<times> ProvisionWorld" where
  "race p slug name n w =
     (case call_provision p 10 slug name w of
        (first, w1) \<Rightarrow>
          (case lockProvisioning (pb_sha p) (ft_lock (pb_faults p 10)) n w of
             (Inr True, held) \<Rightarrow>
               if pb_overlap p then ([first, fst (call_provision p 11 slug name held)], w1)
               else (case call_provision p 11 slug name w1 of (second, w2) \<Rightarrow> ([first, second], w2))
           | _ \<Rightarrow> (case call_provision p 11 slug name w1 of (second, w2) \<Rightarrow> ([first, second], w2))))"

definition race_scenario :: "ProbeRun \<Rightarrow> scenario" where
  "race_scenario p slug n w =
     (case race p slug ''Probe race'' n w of
        (outcomes, w1) \<Rightarrow>
          let won = filter (\<lambda>r. rejectionOf r = None) outcomes;
              lost = filter (\<lambda>r. rejectionOf r \<noteq> None) outcomes
          in (case rbacOf n w1 of
                None \<Rightarrow> stopped_at w1
              | Some rbac \<Rightarrow>
                  answered [length won = 1 \<and>
                    list_all (\<lambda>r. is_in_progress (rejectionOf r) \<or> is_existing (rejectionOf r)) lost \<and> builtOnce rbac] w1))"

definition scenarios :: "ProbeRun \<Rightarrow> (string \<times> scenario) list" where
  "scenarios p =
     [(slugFor p ''fresh'', fresh_scenario p), (slugFor p ''nodb'', nodb_scenario p),
      (slugFor p ''emptydb'', emptydb_scenario p), (slugFor p ''built'', built_scenario p),
      (slugFor p ''marked'', marked_scenario p), (slugFor p ''leftover'', leftover_scenario p),
      (slugFor p ''rename'', rename_scenario p), (slugFor p ''locked'', locked_scenario p),
      (slugFor p ''race'', race_scenario p)]"

text \<open>The scenarios in turn, with the slugs handed out so far; a name that is not safe stops the probe.\<close>

fun run_scenarios :: "(string \<times> scenario) list \<Rightarrow> ProvisionWorld \<Rightarrow> (bool list \<times> bool) \<times> string list \<times> ProvisionWorld" where
  "run_scenarios [] w = (([], False), [], w)"
| "run_scenarios ((slug, s) # rest) w =
     (case tenantDatabaseName slug of
        None \<Rightarrow> (([], True), [slug], w)
      | Some n \<Rightarrow>
          (case s slug n w of
             ((checks, True), w1) \<Rightarrow> ((checks, True), [slug], w1)
           | ((checks, False), w1) \<Rightarrow>
               (case run_scenarios rest w1 of
                  ((later, stopped), made, w2) \<Rightarrow> ((checks @ later, stopped), slug # made, w2))))"

text \<open>One tenant of the run: the \<open>DELETE\<close> is not sent when the \<open>DROP DATABASE\<close> failed.\<close>

definition remove_tenant :: "ProbeRun \<Rightarrow> string \<Rightarrow> string \<Rightarrow> ProvisionWorld \<Rightarrow> bool \<times> ProvisionWorld" where
  "remove_tenant p slug n w =
     (case write_step (pb_drop p slug) () w (w\<lparr>pw_cluster := (pw_cluster w)(n := None)\<rparr>) of
        (Inl _, w1) \<Rightarrow> (False, w1)
      | (Inr _, w1) \<Rightarrow>
          (case write_step (pb_delete p slug) () w1 (w1\<lparr>pw_tenants := filter (\<lambda>r. tr_slug r \<noteq> slug) (pw_tenants w1)\<rparr>) of
             (Inl _, w2) \<Rightarrow> (False, w2)
           | (Inr _, w2) \<Rightarrow> (True, w2)))"

text \<open>The removals that failed, each reported, and the world afterwards; a name that is not safe ends the loop with an
  exception, which fails the run too.\<close>

fun cleanup :: "ProbeRun \<Rightarrow> string list \<Rightarrow> ProvisionWorld \<Rightarrow> nat \<times> ProvisionWorld" where
  "cleanup p [] w = (0, w)"
| "cleanup p (slug # made) w =
     (case tenantDatabaseName slug of
        None \<Rightarrow> (1, w)
      | Some n \<Rightarrow>
          (case remove_tenant p slug n w of
             (removed, w1) \<Rightarrow>
               (case cleanup p made w1 of (failures, w2) \<Rightarrow> ((if removed then 0 else 1) + failures, w2))))"

text \<open>The count of failures and the world afterwards.\<close>

definition provisioning_probe :: "ProbeRun \<Rightarrow> ProvisionWorld \<Rightarrow> nat \<times> ProvisionWorld" where
  "provisioning_probe p w =
     (case run_scenarios (scenarios p) w of
        ((checks, True), made, w1) \<Rightarrow>
          (case cleanup p made w1 of (left, w') \<Rightarrow> (Suc (length (filter Not checks)) + left, w'))
      | ((checks, False), made, w1) \<Rightarrow>
          (case call_provision p 12 (slugFor p ''fresh'') ''Probe fresh'' w1 of
             (result, w2) \<Rightarrow>
               (case cleanup p made w2 of
                  (left, w') \<Rightarrow> (length (filter Not (checks @ [is_existing (rejectionOf result)])) + left, w'))))"

definition provisioning_main :: "ProbeRun \<Rightarrow> string option \<Rightarrow> ProvisionWorld \<Rightarrow> nat \<times> ProvisionWorld" where
  "provisioning_main p masterUrl w =
     (if masterUrl = None \<or> masterUrl = Some [] then (1, w)
      else (case provisioning_probe p w of (failures, w') \<Rightarrow> (if 0 < failures then 1 else 0, w')))"

section \<open>What a run can change\<close>

text \<open>Work on one slug and its database: every other row, database and lock stays, and a row that was not there before
  carries the slug, the database name and one of the given ids.\<close>

definition other_rows :: "string \<Rightarrow> ProvisionWorld \<Rightarrow> TenantRecord list" where
  "other_rows slug w = filter (\<lambda>r. tr_slug r \<noteq> slug) (pw_tenants w)"

definition row_from :: "string set \<Rightarrow> string \<Rightarrow> string \<Rightarrow> ProvisionWorld \<Rightarrow> TenantRecord \<Rightarrow> bool" where
  "row_from ids slug n w r \<longleftrightarrow>
     list_ex (\<lambda>r0. same_identity r0 r) (pw_tenants w) \<or> tr_slug r = slug \<and> tr_databaseName r = n \<and> tr_id r \<in> ids"

definition distinct_ids :: "ProvisionWorld \<Rightarrow> bool" where
  "distinct_ids w \<longleftrightarrow> distinct (map tr_id (pw_tenants w))"

definition confined :: "string set \<Rightarrow> string \<Rightarrow> string \<Rightarrow> ProvisionWorld \<Rightarrow> ProvisionWorld \<Rightarrow> bool" where
  "confined ids slug n w w' \<longleftrightarrow>
     other_rows slug w' = other_rows slug w \<and> (\<forall>m. m \<noteq> n \<longrightarrow> pw_cluster w' m = pw_cluster w m) \<and>
     list_all (row_from ids slug n w) (pw_tenants w') \<and> (distinct_ids w \<longrightarrow> distinct_ids w')"

lemma same_identity_trans: "same_identity a b \<Longrightarrow> same_identity b c \<Longrightarrow> same_identity a c"
  by (simp add: same_identity_def)

lemma row_from_old: "r \<in> set (pw_tenants w) \<Longrightarrow> same_identity r r' \<Longrightarrow> row_from ids slug n w r'"
  by (auto simp: row_from_def list_ex_iff)

lemmas confined_defs = confined_def other_rows_def distinct_ids_def list_all_iff

lemma confined_refl [simp]: "confined ids slug n w w"
  by (auto simp: confined_defs intro: row_from_old)

lemma confined_trans [trans]:
  assumes "confined ids slug n a b" "confined ids slug n b c"
  shows "confined ids slug n a c"
proof -
  have "row_from ids slug n a r" if r: "r \<in> set (pw_tenants c)" for r
  proof -
    from assms(2) r consider r0 where "r0 \<in> set (pw_tenants b)" "same_identity r0 r"
      | "tr_slug r = slug" "tr_databaseName r = n" "tr_id r \<in> ids"
      by (auto simp: confined_def list_all_iff row_from_def list_ex_iff)
    then show ?thesis
    proof cases
      case 1
      then have "row_from ids slug n a r0" using assms(1) by (auto simp: confined_def list_all_iff)
      with 1 show ?thesis by (auto simp: row_from_def list_ex_iff same_identity_def)
    qed (simp add: row_from_def)
  qed
  with assms show ?thesis by (auto simp: confined_def list_all_iff)
qed

lemma confined_mono: "confined ids slug n w w' \<Longrightarrow> ids \<subseteq> ids' \<Longrightarrow> confined ids' slug n w w'"
  by (auto simp: confined_def list_all_iff row_from_def)

lemma confined_database:
  "pw_tenants w' = pw_tenants w \<Longrightarrow> (\<And>m. m \<noteq> n \<Longrightarrow> pw_cluster w' m = pw_cluster w m) \<Longrightarrow> confined ids slug n w w'"
  by (auto simp: confined_defs intro: row_from_old)

lemma confined_insert:
  "tenant_constraints row (pw_tenants w) \<Longrightarrow> tr_slug row = slug \<Longrightarrow> tr_databaseName row = n \<Longrightarrow> tr_id row \<in> ids \<Longrightarrow>
     confined ids slug n w (w\<lparr>pw_tenants := pw_tenants w @ [row]\<rparr>)"
  by (auto simp: confined_defs tenant_constraints_def row_from_def list_ex_iff intro: same_identity_refl)

text \<open>An update of the row with one id that keeps its identity, when that row carries the slug.\<close>

lemma confined_update:
  assumes "distinct_ids w" "row \<in> set (pw_tenants w)" "tr_slug row = slug" "\<And>r. same_identity r (f r)"
    and "\<And>r. tr_id r \<noteq> tr_id row \<Longrightarrow> f r = r"
  shows "confined ids slug n w (w\<lparr>pw_tenants := map f (pw_tenants w)\<rparr>)"
proof -
  have same: "f r = r" if "r \<in> set (pw_tenants w)" "tr_slug r \<noteq> slug" for r
    using that assms(1-3,5) by (metis distinct_ids_def distinct_map inj_on_def)
  have "distinct (map (tr_id \<circ> f) (pw_tenants w))"
    using assms(1,4) by (simp add: distinct_ids_def same_identity_def comp_def)
  moreover have "filter (\<lambda>r. tr_slug r \<noteq> slug) (map f rows) = filter (\<lambda>r. tr_slug r \<noteq> slug) rows"
    if "set rows \<subseteq> set (pw_tenants w)" for rows
    using that same assms(4) by (induction rows) (auto simp: same_identity_def)
  ultimately show ?thesis
    using assms(1,4) unfolding confined_defs by (auto intro: row_from_old)
qed

lemma register_confined:
  "newId \<in> ids \<Longrightarrow> confined ids slug n w (snd (registerOrResume fs newId slug name n w))"
  by (auto simp: registerOrResume_def Let_def write_step_def split: option.split fault.split intro: confined_insert)

lemma database_confined:
  "confined ids slug n w (snd (createDatabase fs n w))"
  "confined ids slug n w (snd (initializeTenantDatabase fs roleId n tid w))"
  by (auto simp: createDatabase_def initializeTenantDatabase_def Let_def write_step_def
      split: option.split fault.split intro!: confined_database)

lemma database_rows [simp]:
  "pw_tenants (snd (createDatabase fs n w)) = pw_tenants w"
  "pw_tenants (snd (initializeTenantDatabase fs roleId n tid w)) = pw_tenants w"
  by (auto simp: createDatabase_def initializeTenantDatabase_def Let_def write_step_def split: option.split fault.split)

lemma activate_confined:
  assumes "distinct_ids w" "row \<in> set (pw_tenants w)" "tr_slug row = slug"
  shows "confined ids slug n w (snd (activateTenant fs (tr_id row) w))"
proof -
  have "confined ids slug n w (w\<lparr>pw_tenants := map (set_active (tr_id row)) (pw_tenants w)\<rparr>)"
    using set_active_kept by (intro confined_update [OF assms]) (auto simp: row_kept_def set_active_def)
  then show ?thesis by (auto simp: activateTenant_def write_step_def split: option.split fault.split)
qed

lemma provision_locked_confined:
  assumes "newId \<in> ids" "distinct_ids w"
  shows "confined ids slug n w (snd (provision_locked fs newId roleId slug name n w))"
proof (cases rule: provision_locked_cases [of fs newId slug name n w roleId])
  case (1 r1 w1)
  then show ?thesis using register_confined [OF assms(1), of slug n w fs name] by simp
next
  case (2 row resumed w1 r2 w2)
  then show ?thesis
    using confined_trans [OF register_confined [OF assms(1), of slug n w fs name]] database_confined(1) [of ids slug n w1 fs] by simp
next
  case (3 row resumed w1 w2 r3 w3)
  have "confined ids slug n w w1" using register_confined [OF assms(1), of slug n w fs name] 3(1) by simp
  also have "confined ids slug n w1 w2" using database_confined(1) [of ids slug n w1 fs] 3(2) by simp
  also have "confined ids slug n w2 w3" using database_confined(2) [of ids slug n w2 fs roleId "tr_id row"] 3(3) by simp
  finally show ?thesis using 3(4) by simp
next
  case (4 row resumed w1 w2 w3 r4 w4)
  have "confined ids slug n w w1" using register_confined [OF assms(1), of slug n w fs name] 4(1) by simp
  also have "confined ids slug n w1 w2" using database_confined(1) [of ids slug n w1 fs] 4(2) by simp
  also have "confined ids slug n w2 w3" using database_confined(2) [of ids slug n w2 fs roleId "tr_id row"] 4(3) by simp
  finally have w3: "confined ids slug n w w3" .
  moreover have "row \<in> set (pw_tenants w3) \<and> tr_slug row = slug"
    using registerOrResume_Inr [OF 4(1)] database_rows(1) [of fs n w1] database_rows(2) [of fs roleId n "tr_id row" w2] 4(2,3) by simp
  moreover have "distinct_ids w3" using w3 assms(2) by (simp add: confined_def)
  ultimately have "confined ids slug n w3 w4" using activate_confined [of w3 row slug ids n fs] 4(4) by simp
  with w3 show ?thesis using 4(5) confined_trans by auto
qed

lemma confined_locks [simp]: "confined ids slug n w (w\<lparr>pw_locks := l\<rparr>)"
  by (rule confined_database) simp_all

lemma provisionTenant_confined:
  assumes "newId \<in> ids" "distinct_ids w" "tenantDatabaseName slug = Some n"
    and "provisionTenant sha fs newId roleId slug name w = (r, w')"
  shows "confined ids slug n w w'" "pw_locks w' = pw_locks w"
proof -
  let ?key = "provisioningLockKeys sha n"
  let ?l = "?key # pw_locks w"
  have "confined ids slug n w w' \<and> pw_locks w' = pw_locks w"
  proof (cases "?key \<in> set (pw_locks w)")
    case True
    with assms(3,4) show ?thesis by (auto simp: provisionTenant_def lockProvisioning_def Let_def split: if_splits)
  next
    case False
    let ?w2 = "snd (provision_locked fs newId roleId slug name n (w\<lparr>pw_locks := ?l\<rparr>))"
    have "distinct_ids (w\<lparr>pw_locks := ?l\<rparr>)" using assms(2) by (simp add: distinct_ids_def)
    from provision_locked_confined [OF assms(1) this]
    have "confined ids slug n w (releaseLock sha n ?w2)"
      using confined_trans confined_locks unfolding releaseLock_def by metis
    moreover have "pw_locks (releaseLock sha n ?w2) = pw_locks w"
      using provision_locked_locks [of fs newId roleId slug name n "w\<lparr>pw_locks := ?l\<rparr>"] False
      by (simp add: releaseLock_def)
    ultimately show ?thesis
      using assms(4) provisionTenant_locked [OF assms(3) False, of fs newId roleId name] by (auto split: prod.splits if_splits)
  qed
  then show "confined ids slug n w w'" "pw_locks w' = pw_locks w" by auto
qed

text \<open>The same of a step that also leaves the locks as they were.\<close>

definition works_on :: "string set \<Rightarrow> string \<Rightarrow> string \<Rightarrow> ProvisionWorld \<Rightarrow> ProvisionWorld \<Rightarrow> bool" where
  "works_on ids slug n w w' \<longleftrightarrow> (distinct_ids w \<longrightarrow> confined ids slug n w w' \<and> distinct_ids w' \<and> pw_locks w' = pw_locks w)"

lemma works_on_refl [simp]: "works_on ids slug n w w"
  by (simp add: works_on_def)

lemma works_on_trans [trans]: "works_on ids slug n a b \<Longrightarrow> works_on ids slug n b c \<Longrightarrow> works_on ids slug n a c"
  by (auto simp: works_on_def intro: confined_trans)

lemma works_onI: "confined ids slug n w w' \<Longrightarrow> pw_locks w' = pw_locks w \<Longrightarrow> works_on ids slug n w w'"
  by (simp add: works_on_def confined_def)

lemma call_works_on:
  assumes "tenantDatabaseName slug = Some n" "pb_ids p k \<in> ids" "call_provision p k slug name w = (r, w')"
  shows "works_on ids slug n w w'"
  using provisionTenant_confined [OF assms(2) _ assms(1)] assms(3)
  unfolding works_on_def call_provision_def by (auto simp: confined_def)

lemma statements_work_on:
  "newId \<in> ids \<Longrightarrow> stageRow newId slug name n w = Some w' \<Longrightarrow> works_on ids slug n w w'"
  "create_probe_database n w = Some w' \<Longrightarrow> works_on ids slug n w w'"
  "inDatabase n f w = Some w' \<Longrightarrow> works_on ids slug n w w'"
proof -
  show "works_on ids slug n w w'" if "newId \<in> ids" "stageRow newId slug name n w = Some w'"
    using that by (intro works_onI) (auto simp: stageRow_def Let_def split: if_splits intro!: confined_insert)
  show "works_on ids slug n w w'" if "create_probe_database n w = Some w'"
    using that by (intro works_onI confined_database) (auto simp: create_probe_database_def split: if_splits)
  show "works_on ids slug n w w'" if "inDatabase n f w = Some w'"
    using that by (intro works_onI confined_database) (auto simp: inDatabase_def)
qed

text \<open>The tenant a call answers is the row of its slug.\<close>

lemma provision_locked_row:
  assumes "provision_locked fs newId roleId slug name n w = (Inr (tenant, resumed), w')"
  shows "\<exists>row\<in>set (pw_tenants w'). tr_id row = tn_id tenant \<and> tr_slug row = slug"
  using assms
proof (cases rule: provision_locked_cases [of fs newId slug name n w roleId])
  case (4 row resumed' w1 w2 w3 r4 w4)
  then obtain active where active: "r4 = Inr active" "tenant = toTenant active" "w' = w4"
    using assms by (cases r4) auto
  have row: "row \<in> set (pw_tenants w3) \<and> tr_slug row = slug"
    using registerOrResume_Inr [OF 4(1)] database_rows(1) [of fs n w1] database_rows(2) [of fs roleId n "tr_id row" w2] 4(2,3) by simp
  with 4(4) active have "set_active (tr_id row) row \<in> set (pw_tenants w') \<and> tn_id tenant = tr_id row"
    by (auto simp: activateTenant_def toTenant_def find_Some_iff dest!: write_step_Inr split: option.splits)
  then show ?thesis using row by (intro bexI [of _ "set_active (tr_id row) row"]) (auto simp: set_active_def)
qed simp_all

lemma call_row:
  assumes "tenantDatabaseName slug = Some n" "call_provision p k slug name w = (Inr (tenant, resumed), w')"
  shows "\<exists>row\<in>set (pw_tenants w'). tr_id row = tn_id tenant \<and> tr_slug row = slug"
proof (cases "provisioningLockKeys (pb_sha p) n \<in> set (pw_locks w)")
  case True
  with assms show ?thesis
    by (auto simp: call_provision_def provisionTenant_def lockProvisioning_def Let_def split: if_splits)
next
  case False
  then show ?thesis
    using assms(2) provisionTenant_locked [OF assms(1) False]
    by (auto simp: call_provision_def releaseLock_def split: prod.splits if_splits dest: provision_locked_row)
qed

section \<open>The scenarios as a family\<close>

text \<open>What the runner relies on: a scenario works on its own slug and database, with ids of its own.\<close>

locale probe_scenario =
  fixes s :: scenario and ids :: "string set"
  assumes scenario_works: "tenantDatabaseName slug = Some n \<Longrightarrow> works_on ids slug n w (snd (s slug n w))"

lemma result_world [simp]: "snd (stopped_at w) = w" "snd (answered cs w) = w"
  by (simp_all add: stopped_at_def answered_def)

interpretation fresh: probe_scenario "fresh_scenario p" "{pb_ids p 0}" for p
  by unfold_locales (auto simp: fresh_scenario_def split: prod.splits sum.splits dest: call_works_on)

lemma retry_works_on:
  "tenantDatabaseName slug = Some n \<Longrightarrow> pb_ids p k \<in> ids \<Longrightarrow> works_on ids slug n w (snd (retry_check p k newId slug name n w))"
  by (auto simp: retry_check_def split: prod.splits sum.splits option.splits dest: call_works_on)

interpretation nodb: probe_scenario "nodb_scenario p" "{pb_ids p 1, pb_ids p 21}" for p
  by unfold_locales
    (auto simp: nodb_scenario_def split: option.splits intro: works_on_trans [OF statements_work_on(1) retry_works_on])

interpretation emptydb: probe_scenario "emptydb_scenario p" "{pb_ids p 2, pb_ids p 22}" for p
  by unfold_locales
    (auto simp: emptydb_scenario_def split: option.splits
      intro: statements_work_on works_on_trans [OF statements_work_on(1) works_on_trans [OF statements_work_on(2) retry_works_on]])

interpretation rename: probe_scenario "rename_scenario p" "{pb_ids p 7, pb_ids p 27}" for p
  by unfold_locales
    (auto simp: rename_scenario_def split: option.splits prod.splits intro: works_on_trans [OF statements_work_on(1) call_works_on])

text \<open>A staged row and a staged database, and then a call.\<close>

lemma staged_call_works_on:
  assumes "tenantDatabaseName slug = Some n" "newId \<in> ids" "pb_ids p k \<in> ids"
    and "stageRow newId slug name n w = Some w1" "create_probe_database n w1 = Some w2" "inDatabase n f w2 = Some w3"
  shows "works_on ids slug n w w2" "call_provision p k slug name' w3 = (r, w4) \<Longrightarrow> works_on ids slug n w w4"
proof -
  show w2: "works_on ids slug n w w2"
    using works_on_trans [OF statements_work_on(1) [OF assms(2,4)] statements_work_on(2) [OF assms(5)]] .
  have "works_on ids slug n w w3" using works_on_trans [OF w2 statements_work_on(3) [OF assms(6)]] .
  then show "works_on ids slug n w w4" if "call_provision p k slug name' w3 = (r, w4)"
    using works_on_trans call_works_on [OF assms(1,3) that] by blast
qed

interpretation marked: probe_scenario "marked_scenario p" "{pb_ids p 5, pb_ids p 25}" for p
  by unfold_locales
    (auto simp: marked_scenario_def Let_def split: option.splits prod.splits
      intro: statements_work_on works_on_trans [OF statements_work_on(1,2)] staged_call_works_on(2))

interpretation leftover: probe_scenario "leftover_scenario p" "{pb_ids p 6, pb_ids p 26}" for p
  by unfold_locales
    (auto simp: leftover_scenario_def split: option.splits prod.splits
      intro: statements_work_on works_on_trans [OF statements_work_on(1,2)] staged_call_works_on(2))

lemma set_provisioning_works_on:
  assumes "tenantDatabaseName slug = Some n" "pb_ids p k \<in> ids" "call_provision p k slug name w = (Inr (tenant, resumed), w1)"
  shows "works_on ids slug n w (w1\<lparr>pw_tenants := map (set_provisioning (tn_id tenant)) (pw_tenants w1)\<rparr>)"
proof -
  from call_row [OF assms(1,3)] obtain row where
    row: "row \<in> set (pw_tenants w1)" "tr_id row = tn_id tenant" "tr_slug row = slug" by blast
  have "works_on ids slug n w1 (w1\<lparr>pw_tenants := map (set_provisioning (tn_id tenant)) (pw_tenants w1)\<rparr>)"
    using confined_update [OF _ row(1,3), of "set_provisioning (tn_id tenant)" ids n] row(2)
    by (auto simp: works_on_def confined_def set_provisioning_def same_identity_def)
  with call_works_on [OF assms] show ?thesis by (rule works_on_trans)
qed

interpretation built: probe_scenario "built_scenario p" "{pb_ids p 3, pb_ids p 4}" for p
proof
  fix slug n w
  assume name: "tenantDatabaseName slug = Some n"
  let ?ids = "{pb_ids p 3, pb_ids p 4}"
  note unset = set_provisioning_works_on [OF name, of p 3 ?ids]
  have "works_on ?ids slug n w w4"
    if "call_provision p 3 slug ''Probe built'' w = (Inr (first, resumed), w1)"
      "inDatabase n f (w1\<lparr>pw_tenants := map (set_provisioning (tn_id first)) (pw_tenants w1)\<rparr>) = Some w3"
      "call_provision p 4 slug ''Probe built'' w3 = (r, w4)" for first resumed w1 f w3 r w4
    using works_on_trans [OF works_on_trans [OF unset [OF _ that(1)] statements_work_on(3) [OF that(2)]] call_works_on [OF name _ that(3)]]
    by simp
  then show "works_on ?ids slug n w (snd (built_scenario p slug n w))"
    using unset call_works_on [OF name, of p 3 ?ids]
    by (auto simp: built_scenario_def Let_def split: prod.splits sum.splits option.splits)
qed

interpretation locked: probe_scenario "locked_scenario p" "{pb_ids p 8, pb_ids p 9, pb_ids p 28}" for p
proof
  fix slug n w
  assume name: "tenantDatabaseName slug = Some n"
  let ?ids = "{pb_ids p 8, pb_ids p 9, pb_ids p 28}" and ?key = "provisioningLockKeys (pb_sha p) n"
  have "works_on ?ids slug n w w4"
    if staged: "stageRow (pb_ids p 28) slug ''Probe locked'' n w = Some w1"
      and refused: "call_provision p 8 slug ''Probe locked'' (w1\<lparr>pw_locks := ?key # pw_locks w1\<rparr>) = (r, w2)"
      and again: "call_provision p 9 slug ''Probe locked'' (w2\<lparr>pw_locks := remove1 ?key (pw_locks w2)\<rparr>) = (r', w4)"
    for w1 r w2 r' w4
  proof -
    have "works_on ?ids slug n w w1" using statements_work_on(1) [OF _ staged] by simp
    also have "works_on ?ids slug n w1 (w2\<lparr>pw_locks := remove1 ?key (pw_locks w2)\<rparr>)"
      using call_works_on [OF name _ refused, of ?ids] confined_trans [OF confined_trans [OF confined_locks] confined_locks]
      by (auto simp: works_on_def distinct_ids_def)
    also have "works_on ?ids slug n \<dots> w4" using call_works_on [OF name _ again] by simp
    finally show ?thesis .
  qed
  then show "works_on ?ids slug n w (snd (locked_scenario p slug n w))"
    using statements_work_on(1) [of "pb_ids p 28" ?ids slug "''Probe locked''" n w]
    by (auto simp: locked_scenario_def Let_def split: option.splits prod.splits sum.splits)
qed

lemma race_works_on:
  assumes "tenantDatabaseName slug = Some n" "pb_ids p 10 \<in> ids" "pb_ids p 11 \<in> ids" "race p slug name n w = (rs, w')"
  shows "works_on ids slug n w w'"
proof -
  obtain first w1 where first: "call_provision p 10 slug name w = (first, w1)" by fastforce
  obtain second w2 where second: "call_provision p 11 slug name w1 = (second, w2)" by fastforce
  obtain got held where lock: "lockProvisioning (pb_sha p) (ft_lock (pb_faults p 10)) n w = (got, held)" by fastforce
  have "w' = w1 \<or> w' = w2"
    using assms(4) unfolding race_def first lock second by (cases got) (simp_all add: second split: bool.splits if_splits)
  then show ?thesis
    using call_works_on [OF assms(1,2) first] works_on_trans call_works_on [OF assms(1,3) second] by blast
qed

interpretation race: probe_scenario "race_scenario p" "{pb_ids p 10, pb_ids p 11}" for p
proof
  fix slug n w
  assume name: "tenantDatabaseName slug = Some n"
  obtain rs w1 where run: "race p slug ''Probe race'' n w = (rs, w1)" by fastforce
  have "snd (race_scenario p slug n w) = w1"
    unfolding race_scenario_def run by (simp add: Let_def split: option.split)
  then show "works_on {pb_ids p 10, pb_ids p 11} slug n w (snd (race_scenario p slug n w))"
    using race_works_on [OF name _ _ run] by simp
qed

section \<open>Everything is removed again\<close>

text \<open>A world without the tenants of some slugs.\<close>

definition without :: "string list \<Rightarrow> ProvisionWorld \<Rightarrow> ProvisionWorld" where
  "without made w =
     w\<lparr>pw_tenants := filter (\<lambda>r. tr_slug r \<notin> set made) (pw_tenants w),
       pw_cluster := (\<lambda>m. if Some m \<in> tenantDatabaseName ` set made then None else pw_cluster w m)\<rparr>"

lemma without_cong: "set a = set b \<Longrightarrow> without a w = without b w"
  by (simp add: without_def)

lemma without_without: "without a (without b w) = without (a @ b) w"
  by (rule ProvisionWorld.equality) (auto simp: without_def fun_eq_iff image_Un intro!: filter_cong)

lemma without_Nil [simp]: "without [] w = w"
  by (simp add: without_def)

text \<open>The slugs whose removal fails stay behind, in part or in full.\<close>

definition removal_fails :: "ProbeRun \<Rightarrow> string \<Rightarrow> bool" where
  "removal_fails p slug \<longleftrightarrow> pb_drop p slug \<noteq> Works \<or> pb_delete p slug \<noteq> Works"

lemma remove_tenant_without:
  assumes "tenantDatabaseName slug = Some n" and "remove_tenant p slug n w = (removed, w1)"
  shows "removed \<longleftrightarrow> \<not> removal_fails p slug" and "removed \<Longrightarrow> w1 = without [slug] w" and "without [slug] w1 = without [slug] w"
  using assms
  by (auto simp: remove_tenant_def removal_fails_def write_step_def without_def fun_eq_iff split: fault.splits intro!: filter_cong)

lemma cleanup_without:
  assumes "list_all (\<lambda>slug. tenantDatabaseName slug \<noteq> None) made" and "cleanup p made w = (failures, w')"
  shows "without (filter (removal_fails p) made) w' = without made w \<and> (failures = 0 \<longleftrightarrow> filter (removal_fails p) made = [])"
  using assms
proof (induction made arbitrary: w failures w')
  case (Cons slug made)
  then obtain n where n: "tenantDatabaseName slug = Some n" by auto
  obtain removed w1 where one: "remove_tenant p slug n w = (removed, w1)" by fastforce
  obtain later w2 where rest: "cleanup p made w1 = (later, w2)" by fastforce
  let ?F = "filter (removal_fails p) made"
  have eqs: "failures = (if removed then 0 else 1) + later" "w' = w2" using Cons.prems(2) by (simp_all add: n one rest)
  have IH: "without ?F w2 = without made w1" "later = 0 \<longleftrightarrow> ?F = []" using Cons.IH [OF _ rest] Cons.prems(1) by simp_all
  note step = remove_tenant_without [OF n one]
  have "without (slug # made) w = without made (without [slug] w)"
    unfolding without_without by (rule without_cong) auto
  also have "\<dots> = without made (without [slug] w1)" by (simp only: step(3))
  also have "\<dots> = without [slug] (without made w1)" unfolding without_without by (rule without_cong) auto
  also have "\<dots> = without (slug # ?F) w2" unfolding IH(1) [symmetric] without_without by simp
  finally have "without (slug # ?F) w2 = without (slug # made) w" by simp
  moreover have "without ?F w2 = without (slug # made) w" if removed
    unfolding IH(1) step(2) [OF that] without_without by (rule without_cong) auto
  ultimately show ?case using IH(2) step(1) by (auto simp: eqs)
qed (simp add: without_def)

lemma works_on_without:
  assumes "works_on ids slug n w w'" "distinct_ids w" "slug \<in> set made" "tenantDatabaseName slug = Some n"
  shows "without made w' = without made w"
proof -
  have narrow: "filter (\<lambda>r. tr_slug r \<notin> set made) (pw_tenants v) = filter (\<lambda>r. tr_slug r \<notin> set made) (other_rows slug v)" for v
    using assms(3) by (auto simp: filter_filter other_rows_def intro!: filter_cong)
  have "other_rows slug w' = other_rows slug w" using assms(1,2) by (simp add: works_on_def confined_def)
  then have "filter (\<lambda>r. tr_slug r \<notin> set made) (pw_tenants w') = filter (\<lambda>r. tr_slug r \<notin> set made) (pw_tenants w)"
    by (simp only: narrow)
  moreover have "pw_cluster w' m = pw_cluster w m" if "Some m \<notin> tenantDatabaseName ` set made" for m
  proof -
    have "m \<noteq> n" using that assms(3,4) by (metis image_eqI)
    with assms(1,2) show ?thesis by (simp add: works_on_def confined_def)
  qed
  then have "(\<lambda>m. if Some m \<in> tenantDatabaseName ` set made then None else pw_cluster w' m) =
      (\<lambda>m. if Some m \<in> tenantDatabaseName ` set made then None else pw_cluster w m)"
    by (auto simp: fun_eq_iff)
  moreover have "pw_locks w' = pw_locks w" using assms(1,2) by (simp add: works_on_def)
  ultimately show ?thesis by (simp add: without_def)
qed

lemma run_scenarios_without:
  assumes "run_scenarios xs w = (res, made, w')" "list_all (\<lambda>(slug, s). \<exists>ids. probe_scenario s ids) xs" "distinct_ids w"
    and "set made \<subseteq> set all"
  shows "without all w' = without all w \<and> distinct_ids w' \<and> set made \<subseteq> fst ` set xs \<and> (snd res \<or> made = map fst xs)"
  using assms
proof (induction xs arbitrary: w res made w')
  case (Cons x xs)
  obtain slug s where x: "x = (slug, s)" by (cases x)
  from Cons.prems(2) x obtain ids where s: "probe_scenario s ids" by auto
  show ?case
  proof (cases "tenantDatabaseName slug")
    case None
    with Cons.prems x show ?thesis by auto
  next
    case (Some n)
    obtain checks stop w1 where w1: "s slug n w = ((checks, stop), w1)" by (metis surj_pair)
    have work: "works_on ids slug n w w1" using probe_scenario.scenario_works [OF s Some, of w] w1 by simp
    with Cons.prems(3) have ids: "distinct_ids w1" by (simp add: works_on_def)
    obtain later made' w2 where rest: "run_scenarios xs w1 = (later, made', w2)" by (metis surj_pair)
    have eqs: "res = (if stop then (checks, True) else (checks @ fst later, snd later))" "w' = (if stop then w1 else w2)"
        "made = (if stop then [slug] else slug # made')"
      using Cons.prems(1) by (simp_all add: x Some w1 rest split: bool.splits prod.splits)
    have slug: "slug \<in> set all" using Cons.prems(4) eqs(3) by (simp split: if_splits)
    have same: "without all w1 = without all w" using works_on_without [OF work Cons.prems(3) slug Some] .
    show ?thesis
    proof (cases stop)
      case True
      then show ?thesis using same ids by (simp add: eqs x)
    next
      case False
      then have "set made' \<subseteq> set all" using Cons.prems(4) by (simp add: eqs)
      with Cons.IH [OF rest _ ids] Cons.prems(2) show ?thesis using same False by (auto simp: eqs x)
    qed
  qed
qed (auto simp: without_def)

text \<open>The slugs and databases of the run are free, and nobody holds their locks.\<close>

definition slug_ready :: "(bytes \<Rightarrow> bytes) \<Rightarrow> ProvisionWorld \<Rightarrow> string \<Rightarrow> bool" where
  "slug_ready sha w slug \<longleftrightarrow>
     (case tenantDatabaseName slug of
        None \<Rightarrow> False
      | Some n \<Rightarrow> unused slug n w \<and> provisioningLockKeys sha n \<notin> set (pw_locks w))"

definition probe_ready :: "ProbeRun \<Rightarrow> ProvisionWorld \<Rightarrow> bool" where
  "probe_ready p w \<longleftrightarrow> list_all (\<lambda>(slug, _). slug_ready (pb_sha p) w slug) (scenarios p)"

lemma without_unused:
  assumes "list_all (slug_ready sha w) made"
  shows "without made w = w"
proof -
  have "tr_slug r \<notin> set made" if "r \<in> set (pw_tenants w)" for r
    using that assms by (auto simp: list_all_iff slug_ready_def unused_def split: option.splits)
  then have "filter (\<lambda>r. tr_slug r \<notin> set made) (pw_tenants w) = pw_tenants w" by simp
  moreover have "pw_cluster w m = None" if "Some m \<in> tenantDatabaseName ` set made" for m
    using that assms by (auto simp: list_all_iff slug_ready_def unused_def split: option.splits)
  then have "(\<lambda>m. if Some m \<in> tenantDatabaseName ` set made then None else pw_cluster w m) = pw_cluster w"
    by (auto simp: fun_eq_iff)
  ultimately show ?thesis by (simp add: without_def)
qed

lemmas scenario_axioms = fresh.probe_scenario_axioms nodb.probe_scenario_axioms emptydb.probe_scenario_axioms
  built.probe_scenario_axioms marked.probe_scenario_axioms leftover.probe_scenario_axioms
  rename.probe_scenario_axioms locked.probe_scenario_axioms race.probe_scenario_axioms

lemma scenarios_work: "list_all (\<lambda>(slug, s). \<exists>ids. probe_scenario s ids) (scenarios p)"
  using scenario_axioms [of p] by (auto simp: scenarios_def)

lemma probe_slugs: "fst ` set (scenarios p) = set (map fst (scenarios p))"
  by simp

definition leftovers :: "ProbeRun \<Rightarrow> string list" where
  "leftovers p = filter (removal_fails p) (map fst (scenarios p))"

lemma ready_without:
  assumes "probe_ready p w" "set made \<subseteq> fst ` set (scenarios p)"
  shows "without made w = w" and "list_all (\<lambda>slug. tenantDatabaseName slug \<noteq> None) made"
proof -
  have ready: "list_all (slug_ready (pb_sha p) w) made"
    using assms by (fastforce simp: probe_ready_def list_all_iff)
  from without_unused [OF this] show "without made w = w" .
  from ready show "list_all (\<lambda>slug. tenantDatabaseName slug \<noteq> None) made"
    by (auto simp: list_all_iff slug_ready_def split: option.splits)
qed

lemma cleanup_restores:
  assumes "probe_ready p w0" "set made \<subseteq> fst ` set (scenarios p)" "without made w = without made w0"
    and "cleanup p made w = (failures, w')"
  shows "without (leftovers p) w' = w0 \<and> (failures = 0 \<longrightarrow> w' = w0)"
proof -
  let ?F = "filter (removal_fails p) made"
  note ready = ready_without [OF assms(1)]
  have F: "without ?F w' = w0" and none: "failures = 0 \<longleftrightarrow> ?F = []"
    using cleanup_without [OF ready(2) [OF assms(2)] assms(4)] ready(1) [OF assms(2)] assms(3) by simp_all
  have "set (leftovers p) = set (leftovers p @ ?F)" using assms(2) by (auto simp: leftovers_def)
  then have "without (leftovers p) w' = without (leftovers p) (without ?F w')"
    unfolding without_without by (rule without_cong)
  also have "\<dots> = w0" unfolding F using ready(1) [of "leftovers p"] by (auto simp: leftovers_def)
  finally show ?thesis using F none by auto
qed

lemma probe_restores:
  assumes "probe_ready p w" and "distinct (map tr_id (pw_tenants w))" and "provisioning_main p masterUrl w = (code, w')"
  shows "without (leftovers p) w' = w \<and> (w' = w \<or> code = 1)"
proof -
  have ids: "distinct_ids w" using assms(2) by (simp add: distinct_ids_def)
  obtain checks stop made w1 where run: "run_scenarios (scenarios p) w = ((checks, stop), made, w1)" by (metis surj_pair)
  note after = run_scenarios_without [OF run scenarios_work ids subset_refl]
  obtain result w2 where last: "call_provision p 12 (slugFor p ''fresh'') ''Probe fresh'' w1 = (result, w2)" by fastforce
  obtain n where n: "tenantDatabaseName (slugFor p ''fresh'') = Some n"
    using assms(1) by (auto simp: probe_ready_def scenarios_def slug_ready_def split: option.splits)
  let ?last = "if stop then w1 else w2"
  have "without made w2 = without made w1" if "\<not> stop"
    using that after call_works_on [OF n _ last, of UNIV] by (intro works_on_without) (auto simp: scenarios_def n)
  then have same: "without made ?last = without made w" using after by simp
  obtain left final where clean: "cleanup p made ?last = (left, final)" by fastforce
  have restored: "without (leftovers p) final = w \<and> (left = 0 \<longrightarrow> final = w)"
    using cleanup_restores [OF assms(1) _ same clean] after by blast
  obtain k where "provisioning_probe p w = (k + left, final)"
    using clean by (cases stop) (auto simp: provisioning_probe_def run last simp del: run_scenarios.simps)
  then have "provisioning_main p masterUrl w = (1, w) \<or>
      provisioning_main p masterUrl w = (if 0 < k + left then 1 else 0, final)"
    by (simp add: provisioning_main_def)
  moreover have "without (leftovers p) w = w" using ready_without(1) [OF assms(1)] by (auto simp: leftovers_def)
  ultimately show ?thesis using restored assms(3) by (auto split: if_splits)
qed

text \<open>C38: The provisioning probe cleans up after itself, or says that it could not. Whatever fails in whichever of its calls,
  and wherever it stops, provided its own slugs and databases were free when it started: afterwards the registry, the cluster
  and the locks are what they were, apart from rows and databases of those of its slugs whose DROP DATABASE or DELETE failed;
  and if anything was left behind, the exit code is 1. When every removal works, nothing is left.\<close>

theorem provisioning_probe_harmless:
  assumes "probe_ready p w" and "distinct (map tr_id (pw_tenants w))" and "provisioning_main p masterUrl w = (code, w')"
  shows "without (leftovers p) w' = w \<and> (w' = w \<or> code = 1) \<and>
    (list_all (\<lambda>(slug, _). pb_drop p slug = Works \<and> pb_delete p slug = Works) (scenarios p) \<longrightarrow> w' = w)"
proof -
  note restored = probe_restores [OF assms]
  have "w' = w" if all: "list_all (\<lambda>(slug, _). pb_drop p slug = Works \<and> pb_delete p slug = Works) (scenarios p)"
  proof -
    have "leftovers p = []" using all by (fastforce simp: leftovers_def removal_fails_def list_all_iff filter_empty_conv)
    with restored show ?thesis by (simp add: without_def)
  qed
  with restored show ?thesis by blast
qed

section \<open>Every check passes\<close>

text \<open>A run without faults, on ids that are fresh.\<close>

definition clean_run :: "ProbeRun \<Rightarrow> bool" where
  "clean_run p \<longleftrightarrow> (\<forall>k. pb_faults p k = no_faults) \<and> (\<forall>slug. \<not> removal_fails p slug) \<and>
     (\<forall>k. UUID (pb_ids p k)) \<and> inj_on (pb_ids p) {..30}"

definition ids_fresh :: "string set \<Rightarrow> ProvisionWorld \<Rightarrow> bool" where
  "ids_fresh ids w \<longleftrightarrow> ids \<inter> tr_id ` set (pw_tenants w) = {}"

text \<open>A call on a row that is there already, by the state of the row and of the database.\<close>

definition staged_at :: "ProvisionWorld \<Rightarrow> string \<Rightarrow> string \<Rightarrow> string \<Rightarrow> string \<Rightarrow> TenantStatus \<Rightarrow>
    (string \<Rightarrow> ClusterDatabase option) \<Rightarrow> ProvisionWorld" where
  "staged_at w tid slug name n st cl = at_world w (pw_tenants w @ [tenant_row tid slug name n st]) cl"

lemma staged_locked:
  assumes "SAFE_DB_NAME n" "unused slug n w" "tid \<notin> tr_id ` set (pw_tenants w)" "UUID tid"
  shows "cl n = None \<or> cl n = Some empty_database \<Longrightarrow>
      provision_locked no_faults newId roleId slug name n (staged_at w tid slug name n ts_provisioning cl) =
      (Inr (toTenant (tenant_row tid slug name n ts_active), True), staged_at w tid slug name n ts_active (cl(n \<mapsto> built roleId tid)))"
    and "cl n = Some d \<Longrightarrow> cd_marker d = Some (tenantDatabaseMarker tid) \<Longrightarrow>
      provision_locked no_faults newId roleId slug name n (staged_at w tid slug name n ts_provisioning cl) =
      (Inr (toTenant (tenant_row tid slug name n ts_active), True), staged_at w tid slug name n ts_active cl)"
    and "cl n = Some d \<Longrightarrow> cd_marker d \<noteq> Some (tenantDatabaseMarker tid) \<Longrightarrow> cd_marker d \<noteq> None \<or> cd_tables d \<noteq> None \<Longrightarrow>
      \<exists>e. provision_locked no_faults newId roleId slug name n (staged_at w tid slug name n ts_provisioning cl) =
        (Inl e, staged_at w tid slug name n ts_provisioning cl) \<and> is_conflict (Some e)"
    and "st \<noteq> ts_provisioning \<or> name' \<noteq> name \<Longrightarrow>
      provision_locked no_faults newId roleId slug name' n (staged_at w tid slug name n st cl) =
      (Inl (ProvisionDomain (TenantAlreadyExistsError slug)), staged_at w tid slug name n st cl)"
  using assms(1,4)
  by (auto simp: staged_at_def provision_locked_def registerOrResume_def createDatabase_def initializeTenantDatabase_def
      activateTenant_def finding [OF assms(2,3)] write_step_def no_faults_def Let_def empty_database_def
      simp del: map_append split: option.splits)

lemma staged_call:
  assumes "clean_run p" "tenantDatabaseName slug = Some n" "unused slug n w" "tid \<notin> tr_id ` set (pw_tenants w)" "UUID tid"
    and "provisioningLockKeys (pb_sha p) n \<notin> set (pw_locks w)"
  shows "cl n = None \<or> cl n = Some empty_database \<Longrightarrow>
      call_provision p k slug name (staged_at w tid slug name n ts_provisioning cl) =
      (Inr (toTenant (tenant_row tid slug name n ts_active), True),
       staged_at w tid slug name n ts_active (cl(n \<mapsto> built (pb_roleIds p k) tid)))"
    and "cl n = Some d \<Longrightarrow> cd_marker d = Some (tenantDatabaseMarker tid) \<Longrightarrow>
      call_provision p k slug name (staged_at w tid slug name n ts_provisioning cl) =
      (Inr (toTenant (tenant_row tid slug name n ts_active), True), staged_at w tid slug name n ts_active cl)"
    and "cl n = Some d \<Longrightarrow> cd_marker d \<noteq> Some (tenantDatabaseMarker tid) \<Longrightarrow> cd_marker d \<noteq> None \<or> cd_tables d \<noteq> None \<Longrightarrow>
      \<exists>e. call_provision p k slug name (staged_at w tid slug name n ts_provisioning cl) =
        (Inl e, staged_at w tid slug name n ts_provisioning cl) \<and> is_conflict (Some e)"
    and "st \<noteq> ts_provisioning \<or> name' \<noteq> name \<Longrightarrow> call_provision p k slug name' (staged_at w tid slug name n st cl) =
      (Inl (ProvisionDomain (TenantAlreadyExistsError slug)), staged_at w tid slug name n st cl)"
proof -
  let ?v = "w\<lparr>pw_locks := provisioningLockKeys (pb_sha p) n # pw_locks w\<rparr>"
  have v: "unused slug n ?v" "tid \<notin> tr_id ` set (pw_tenants ?v)" using assms(3,4) by (simp_all add: unused_def)
  note locked = staged_locked [OF tenantDatabaseName_safe [OF assms(2)] v assms(5)]
  have relock: "releaseLock (pb_sha p) n (staged_at ?v tid slug nm n st cl) = staged_at w tid slug nm n st cl" for nm st cl
    using assms(6) by (simp add: staged_at_def releaseLock_def)
  have call: "call_provision p k slug nm (staged_at w tid slug name n st cl) =
      (case provision_locked no_faults (pb_ids p k) (pb_roleIds p k) slug nm n (staged_at ?v tid slug name n st cl) of
         (r, w2) \<Rightarrow> (r, releaseLock (pb_sha p) n w2))" for nm st cl
    using provisionTenant_locked [OF assms(2), of "pb_sha p" "staged_at w tid slug name n st cl" no_faults] assms(1,6)
    by (simp add: call_provision_def clean_run_def staged_at_def no_faults_def)
  show "cl n = None \<or> cl n = Some empty_database \<Longrightarrow>
      call_provision p k slug name (staged_at w tid slug name n ts_provisioning cl) =
      (Inr (toTenant (tenant_row tid slug name n ts_active), True),
       staged_at w tid slug name n ts_active (cl(n \<mapsto> built (pb_roleIds p k) tid)))"
    by (simp add: call locked(1) relock)
  show "cl n = Some d \<Longrightarrow> cd_marker d = Some (tenantDatabaseMarker tid) \<Longrightarrow>
      call_provision p k slug name (staged_at w tid slug name n ts_provisioning cl) =
      (Inr (toTenant (tenant_row tid slug name n ts_active), True), staged_at w tid slug name n ts_active cl)"
    by (simp add: call locked(2) relock)
  show "\<exists>e. call_provision p k slug name (staged_at w tid slug name n ts_provisioning cl) =
        (Inl e, staged_at w tid slug name n ts_provisioning cl) \<and> is_conflict (Some e)"
    if "cl n = Some d" "cd_marker d \<noteq> Some (tenantDatabaseMarker tid)" "cd_marker d \<noteq> None \<or> cd_tables d \<noteq> None"
    using locked(3) [where cl = cl, OF that, of "pb_ids p k" "pb_roleIds p k" name] by (auto simp: call relock)
  show "st \<noteq> ts_provisioning \<or> name' \<noteq> name \<Longrightarrow> call_provision p k slug name' (staged_at w tid slug name n st cl) =
      (Inl (ProvisionDomain (TenantAlreadyExistsError slug)), staged_at w tid slug name n st cl)"
    by (simp add: call locked(4) relock)
qed

lemma new_locked:
  assumes "SAFE_DB_NAME n" "unused slug n w" "tid \<notin> tr_id ` set (pw_tenants w)" "UUID tid"
  shows "provision_locked no_faults tid roleId slug name n w =
      (Inr (toTenant (tenant_row tid slug name n ts_active), False),
       staged_at w tid slug name n ts_active ((pw_cluster w)(n \<mapsto> built roleId tid)))"
proof -
  note steps = registered_steps [OF assms(2-4,1) refl refl] provision_locked_new [OF assms(2,3)]
  show ?thesis unfolding provision_locked_def steps by (simp add: write_step_def no_faults_def steps staged_at_def)
qed

lemma new_call:
  assumes "clean_run p" "tenantDatabaseName slug = Some n" "unused slug n w" "pb_ids p k \<notin> tr_id ` set (pw_tenants w)"
    and "provisioningLockKeys (pb_sha p) n \<notin> set (pw_locks w)"
  shows "call_provision p k slug name w =
      (Inr (toTenant (tenant_row (pb_ids p k) slug name n ts_active), False),
       staged_at w (pb_ids p k) slug name n ts_active ((pw_cluster w)(n \<mapsto> built (pb_roleIds p k) (pb_ids p k))))"
proof -
  let ?v = "w\<lparr>pw_locks := provisioningLockKeys (pb_sha p) n # pw_locks w\<rparr>"
  have v: "unused slug n ?v" "pb_ids p k \<notin> tr_id ` set (pw_tenants ?v)" using assms(3,4) by (simp_all add: unused_def)
  have "UUID (pb_ids p k)" using assms(1) by (simp add: clean_run_def)
  from new_locked [OF tenantDatabaseName_safe [OF assms(2)] v this] show ?thesis
    using provisionTenant_locked [OF assms(2,5), of no_faults] assms(1,5)
    by (simp add: call_provision_def clean_run_def no_faults_def staged_at_def releaseLock_def)
qed

lemma stageRow_unused:
  assumes "unused slug n w" "tid \<notin> tr_id ` set (pw_tenants w)"
  shows "stageRow tid slug name n w = Some (staged_at w tid slug name n ts_provisioning (pw_cluster w))"
  using finding(5) [OF assms, of name ts_provisioning]
  by (simp add: stageRow_def Let_def staged_at_def at_world_update flip: tenant_row_def)

lemma staged_simps [simp]:
  "pw_tenants (staged_at w tid slug name n st cl) = pw_tenants w @ [tenant_row tid slug name n st]"
  "pw_cluster (staged_at w tid slug name n st cl) = cl" "pw_locks (staged_at w tid slug name n st cl) = pw_locks w"
  "(staged_at w tid slug name n st cl)\<lparr>pw_cluster := cl'\<rparr> = staged_at w tid slug name n st cl'"
  "(staged_at w tid slug name n st cl)\<lparr>pw_locks := pw_locks w\<rparr> = staged_at w tid slug name n st cl"
  by (simp_all add: staged_at_def)

lemma unused_row [simp]:
  "unused slug n w \<Longrightarrow> rowOf slug (staged_at w tid slug name n st cl) = Some (tenant_row tid slug name n st)"
  by (auto simp: rowOf_def unused_def find_append find_none)

lemma unused_cluster [simp]: "unused slug n w \<Longrightarrow> pw_cluster w n = None"
  by (simp add: unused_def)

lemma toTenant_simps [simp]: "tn_id (toTenant r) = tr_id r" "tn_status (toTenant r) = tr_status r"
  by (simp_all add: toTenant_def)

lemma sentinel_names [simp]:
  "''probe-sentinel'' \<noteq> TENANT_ADMIN_ROLE_NAME" "''leftover-role'' \<noteq> TENANT_ADMIN_ROLE_NAME"
  "TENANT_ADMIN_ROLE_NAME \<noteq> ''probe-sentinel''"
  by (simp_all add: TENANT_ADMIN_ROLE_NAME_def)

lemma rbac_built [simp]:
  "pw_cluster w n = Some (built roleId tid) \<Longrightarrow>
     rbacOf n w = Some \<lparr>rb_adminRoles = 1, rb_permissions = length DEFAULT_PERMISSIONS, rb_grants = length DEFAULT_PERMISSIONS\<rparr>"
  by (simp add: rbacOf_def built_def roles_named_def)

text \<open>A scenario whose checks all hold, on a free slug and without faults.\<close>

locale passing_scenario = probe_scenario +
  fixes p :: ProbeRun and k :: nat
  assumes scenario_passes:
    "clean_run p \<Longrightarrow> tenantDatabaseName slug = Some n \<Longrightarrow> unused slug n w \<Longrightarrow> ids_fresh ids w \<Longrightarrow>
     provisioningLockKeys (pb_sha p) n \<notin> set (pw_locks w) \<Longrightarrow> fst (s slug n w) = (replicate k True, False)"

lemmas checks_simps = answered_def markerOf_def databaseExists_def tenant_tables_def still_provisioning_def builtOnce_def
  ids_fresh_def Let_def

lemma fresh_result:
  assumes "clean_run p" "tenantDatabaseName slug = Some n" "unused slug n w" "ids_fresh {pb_ids p 0} w"
    and "provisioningLockKeys (pb_sha p) n \<notin> set (pw_locks w)"
  shows "fresh_scenario p slug n w = (([True, True], False),
    staged_at w (pb_ids p 0) slug ''Probe fresh'' n ts_active ((pw_cluster w)(n \<mapsto> built (pb_roleIds p 0) (pb_ids p 0))))"
  using new_call [OF assms(1-3) _ assms(5), of 0] assms(4)
  by (simp add: fresh_scenario_def checks_simps)

interpretation fresh_ok: passing_scenario "fresh_scenario p" "{pb_ids p 0}" p 2 for p
  by unfold_locales (simp add: fresh_result numeral_2_eq_2)

lemma retry_passes:
  assumes "clean_run p" "tenantDatabaseName slug = Some n" "unused slug n w" "pb_ids p j \<notin> tr_id ` set (pw_tenants w)"
    and "provisioningLockKeys (pb_sha p) n \<notin> set (pw_locks w)" "cl n = None \<or> cl n = Some empty_database"
  shows "fst (retry_check p k (pb_ids p j) slug name n (staged_at w (pb_ids p j) slug name n ts_provisioning cl)) = ([True], False)"
  using staged_call(1) [where cl = cl, OF assms(1-4) _ assms(5,6)] assms(1)
  by (simp add: retry_check_def checks_simps clean_run_def)

interpretation nodb_ok: passing_scenario "nodb_scenario p" "{pb_ids p 1, pb_ids p 21}" p 1 for p
  by unfold_locales (simp add: nodb_scenario_def stageRow_unused retry_passes ids_fresh_def)

lemma create_staged:
  "cl n = None \<Longrightarrow> create_probe_database n (staged_at w tid slug name n st cl) =
     Some (staged_at w tid slug name n st (cl(n \<mapsto> empty_database)))"
  by (simp add: create_probe_database_def empty_database_def)

interpretation emptydb_ok: passing_scenario "emptydb_scenario p" "{pb_ids p 2, pb_ids p 22}" p 1 for p
  by unfold_locales (simp add: emptydb_scenario_def stageRow_unused create_staged retry_passes ids_fresh_def)

interpretation rename_ok: passing_scenario "rename_scenario p" "{pb_ids p 7, pb_ids p 27}" p 1 for p
proof (unfold_locales, goal_cases)
  case (1 slug n w)
  then have "UUID (pb_ids p 27)" "pb_ids p 27 \<notin> tr_id ` set (pw_tenants w)" by (auto simp: clean_run_def ids_fresh_def)
  with staged_call(4) [OF 1(1,2,3) this(2,1) 1(5)] 1(3) show ?case
    by (simp add: rename_scenario_def stageRow_unused checks_simps)
qed

lemma inDatabase_staged:
  "cl n = Some d \<Longrightarrow> f d = Some d' \<Longrightarrow>
     inDatabase n f (staged_at w tid slug name n st cl) = Some (staged_at w tid slug name n st (cl(n \<mapsto> d')))"
  by (simp add: inDatabase_def)

interpretation marked_ok: passing_scenario "marked_scenario p" "{pb_ids p 5, pb_ids p 25}" p 1 for p
proof (unfold_locales, goal_cases)
  case (1 slug n w)
  let ?d = "empty_database\<lparr>cd_marker := Some (tenantDatabaseMarker (pb_ids p 30))\<rparr>"
  have id: "pb_ids p 25 \<notin> tr_id ` set (pw_tenants w)" "UUID (pb_ids p 25)" "pb_ids p 30 \<noteq> pb_ids p 25"
    using 1(1,4) by (auto simp: clean_run_def ids_fresh_def inj_on_eq_iff)
  obtain e where "call_provision p 5 slug ''Probe marked''
      (staged_at w (pb_ids p 25) slug ''Probe marked'' n ts_provisioning ((pw_cluster w)(n \<mapsto> ?d))) =
    (Inl e, staged_at w (pb_ids p 25) slug ''Probe marked'' n ts_provisioning ((pw_cluster w)(n \<mapsto> ?d)))" "is_conflict (Some e)"
    using staged_call(3) [OF 1(1-3) id(1,2) 1(5), of "(pw_cluster w)(n \<mapsto> ?d)" ?d 5 "''Probe marked''"] id(3) by auto
  then show ?case
    using 1(3) id(1)
    by (simp add: marked_scenario_def stageRow_unused create_staged inDatabase_staged checks_simps empty_database_def)
qed

interpretation leftover_ok: passing_scenario "leftover_scenario p" "{pb_ids p 6, pb_ids p 26}" p 1 for p
proof (unfold_locales, goal_cases)
  case (1 slug n w)
  let ?d = "empty_database\<lparr>cd_tables := Some (tenant_schema\<lparr>td_roles := [(pb_roleIds p 26, ''leftover-role'')]\<rparr>)\<rparr>"
  have id: "pb_ids p 26 \<notin> tr_id ` set (pw_tenants w)" "UUID (pb_ids p 26)"
    using 1(1,4) by (auto simp: clean_run_def ids_fresh_def)
  obtain e where "call_provision p 6 slug ''Probe leftover''
      (staged_at w (pb_ids p 26) slug ''Probe leftover'' n ts_provisioning ((pw_cluster w)(n \<mapsto> ?d))) =
    (Inl e, staged_at w (pb_ids p 26) slug ''Probe leftover'' n ts_provisioning ((pw_cluster w)(n \<mapsto> ?d)))" "is_conflict (Some e)"
    using staged_call(3) [OF 1(1-3) id(1,2) 1(5), of "(pw_cluster w)(n \<mapsto> ?d)" ?d 6 "''Probe leftover''"]
    by (auto simp: empty_database_def)
  then show ?case
    using 1(3) id(1)
    by (simp add: leftover_scenario_def stageRow_unused create_staged inDatabase_staged checks_simps insert_role_def
        empty_database_def tenant_schema_def roles_named_def)
qed

lemma set_provisioning_staged:
  assumes "tid \<notin> tr_id ` set (pw_tenants w)"
  shows "(staged_at w tid slug name n st cl)\<lparr>pw_tenants := map (set_provisioning tid) (pw_tenants w @ [tenant_row tid slug name n st])\<rparr> =
    staged_at w tid slug name n ts_provisioning cl"
proof -
  have "map (set_provisioning tid) (pw_tenants w) = pw_tenants w"
    using assms by (intro map_idI) (auto simp: set_provisioning_def)
  then show ?thesis by (simp add: staged_at_def set_provisioning_def tenant_row_def)
qed

interpretation built_ok: passing_scenario "built_scenario p" "{pb_ids p 3, pb_ids p 4}" p 1 for p
proof (unfold_locales, goal_cases)
  case (1 slug n w)
  let ?tid = "pb_ids p 3"
  let ?d = "built (pb_roleIds p 3) ?tid"
  obtain db where db: "cd_tables ?d = Some db" by (auto simp: built_def)
  let ?d' = "?d\<lparr>cd_tables := Some (db\<lparr>td_roles := td_roles db @ [(pb_roleIds p 23, ''probe-sentinel'')]\<rparr>)\<rparr>"
  have id: "?tid \<notin> tr_id ` set (pw_tenants w)" "UUID ?tid" using 1(1,4) by (auto simp: clean_run_def ids_fresh_def)
  have again: "call_provision p 4 slug ''Probe built''
      (staged_at w ?tid slug ''Probe built'' n ts_provisioning ((pw_cluster w)(n \<mapsto> ?d'))) =
    (Inr (toTenant (tenant_row ?tid slug ''Probe built'' n ts_active), True),
     staged_at w ?tid slug ''Probe built'' n ts_active ((pw_cluster w)(n \<mapsto> ?d')))"
    using staged_call(2) [OF 1(1-3) id(1,2) 1(5), of "(pw_cluster w)(n \<mapsto> ?d')" ?d' 4 "''Probe built''"] by simp
  have "insert_role (pb_roleIds p 23) ''probe-sentinel'' ?d = Some ?d'" by (simp add: insert_role_def db)
  moreover have "roles_named TENANT_ADMIN_ROLE_NAME (the (cd_tables ?d')) = 1" "roles_named ''probe-sentinel'' (the (cd_tables ?d')) = 1"
    "length (cd_permissions ?d') = length DEFAULT_PERMISSIONS" "length (td_rolePermissions (the (cd_tables ?d'))) = length DEFAULT_PERMISSIONS"
    using db by (auto simp: roles_named_def built_def)
  ultimately show ?case
    using new_call [OF 1(1-3) id(1) 1(5), of "''Probe built''"] again
    by (simp add: built_scenario_def set_provisioning_staged [OF id(1)] inDatabase_staged checks_simps rbacOf_def del: map_append)
qed

text \<open>While somebody holds the lock a call changes nothing.\<close>

lemma refused_call:
  assumes "clean_run p" "tenantDatabaseName slug = Some n" "provisioningLockKeys (pb_sha p) n \<in> set (pw_locks w)"
  shows "call_provision p k slug name w = (Inl (ProvisionDomain (TenantProvisioningInProgressError slug)), w)"
  using assms by (simp add: call_provision_def provisionTenant_def lockProvisioning_def clean_run_def no_faults_def)

interpretation locked_ok: passing_scenario "locked_scenario p" "{pb_ids p 8, pb_ids p 9, pb_ids p 28}" p 2 for p
proof (unfold_locales, goal_cases)
  case (1 slug n w)
  let ?key = "provisioningLockKeys (pb_sha p) n"
  let ?w1 = "staged_at w (pb_ids p 28) slug ''Probe locked'' n ts_provisioning (pw_cluster w)"
  have id: "pb_ids p 28 \<notin> tr_id ` set (pw_tenants w)" "UUID (pb_ids p 28)" using 1(1,4) by (auto simp: clean_run_def ids_fresh_def)
  have "call_provision p 8 slug ''Probe locked'' (?w1\<lparr>pw_locks := ?key # pw_locks w\<rparr>) =
      (Inl (ProvisionDomain (TenantProvisioningInProgressError slug)), ?w1\<lparr>pw_locks := ?key # pw_locks w\<rparr>)"
    using refused_call [OF 1(1,2)] by simp
  moreover have "rowOf slug (?w1\<lparr>pw_locks := l\<rparr>) = rowOf slug ?w1" for l by (simp add: rowOf_def)
  ultimately show ?case
    using staged_call(1) [OF 1(1-3) id 1(5), of "pw_cluster w" 9 "''Probe locked''"] 1(3,5) id(1)
    by (simp add: locked_scenario_def stageRow_unused checks_simps numeral_2_eq_2)
qed

interpretation race_ok: passing_scenario "race_scenario p" "{pb_ids p 10, pb_ids p 11}" p 1 for p
proof (unfold_locales, goal_cases)
  case (1 slug n w)
  let ?key = "provisioningLockKeys (pb_sha p) n" and ?tid = "pb_ids p 10"
  let ?cl = "(pw_cluster w)(n \<mapsto> built (pb_roleIds p 10) ?tid)"
  have id: "?tid \<notin> tr_id ` set (pw_tenants w)" "UUID ?tid" using 1(1,4) by (auto simp: clean_run_def ids_fresh_def)
  have lock: "lockProvisioning (pb_sha p) (ft_lock (pb_faults p 10)) n w = (Inr True, w\<lparr>pw_locks := ?key # pw_locks w\<rparr>)"
    using 1(1,5) by (simp add: lockProvisioning_def clean_run_def no_faults_def)
  have "call_provision p 11 slug ''Probe race'' (staged_at w ?tid slug ''Probe race'' n ts_active ?cl) =
      (Inl (ProvisionDomain (TenantAlreadyExistsError slug)), staged_at w ?tid slug ''Probe race'' n ts_active ?cl)"
    using staged_call(4) [OF 1(1-3) id 1(5)] by simp
  moreover have "call_provision p 11 slug ''Probe race'' (w\<lparr>pw_locks := ?key # pw_locks w\<rparr>) =
      (Inl (ProvisionDomain (TenantProvisioningInProgressError slug)), w\<lparr>pw_locks := ?key # pw_locks w\<rparr>)"
    using refused_call [OF 1(1,2)] by simp
  ultimately show ?case
    using new_call [OF 1(1-3) id(1) 1(5), of "''Probe race''"] lock
    by (simp add: race_scenario_def race_def checks_simps)
qed

section \<open>The run as a whole\<close>

lemma works_on_ready:
  assumes "works_on ids slug n w w'" "distinct_ids w" "slug_ready sha w slug'" "slug' \<noteq> slug"
    and "tenantDatabaseName slug = Some n" "tenantDatabaseName slug' \<noteq> tenantDatabaseName slug"
  shows "slug_ready sha w' slug'"
proof -
  obtain n' where n': "tenantDatabaseName slug' = Some n'" "unused slug' n' w" "provisioningLockKeys sha n' \<notin> set (pw_locks w)"
    using assms(3) by (auto simp: slug_ready_def split: option.splits)
  have "n' \<noteq> n" using n'(1) assms(5,6) by auto
  moreover have "confined ids slug n w w'" "pw_locks w' = pw_locks w" using assms(1,2) by (auto simp: works_on_def)
  ultimately show ?thesis
    using n' assms(4)
    by (auto simp: slug_ready_def unused_def confined_def list_all_iff row_from_def list_ex_iff same_identity_def image_iff)
qed

lemma works_on_fresh:
  "works_on ids slug n w w' \<Longrightarrow> distinct_ids w \<Longrightarrow> ids_fresh ids' w \<Longrightarrow> ids \<inter> ids' = {} \<Longrightarrow> ids_fresh ids' w'"
  by (fastforce simp: works_on_def confined_def ids_fresh_def list_all_iff row_from_def list_ex_iff same_identity_def)

type_synonym family_member = "string \<times> scenario \<times> string set \<times> nat"

definition apart :: "family_member \<Rightarrow> family_member \<Rightarrow> bool" where
  "apart = (\<lambda>(slug, _, ids, _) (slug', _, ids', _).
     slug' \<noteq> slug \<and> tenantDatabaseName slug' \<noteq> tenantDatabaseName slug \<and> ids \<inter> ids' = {})"

definition member_ready :: "ProbeRun \<Rightarrow> ProvisionWorld \<Rightarrow> family_member \<Rightarrow> bool" where
  "member_ready p w = (\<lambda>(slug, s, ids, k). passing_scenario s ids p k \<and> slug_ready (pb_sha p) w slug \<and> ids_fresh ids w)"

lemma run_scenarios_pass:
  assumes "clean_run p" "list_all (member_ready p w) xs" "sorted_wrt apart xs" "distinct_ids w"
  shows "\<exists>w'. run_scenarios (map (\<lambda>(slug, s, _). (slug, s)) xs) w =
    ((replicate (\<Sum>(_, _, _, k)\<leftarrow>xs. k) True, False), map fst xs, w')"
  using assms(2-)
proof (induction xs arbitrary: w)
  case (Cons x xs)
  obtain slug s ids k where x: "x = (slug, s, ids, k)" by (cases x)
  from Cons.prems(1) x have s: "passing_scenario s ids p k" "slug_ready (pb_sha p) w slug" "ids_fresh ids w"
    by (auto simp: member_ready_def)
  then obtain n where n: "tenantDatabaseName slug = Some n" "unused slug n w" "provisioningLockKeys (pb_sha p) n \<notin> set (pw_locks w)"
    by (auto simp: slug_ready_def split: option.splits)
  obtain w1 where w1: "s slug n w = ((replicate k True, False), w1)"
    using passing_scenario.scenario_passes [OF s(1) assms(1) n(1,2) s(3) n(3)] by (cases "s slug n w") auto
  have "probe_scenario s ids" using s(1) by (simp add: passing_scenario_def)
  from probe_scenario.scenario_works [OF this n(1), of w] w1 have work: "works_on ids slug n w w1" by simp
  have "list_all (member_ready p w1) xs"
    using Cons.prems(1,2) works_on_ready [OF work Cons.prems(3) _ _ n(1)] works_on_fresh [OF work Cons.prems(3)]
    unfolding x by (fastforce simp: list_all_iff member_ready_def apart_def)
  moreover have "distinct_ids w1" using work Cons.prems(3) by (simp add: works_on_def)
  ultimately obtain w' where "run_scenarios (map (\<lambda>(slug, s, _). (slug, s)) xs) w1 =
      ((replicate (\<Sum>(_, _, _, k)\<leftarrow>xs. k) True, False), map fst xs, w')"
    using Cons.IH Cons.prems(2) by auto
  then show ?case by (simp add: x n(1) w1 replicate_add)
qed simp

text \<open>The scenarios, with the ids each of them uses and the number of its checks.\<close>

definition family :: "ProbeRun \<Rightarrow> family_member list" where
  "family p =
     [(slugFor p ''fresh'', fresh_scenario p, {pb_ids p 0}, 2),
      (slugFor p ''nodb'', nodb_scenario p, {pb_ids p 1, pb_ids p 21}, 1),
      (slugFor p ''emptydb'', emptydb_scenario p, {pb_ids p 2, pb_ids p 22}, 1),
      (slugFor p ''built'', built_scenario p, {pb_ids p 3, pb_ids p 4}, 1),
      (slugFor p ''marked'', marked_scenario p, {pb_ids p 5, pb_ids p 25}, 1),
      (slugFor p ''leftover'', leftover_scenario p, {pb_ids p 6, pb_ids p 26}, 1),
      (slugFor p ''rename'', rename_scenario p, {pb_ids p 7, pb_ids p 27}, 1),
      (slugFor p ''locked'', locked_scenario p, {pb_ids p 8, pb_ids p 9, pb_ids p 28}, 2),
      (slugFor p ''race'', race_scenario p, {pb_ids p 10, pb_ids p 11}, 1)]"

lemma scenarios_family: "scenarios p = map (\<lambda>(slug, s, _). (slug, s)) (family p)"
  by (simp add: scenarios_def family_def)

lemmas passing_axioms = fresh_ok.passing_scenario_axioms nodb_ok.passing_scenario_axioms emptydb_ok.passing_scenario_axioms
  built_ok.passing_scenario_axioms marked_ok.passing_scenario_axioms leftover_ok.passing_scenario_axioms
  rename_ok.passing_scenario_axioms locked_ok.passing_scenario_axioms race_ok.passing_scenario_axioms

lemma passing_scenarioI: "probe_scenario s ids \<Longrightarrow> passing_scenario_axioms s ids p k \<Longrightarrow> passing_scenario s ids p k"
  by (simp add: passing_scenario_def)

lemma slugFor_eq [simp]: "slugFor p x = slugFor p y \<longleftrightarrow> x = y"
  by (simp add: slugFor_def)

text \<open>Different scenarios get different databases.\<close>

lemma probe_names_differ:
  assumes "list_all lower_alpha x" "list_all lower_alpha y" "x \<noteq> y" "tenantDatabaseName (slugFor p x) \<noteq> None"
  shows "tenantDatabaseName (slugFor p x) \<noteq> tenantDatabaseName (slugFor p y)"
proof -
  have lower: "lower_char c = c \<and> name_char c" if "lower_alpha c" for c
    using that by (auto simp: lower_alpha_def name_char_def lower_char_def)
  define f where "f = (\<lambda>s. map (\<lambda>c. if name_char c then c else CHR ''_'') (toLowerCase s))"
  have app: "f (a @ b) = f a @ f b" for a b by (simp add: f_def toLowerCase_def)
  have "f z = z" if "list_all lower_alpha z" for z
    using that lower unfolding f_def toLowerCase_def by (induction z) auto
  with assms(1-3) have "f (''tenant_'' @ slugFor p x) \<noteq> f (''tenant_'' @ slugFor p y)"
    unfolding slugFor_def app by simp
  moreover have "tenantDatabaseName s = (if SAFE_DB_NAME (f (''tenant_'' @ s)) then Some (f (''tenant_'' @ s)) else None)" for s
    by (simp only: tenantDatabaseName_def f_def Let_def)
  ultimately show ?thesis using assms(4) by (auto split: if_splits)
qed

lemma family_ready:
  assumes "probe_ready p w" "clean_run p" "ids_fresh (range (pb_ids p)) w"
  shows "list_all (member_ready p w) (family p)"
proof -
  have fresh: "ids_fresh (pb_ids p ` K) w" for K using assms(3) by (auto simp: ids_fresh_def)
  have ids: "ids_fresh {pb_ids p i} w" "ids_fresh {pb_ids p i, pb_ids p j} w" "ids_fresh {pb_ids p i, pb_ids p j, pb_ids p k} w" for i j k
    using fresh [of "{i}"] fresh [of "{i, j}"] fresh [of "{i, j, k}"] by simp_all
  have "slug_ready (pb_sha p) w slug" if "(slug, s) \<in> set (scenarios p)" for slug s
    using that assms(1) by (auto simp: probe_ready_def list_all_iff)
  then show ?thesis
    unfolding family_def member_ready_def
    using scenario_axioms [of p] passing_axioms [of p] ids by (auto simp: scenarios_def intro!: passing_scenarioI)
qed

definition scenario_labels :: "string list" where
  "scenario_labels = [''fresh'', ''nodb'', ''emptydb'', ''built'', ''marked'', ''leftover'', ''rename'', ''locked'', ''race'']"

lemma scenario_labels_lower: "list_all (list_all lower_alpha) scenario_labels"
  by code_simp

lemma scenario_slugs: "map fst (scenarios p) = map (slugFor p) scenario_labels"
  by (simp add: scenarios_def scenario_labels_def)

lemma family_apart:
  assumes "probe_ready p w" "clean_run p"
  shows "sorted_wrt apart (family p)"
proof -
  have eq: "pb_ids p i = pb_ids p j \<longleftrightarrow> i = j" if "i \<le> 30" "j \<le> 30" for i j
    using assms(2) that by (auto simp: clean_run_def dest: inj_onD)
  have ready: "list_all (slug_ready (pb_sha p) w) (map fst (scenarios p))"
    using assms(1) by (simp add: probe_ready_def list_all_iff split_beta)
  have "tenantDatabaseName (slugFor p x) \<noteq> tenantDatabaseName (slugFor p y)"
    if "x \<noteq> y" "x \<in> set scenario_labels" "y \<in> set scenario_labels" for x y
  proof (rule probe_names_differ)
    show "tenantDatabaseName (slugFor p x) \<noteq> None"
      using ready that(2) unfolding scenario_slugs by (auto simp: list_all_iff slug_ready_def split: option.splits)
  qed (use that scenario_labels_lower in \<open>auto simp: list_all_iff\<close>)
  then show ?thesis unfolding family_def apart_def by (simp add: eq scenario_labels_def)
qed

lemma existing_call:
  assumes "clean_run p" "tenantDatabaseName slug = Some n" "provisioningLockKeys (pb_sha p) n \<notin> set (pw_locks w)"
    and "rowOf slug w = Some row" "tr_status row \<noteq> ts_provisioning"
  shows "is_existing (rejectionOf (fst (call_provision p k slug name w)))"
  using provisionTenant_locked [OF assms(2,3), of "pb_faults p k" "pb_ids p k" "pb_roleIds p k" name] assms
  by (simp add: call_provision_def clean_run_def no_faults_def provision_locked_def registerOrResume_def rowOf_def)

lemma find_filter: "(\<And>x. P x \<Longrightarrow> Q x) \<Longrightarrow> find P (filter Q xs) = find P xs"
  by (induction xs) auto

text \<open>The scenarios after the first leave its row alone.\<close>

lemma without_row:
  assumes "without made w' = without made w" "slug \<notin> set made"
  shows "rowOf slug w' = rowOf slug w"
proof -
  have find: "rowOf slug v = find (\<lambda>r. tr_slug r = slug) (pw_tenants (without made v))" for v
    using assms(2) by (auto simp: rowOf_def without_def intro!: find_filter [symmetric])
  show ?thesis by (simp only: find assms(1))
qed

lemma fresh_row_stays:
  assumes "run_scenarios (scenarios p) w = ((checks, False), made, w')" "distinct_ids w"
    and "tenantDatabaseName (slugFor p ''fresh'') = Some n" "fresh_scenario p (slugFor p ''fresh'') n w = ((cs, False), w1)"
  shows "rowOf (slugFor p ''fresh'') w' = rowOf (slugFor p ''fresh'') w1 \<and> pw_locks w' = pw_locks w"
proof -
  let ?rest = "tl (scenarios p)"
  have split: "scenarios p = (slugFor p ''fresh'', fresh_scenario p) # ?rest" by (simp add: scenarios_def)
  obtain later made' where run: "run_scenarios ?rest w1 = ((later, False), made', w')"
    using assms(1,3,4) by (subst (asm) split) (auto split: prod.splits)
  have "works_on {pb_ids p 0} (slugFor p ''fresh'') n w w1"
    using fresh.scenario_works [OF assms(3), of p w] assms(4) by simp
  with assms(2) have w1: "distinct_ids w1" "pw_locks w1 = pw_locks w" by (simp_all add: works_on_def)
  have "list_all (\<lambda>(slug, s). \<exists>ids. probe_scenario s ids) ?rest" using scenarios_work [of p] by (subst (asm) split) simp
  from run_scenarios_without [OF run this w1(1) subset_refl] have rest: "without made' w' = without made' w1" "set made' \<subseteq> fst ` set ?rest" by auto
  have "slugFor p ''fresh'' \<notin> set made'" using rest(2) by (auto simp: scenarios_def)
  moreover have "pw_locks (without made' v) = pw_locks v" for v by (simp add: without_def)
  ultimately show ?thesis using without_row [OF rest(1)] rest(1) w1(2) by metis
qed

text \<open>On a database cluster that works, the provisioning probe passes. When its slugs and databases are free, nobody
  holds their locks and no statement fails, then all of its checks hold, in either order of the two racing calls: a
  first run completes and marks its database; a retry finishes what stopped before, during and after
  the build without rebuilding; a foreign or unmarked database, a different name, a held lock and a
  finished tenant are refused with nothing changed. It exits with 0 and the world is what it was.\<close>

theorem provisioning_probe_passes:
  assumes "probe_ready p w" and "clean_run p" and "ids_fresh (range (pb_ids p)) w" and "distinct (map tr_id (pw_tenants w))"
    and "masterUrl = Some (c # cs)"
  shows "provisioning_main p masterUrl w = (0, w)"
proof (rule prod_eqI)
  have ids: "distinct_ids w" using assms(4) by (simp add: distinct_ids_def)
  let ?slug = "slugFor p ''fresh''"
  have ready: "slug_ready (pb_sha p) w ?slug" "ids_fresh {pb_ids p 0} w"
    using assms(1,3) by (auto simp: probe_ready_def scenarios_def ids_fresh_def)
  then obtain n where n: "tenantDatabaseName ?slug = Some n" "unused ?slug n w" "provisioningLockKeys (pb_sha p) n \<notin> set (pw_locks w)"
    by (auto simp: slug_ready_def split: option.splits)
  obtain w' where run: "run_scenarios (scenarios p) w = ((replicate 11 True, False), map fst (scenarios p), w')"
    using run_scenarios_pass [OF assms(2) family_ready [OF assms(1-3)] family_apart [OF assms(1,2)] ids]
    unfolding scenarios_family [symmetric] by (auto simp: family_def scenarios_def simp del: run_scenarios.simps)
  have "rowOf ?slug w' = Some (tenant_row (pb_ids p 0) ?slug ''Probe fresh'' n ts_active)" "pw_locks w' = pw_locks w"
    using fresh_row_stays [OF run] fresh_result [OF assms(2) n(1,2) ready(2) n(3)] n(1,2) ids by auto
  from existing_call [OF assms(2) n(1) _ this(1)] n(3) this(2)
  have "is_existing (rejectionOf (fst (call_provision p 12 ?slug ''Probe fresh'' w')))" by simp
  moreover obtain left final where clean: "cleanup p (map fst (scenarios p))
      (snd (call_provision p 12 ?slug ''Probe fresh'' w')) = (left, final)" by fastforce
  moreover have "left = 0"
    using cleanup_without [OF ready_without(2) [OF assms(1)] clean] assms(2) by (simp add: clean_run_def)
  ultimately have zero: "fst (provisioning_main p masterUrl w) = 0"
    by (auto simp: assms(5) provisioning_main_def provisioning_probe_def run split: prod.splits simp del: run_scenarios.simps)
  then show "fst (provisioning_main p masterUrl w) = fst (0, w)" by simp
  show "snd (provisioning_main p masterUrl w) = snd (0, w)"
    using probe_restores [OF assms(1,4), of masterUrl "fst (provisioning_main p masterUrl w)"] zero by (metis prod.collapse snd_conv zero_neq_one)
qed

section \<open>A run\<close>

definition probe_digit :: "nat \<Rightarrow> char" where
  "probe_digit i = ''0123456789'' ! i"

definition probe_id :: "nat \<Rightarrow> string" where
  "probe_id k = ''00000000-0000-4000-8000-0000000000'' @ [probe_digit (k div 10 mod 10), probe_digit (k mod 10)]"

lemma probe_digits: "i < 10 \<Longrightarrow> hex_digit (probe_digit i)" "i < 10 \<Longrightarrow> j < 10 \<Longrightarrow> probe_digit i = probe_digit j \<Longrightarrow> i = j"
proof -
  have "list_all hex_digit ''0123456789''" by code_simp
  then show "hex_digit (probe_digit i)" if "i < 10" using that by (auto simp: list_all_length probe_digit_def)
  show "i = j" if "i < 10" "j < 10" "probe_digit i = probe_digit j"
    using nth_eq_iff_index_eq [of "''0123456789''" i j] that unfolding probe_digit_def by simp
qed

definition demo_probe :: ProbeRun where
  "demo_probe = \<lparr>pb_sha = demo_sha, pb_run = ''mf3k2a1z'', pb_ids = probe_id, pb_roleIds = probe_id,
     pb_faults = (\<lambda>_. no_faults), pb_overlap = True,
     pb_drop = (\<lambda>_. Works), pb_delete = (\<lambda>_. Works)\<rparr>"

lemma probe_id_UUID: "UUID (probe_id k)"
proof -
  have "UUID (''00000000-0000-4000-8000-0000000000'' @ [a, b])" if "hex_digit a" "hex_digit b" for a b
  proof -
    have "a \<noteq> CHR ''-''" "b \<noteq> CHR ''-''" using that by (auto simp: hex_digit_def is_digit_def code_unit_def)
    with that show ?thesis by (simp add: UUID_def hex_digit_def is_digit_def code_unit_def)
  qed
  then show ?thesis unfolding probe_id_def by (simp add: probe_digits(1))
qed

lemma probe_id_inj: "inj_on probe_id {..30}"
proof (rule inj_onI)
  fix i j :: nat
  assume le: "i \<in> {..30}" "j \<in> {..30}" and eq: "probe_id i = probe_id j"
  then have "i div 10 mod 10 = j div 10 mod 10" "i mod 10 = j mod 10"
    unfolding probe_id_def by (auto intro!: probe_digits(2))
  moreover have "i div 10 < 10" "j div 10 < 10" using le by auto
  ultimately show "i = j" by (metis div_mult_mod_eq mod_less)
qed

lemma demo_slugs: "list_all slug_pattern (map (slugFor demo_probe) scenario_labels)"
  by code_simp

lemma demo_probe_ready: "probe_ready (demo_probe\<lparr>pb_faults := f, pb_delete := d\<rparr>) demo_world"
proof -
  have "slug_ready demo_sha demo_world slug" if "slug_pattern slug" for slug
    using tenantDatabaseName_slug [OF that] by (simp add: slug_ready_def unused_def demo_world_def)
  then have "list_all (slug_ready demo_sha demo_world) (map fst (scenarios demo_probe))"
    using demo_slugs unfolding scenario_slugs by (auto simp: list_all_iff)
  then show ?thesis by (simp add: probe_ready_def scenarios_def slugFor_def demo_probe_def)
qed

text \<open>Every build is committed with its answer lost; and then no \<open>DELETE\<close> works either, and the run fails.\<close>

theorem provisioning_probe_harmless_witness:
  "snd (provisioning_main (demo_probe\<lparr>pb_faults := \<lambda>_. no_faults\<lparr>ft_build := FailsAfter\<rparr>, pb_delete := \<lambda>_. Works\<rparr>)
     (Some ''postgres://m'') demo_world) = demo_world \<and>
   (snd (provisioning_main (demo_probe\<lparr>pb_faults := \<lambda>_. no_faults, pb_delete := \<lambda>_. FailsBefore\<rparr>)
     (Some ''postgres://m'') demo_world) = demo_world \<or>
    fst (provisioning_main (demo_probe\<lparr>pb_faults := \<lambda>_. no_faults, pb_delete := \<lambda>_. FailsBefore\<rparr>)
     (Some ''postgres://m'') demo_world) = 1)"
proof -
  note all = provisioning_probe_harmless [OF demo_probe_ready _ prod.collapse [symmetric]]
  show ?thesis
    using all [of "\<lambda>_. Works" "\<lambda>_. no_faults\<lparr>ft_build := FailsAfter\<rparr>" "Some ''postgres://m''"]
      all [of "\<lambda>_. FailsBefore" "\<lambda>_. no_faults" "Some ''postgres://m''"]
    by (simp add: demo_probe_def list_all_iff case_prod_unfold)
qed

theorem provisioning_probe_passes_witness:
  "provisioning_main demo_probe (Some ''postgres://m'') demo_world = (0, demo_world)"
  using provisioning_probe_passes [OF demo_probe_ready [where f = "\<lambda>_. no_faults" and d = "\<lambda>_. Works"]]
  by (simp add: clean_run_def removal_fails_def demo_probe_def probe_id_UUID probe_id_inj ids_fresh_def)

end
