(* ===== verification/Claims_Gate.thy ===== *)
theory Claims_Gate
  imports Kit_Prelude
begin

text \<open>
  \<open>scripts/verify-claims.mjs\<close>: the build gate that ties every control \<open>COMPLIANCE.md\<close> marks Implemented to
  registered evidence, and the full run that reproduces that evidence. A suite's run is its exit and its
  output, an argument. The check mark that vitest prints is outside the string model, and an argument.
\<close>

section \<open>The document\<close>

record Control =
  co_capability :: string
  co_status :: string
  co_hipaa :: string
  co_pci :: string
  co_soc2 :: string

text \<open>\<open>replace(/\*\*/g, "")\<close>.\<close>

fun without_bold :: "string \<Rightarrow> string" where
  "without_bold (a # b # s) =
     (if a = CHR ''*'' \<and> b = CHR ''*'' then without_bold s else a # without_bold (b # s))"
| "without_bold s = s"

text \<open>\<open>/^\|\s*-{3}/\<close>.\<close>

definition is_separator :: "string \<Rightarrow> bool" where
  "is_separator line \<longleftrightarrow>
     (case line of [] \<Rightarrow> False | c # rest \<Rightarrow> c = CHR ''|'' \<and> startsWith (dropWhile is_space rest) ''---'')"

definition table_cells :: "string \<Rightarrow> string list" where
  "table_cells line = map trim (butlast (tl (split_on (CHR ''|'') line)))"

definition control_of :: "string list \<Rightarrow> Control" where
  "control_of cells =
     \<lparr>co_capability = cells ! 0, co_status = trim (without_bold (cells ! 1)), co_hipaa = cells ! 2, co_pci = cells ! 3,
      co_soc2 = cells ! 4\<rparr>"

fun table_rows :: "bool \<Rightarrow> string list \<Rightarrow> Control list" where
  "table_rows inTable [] = []"
| "table_rows inTable (line # rest) =
     (if startsWith line ''| Capability'' then table_rows True rest
      else if \<not> inTable then table_rows inTable rest
      else if \<not> startsWith line ''|'' then []
      else if is_separator line then table_rows inTable rest
      else
        let cells = table_cells line in
        if length cells < 5 then table_rows inTable rest
        else control_of cells # table_rows inTable rest)"

definition parseComplianceTable :: "string \<Rightarrow> Control list" where
  "parseComplianceTable markdown = table_rows False (split_on (unit_char 10) markdown)"

section \<open>Suites and evidence\<close>

record Suite =
  su_passMarker :: string
  su_exitCodeOnly :: bool

definition SUITES :: "string \<Rightarrow> (string \<times> Suite) list" where
  "SUITES mark =
     [(''smoke'', \<lparr>su_passMarker = ''PASS'', su_exitCodeOnly = False\<rparr>),
      (''slowloris'', \<lparr>su_passMarker = ''PASS'', su_exitCodeOnly = False\<rparr>),
      (''immutability'', \<lparr>su_passMarker = ''PASS'', su_exitCodeOnly = False\<rparr>),
      (''contention'', \<lparr>su_passMarker = ''PASS'', su_exitCodeOnly = False\<rparr>),
      (''provisioning'', \<lparr>su_passMarker = ''PASS'', su_exitCodeOnly = False\<rparr>),
      (''unit'', \<lparr>su_passMarker = mark, su_exitCodeOnly = False\<rparr>),
      (''audit'', \<lparr>su_passMarker = [], su_exitCodeOnly = True\<rparr>)]"

definition RUN_ORDER :: "string list" where
  "RUN_ORDER = [''smoke'', ''slowloris'', ''immutability'', ''contention'', ''provisioning'', ''unit'', ''audit'']"

text \<open>An item of evidence: its suite, and the text its passing line carries.\<close>

type_synonym evidence = "string \<times> string option"
type_synonym registry = "(string \<times> evidence list) list"

definition EVIDENCE :: registry where
  "EVIDENCE =
     [
      (''Multi-tenant isolation (database-per-tenant)'',
        [(''smoke'', Some ''tenant B sees none of tenant A's users''),
         (''smoke'', Some ''tenant B holds exactly its own 1 user while tenant A holds 2''),
         (''smoke'', Some ''GET /users with a token minted for a different tenant''),
         (''smoke'', Some ''rejected with CROSS_TENANT_TOKEN''),
         (''smoke'', Some ''GET /users with an unknown tenant slug''),
         (''provisioning'', Some ''a retry refuses a database marked as built for a different tenant''),
         (''provisioning'', Some ''a retry refuses an unmarked database that already holds the tenant schema'')]),
      (''RBAC / access control'',
        [(''smoke'', Some ''GET /users as tenant-admin''),
         (''smoke'', Some ''GET /users without the users:read permission''),
         (''smoke'', Some ''registered user's token carries no permissions''),
         (''smoke'', Some ''permissions claim carries the seeded grants''),
         (''unit'', Some ''services/auth/src/rbac/permissions.guard.spec.ts''),
         (''smoke'', Some ''two Authorization headers, the valid token first'')]),
      (''Password storage (Argon2id KDF)'',
        [(''unit'', Some ''uses argon2id, not argon2i or argon2d''),
         (''unit'', Some ''states the cost parameters explicitly rather than inheriting library defaults''),
         (''unit'', Some ''encodes the chosen parameters into the digest''),
         (''smoke'', Some ''POST /auth/login with a wrong password''),
         (''smoke'', Some ''POST /auth/login for a nonexistent user'')]),
      (''Access-token confidentiality (nested JWT: signed, then encrypted)'',
        [(''smoke'', Some ''token is a 5-segment compact JWE (not a bare 3-segment JWS)''),
         (''smoke'', Some ''no segment of the token reveals claims without the encryption key''),
         (''smoke'', Some ''outer JWE is A256KW + A256GCM''),
         (''smoke'', Some ''explicitly typed crbk-at+jwt''),
         (''smoke'', Some ''outer header names its key with a kid''),
         (''unit'', Some ''signs with ES256, not HS256''),
         (''unit'', Some ''a valid JWE wrapping a FORGED inner signature''),
         (''unit'', Some ''a bare JWS that was never encrypted''),
         (''unit'', Some ''rejects a token naming an unknown encryption kid''),
         (''unit'', Some ''leaks no claim into the outer header, which is not encrypted'')]),
      (''Input validation'',
        [(''smoke'', Some ''unknown properties are rejected, not ignored''),
         (''smoke'', Some ''each field problem carries a JSON Pointer (#/slug)''),
         (''smoke'', Some ''invalid field values give 422, not 400''),
         (''smoke'', Some ''unparseable body gives 400, distinct from 422''),
         (''unit'', Some ''services/auth/src/common/validation-exception.factory.spec.ts'')]),
      (''Append-only audit logging (hash-chained)'',
        [(''immutability'', Some ''refused by the trigger''),
         (''immutability'', Some ''a duplicate prev_hash is refused by''),
         (''immutability'', Some ''nothing was destroyed''),
         (''immutability'', Some ''append still works''),
         (''contention'', Some ''so the lock serialised them''),
         (''contention'', Some ''one unbroken chain, no fork''),
         (''smoke'', Some ''audit chain verifies from genesis to head''),
         (''smoke'', Some ''the control-plane chain verifies''),
         (''smoke'', Some ''verify prints a 64-hex head hash''),
         (''unit'', Some ''packages/crypto/src/audit-hash.spec.ts'')]),
      (''Rate limiting and login throttling (application layer)'',
        [(''smoke'', Some ''the rejected call was rate limited too, so the limiter runs before authentication''),
         (''unit'', Some ''services/auth/src/ratelimit/rate-limit.store.spec.ts''),
         (''unit'', Some ''services/auth/src/auth/login-throttle.service.spec.ts''),
         (''unit'', Some ''says nothing about which counter tripped''),
         (''unit'', Some ''refuses the attempt if the ACCOUNT counter cannot be read''),
         (''unit'', Some ''refuses the attempt if the ADDRESS counter cannot be read''),
         (''unit'', Some ''count every address in one IPv6 /64 against the same budget'')]),
      (''Request-level DoS limits (timeouts, body size)'',
        [(''slowloris'', Some ''server answered 408''),
         (''smoke'', Some ''a body of exactly BODY_LIMIT_BYTES gets past the limit''),
         (''smoke'', Some ''a body one byte over BODY_LIMIT_BYTES is refused''),
         (''smoke'', Some ''an oversized body reports PAYLOAD_TOO_LARGE'')]),
      (''Control-plane authorization (tenant provisioning)'',
        [(''smoke'', Some ''POST /tenants with NO credential''),
         (''smoke'', Some ''POST /tenants with a WRONG credential''),
         (''smoke'', Some ''POST /tenants with the key but no Bearer scheme''),
         (''smoke'', Some ''POST /tenants with two Authorization headers, the valid key first''),
         (''smoke'', Some ''rejection carries the CONTROL_PLANE_UNAUTHORIZED code''),
         (''smoke'', Some ''the rejected tenant was never created''),
         (''unit'', Some ''services/auth/src/tenants/control-plane.guard.spec.ts'')]),
      (''Vulnerability / dependency management'',
        [(''audit'', None)])]"

definition evidence_for :: "registry \<Rightarrow> string \<Rightarrow> evidence list" where
  "evidence_for evidence capability = (case map_of evidence capability of None \<Rightarrow> [] | Some items \<Rightarrow> items)"

section \<open>The coverage gate\<close>

datatype coverage_problem = NoEvidence string | UnknownCapability string

definition coverage_problems :: "registry \<Rightarrow> Control list \<Rightarrow> coverage_problem list" where
  "coverage_problems evidence rows =
     concat (map (\<lambda>row. if co_status row = ''Implemented'' \<and> evidence_for evidence (co_capability row) = []
                        then [NoEvidence (co_capability row)] else []) rows) @
     concat (map (\<lambda>key. if key \<notin> set (map co_capability rows) then [UnknownCapability key] else []) (map fst evidence))"

definition runCoverageGate :: "registry \<Rightarrow> Control list \<Rightarrow> nat" where
  "runCoverageGate evidence rows = (if 0 < length (coverage_problems evidence rows) then 1 else 0)"

section \<open>The full run\<close>

record SuiteRun =
  sr_ok :: bool
  sr_output :: string

definition run_lines :: "SuiteRun \<Rightarrow> string list" where
  "run_lines run = split_on (unit_char 10) (sr_output run)"

definition validateRegistry :: "(string \<times> Suite) list \<Rightarrow> string list \<Rightarrow> string list \<Rightarrow> bool" where
  "validateRegistry suites order needed =
     (let unknown = filter (\<lambda>i. map_of suites i = None) needed;
          unordered = filter (\<lambda>i. map_of suites i \<noteq> None \<and> i \<notin> set order) needed
      in length unknown = 0 \<and> length unordered = 0)"

datatype verdict = v_pass | v_fail | v_missing

definition judge :: "Suite \<Rightarrow> evidence \<Rightarrow> SuiteRun \<Rightarrow> verdict" where
  "judge suite item run =
     (if su_exitCodeOnly suite then (if sr_ok run then v_pass else v_fail)
      else
        let text = (case snd item of None \<Rightarrow> ''undefined'' | Some m \<Rightarrow> m) in
        if list_ex (\<lambda>l. includesSub l (su_passMarker suite) \<and> includesSub l text) (run_lines run) then v_pass
        else if \<not> includesSub (sr_output run) text then v_missing
        else v_fail)"

definition needed_suites :: "registry \<Rightarrow> string list" where
  "needed_suites evidence = remdups (concat (map (map fst \<circ> snd) evidence))"

definition verdicts :: "(string \<times> Suite) list \<Rightarrow> registry \<Rightarrow> (string \<Rightarrow> SuiteRun) \<Rightarrow> Control list \<Rightarrow> verdict list" where
  "verdicts suites evidence runs rows =
     concat (map (\<lambda>row. map (\<lambda>item. judge (the (map_of suites (fst item))) item (runs (fst item)))
                            (evidence_for evidence (co_capability row))) rows)"

definition runFull ::
    "(string \<times> Suite) list \<Rightarrow> string list \<Rightarrow> registry \<Rightarrow> (string \<Rightarrow> SuiteRun) \<Rightarrow> Control list \<Rightarrow> nat" where
  "runFull suites order evidence runs rows =
     (if \<not> validateRegistry suites order (needed_suites evidence) then 1
      else
        let tally = verdicts suites evidence runs rows in
        if v_fail \<in> set tally then 1 else if v_missing \<in> set tally then 1 else 0)"

text \<open>The command: its exit code. \<open>compliance\<close> is the document, when it is there.\<close>

definition claims_main :: "string \<Rightarrow> string option \<Rightarrow> (string \<Rightarrow> SuiteRun) \<Rightarrow> string list \<Rightarrow> nat" where
  "claims_main mark compliance runs args =
     (case compliance of
        None \<Rightarrow> 1
      | Some markdown \<Rightarrow>
          let rows = parseComplianceTable markdown in
          if length rows = 0 then 1
          else if ''--coverage'' \<in> set args then runCoverageGate EVIDENCE rows
          else if ''--list'' \<in> set args then 0
          else runFull (SUITES mark) RUN_ORDER EVIDENCE runs rows)"

section \<open>Reading back what was written\<close>

text \<open>A document with a control table in it, as the repository writes it.\<close>

definition pad :: "string \<Rightarrow> string" where
  "pad s = CHR '' '' # s @ '' ''"

definition table_line :: "string list \<Rightarrow> string" where
  "table_line cells = join ''|'' ([[]] @ map pad cells @ [[]])"

definition render_row :: "Control \<Rightarrow> string" where
  "render_row c = table_line [co_capability c, ''**'' @ co_status c @ ''**'', co_hipaa c, co_pci c, co_soc2 c]"

definition compliance_document :: "string list \<Rightarrow> Control list \<Rightarrow> string list \<Rightarrow> string" where
  "compliance_document before rows after =
     join newline (before @ [''| Capability | Status | HIPAA (45 CFR) | PCI-DSS v4.0.1 | SOC 2 (TSC) |'',
       ''| --- | --- | --- | --- | --- |''] @ map render_row rows @ after)"

definition cell_ok :: "string \<Rightarrow> bool" where
  "cell_ok s \<longleftrightarrow> trim s = s \<and> CHR ''|'' \<notin> set s \<and> unit_char 10 \<notin> set s"

definition control_ok :: "Control \<Rightarrow> bool" where
  "control_ok c \<longleftrightarrow>
     list_all cell_ok [co_capability c, co_status c, co_hipaa c, co_pci c, co_soc2 c] \<and> CHR ''*'' \<notin> set (co_status c) \<and>
     \<not> startsWith (co_capability c) ''Capability'' \<and> \<not> startsWith (co_capability c) ''---''"

definition prose_ok :: "string list \<Rightarrow> string list \<Rightarrow> bool" where
  "prose_ok before after \<longleftrightarrow>
     list_all (\<lambda>l. unit_char 10 \<notin> set l \<and> \<not> startsWith l ''| Capability'') before \<and>
     list_all (\<lambda>l. unit_char 10 \<notin> set l) after \<and> (case after of [] \<Rightarrow> True | l # _ \<Rightarrow> \<not> startsWith l ''|'')"

lemma newline_char: "unit_char 10 = CHR 0x0A"
  by code_simp

lemma space_chars [simp]: "is_space (CHR '' '')" "\<not> is_space (CHR ''|'')" "\<not> is_space (CHR ''*'')" "\<not> is_space (CHR ''-'')"
  by code_simp+

lemma trim_pad [simp]: "trim (pad s) = trim s"
proof (cases "list_all is_space s")
  case True
  then have "dropWhile is_space s = []" "dropWhile is_space (pad s) = []"
    unfolding dropWhile_eq_Nil_conv by (auto simp: list_all_iff pad_def)
  then show ?thesis by (simp only: trim_def rev.simps dropWhile.simps)
next
  case False
  then have "dropWhile is_space (s @ '' '') = dropWhile is_space s @ '' ''"
    by (auto simp: list_all_iff dropWhile_append)
  then show ?thesis by (simp add: trim_def pad_def)
qed

lemma trim_stars: "CHR ''*'' \<notin> set s \<Longrightarrow> trim (''**'' @ s @ ''**'') = ''**'' @ s @ ''**''"
  by (simp add: trim_def)

lemma without_bold_stars:
  assumes "CHR ''*'' \<notin> set s"
  shows "without_bold (''**'' @ s @ ''**'') = s"
proof -
  have "without_bold (s @ ''**'') = s" using assms
  proof (induction s)
    case (Cons a s)
    then show ?case by (cases s) auto
  qed simp
  then show ?thesis by simp
qed

lemma trim_fixed_hd: "trim s = s \<Longrightarrow> s \<noteq> [] \<Longrightarrow> \<not> is_space (hd s)"
  by (metis dropWhile_eq_self_iff dropWhile_rev_idem trim_def)

lemma startsWith_before_space:
  "startsWith (s @ CHR '' '' # t) p \<Longrightarrow> CHR '' '' \<notin> set p \<Longrightarrow> startsWith s p"
proof (induction p arbitrary: s)
  case (Cons c p)
  then show ?case by (cases s) (auto simp: startsWith_def)
qed (simp add: startsWith_def)

lemma header_bar: "startsWith l ''| Capability'' \<Longrightarrow> startsWith l ''|''"
  by (cases l) (simp_all add: startsWith_def)

lemma table_cells_line:
  assumes "list_all (\<lambda>c. CHR ''|'' \<notin> set c) cells"
  shows "table_cells (table_line cells) = map trim cells"
proof -
  have "split_on (CHR ''|'') (table_line cells) = [[]] @ map pad cells @ [[]]"
    unfolding table_line_def using assms by (intro split_on_join) (auto simp: list_all_iff pad_def)
  then show ?thesis by (simp add: table_cells_def butlast_append)
qed

lemma render_row_start:
  "render_row c = CHR ''|'' # CHR '' '' # co_capability c @ CHR '' '' # tl (drop (Suc (Suc (length (co_capability c)))) (render_row c))"
  by (simp add: render_row_def table_line_def pad_def)

lemma render_row_parsed:
  assumes "control_ok c"
  shows "\<not> startsWith (render_row c) ''| Capability''" and "startsWith (render_row c) ''|''"
    and "\<not> is_separator (render_row c)" and "control_of (table_cells (render_row c)) = c"
    and "length (table_cells (render_row c)) = 5"
proof -
  obtain t where t: "render_row c = CHR ''|'' # CHR '' '' # co_capability c @ CHR '' '' # t"
    using render_row_start by blast
  have cap: "\<not> startsWith (co_capability c) ''Capability''" "\<not> startsWith (co_capability c) ''---''"
      "trim (co_capability c) = co_capability c"
    using assms by (simp_all add: control_ok_def cell_ok_def)
  show "startsWith (render_row c) ''|''" by (simp add: t startsWith_def)
  have "startsWith (co_capability c @ CHR '' '' # t) ''Capability''" if "startsWith (render_row c) ''| Capability''"
    using that by (simp add: t startsWith_def)
  with cap(1) startsWith_before_space show "\<not> startsWith (render_row c) ''| Capability''" by fastforce
  show "\<not> is_separator (render_row c)"
  proof (cases "co_capability c = []")
    case True
    then show ?thesis by (simp add: is_separator_def render_row_def table_line_def pad_def startsWith_def)
  next
    case False
    then have "dropWhile is_space (co_capability c @ CHR '' '' # t) = co_capability c @ CHR '' '' # t"
      using trim_fixed_hd [OF cap(3)] by (cases "co_capability c") auto
    with cap(2) startsWith_before_space [of "co_capability c" t "''---''"] show ?thesis
      by (auto simp: is_separator_def t)
  qed
  have cells: "table_cells (render_row c) = [co_capability c, ''**'' @ co_status c @ ''**'', co_hipaa c, co_pci c, co_soc2 c]"
    using assms trim_stars [of "co_status c"]
    by (simp add: render_row_def table_cells_line control_ok_def cell_ok_def)
  show "length (table_cells (render_row c)) = 5" by (simp add: cells)
  show "control_of (table_cells (render_row c)) = c"
    using assms without_bold_stars [of "co_status c"] by (simp add: cells control_of_def control_ok_def cell_ok_def)
qed

lemma parse_compliance_document:
  assumes "prose_ok before after" "list_all control_ok rows"
  shows "parseComplianceTable (compliance_document before rows after) = rows"
proof -
  have after: "table_rows True after = []"
    using assms(1) header_bar by (cases after) (auto simp: prose_ok_def)
  have body: "table_rows True (map render_row rows @ after) = rows"
    using assms(2) after by (induction rows) (simp_all add: render_row_parsed Let_def)
  have "table_rows False (before @ [''| Capability | Status | HIPAA (45 CFR) | PCI-DSS v4.0.1 | SOC 2 (TSC) |'',
       ''| --- | --- | --- | --- | --- |''] @ map render_row rows @ after) = rows"
    using assms(1) body by (induction before) (auto simp: prose_ok_def startsWith_def is_separator_def)
  moreover have "unit_char 10 \<notin> set (render_row c)" if "control_ok c" for c
    using that by (auto simp: render_row_def table_line_def pad_def control_ok_def cell_ok_def newline_char)
  ultimately show ?thesis
    unfolding parseComplianceTable_def compliance_document_def newline_def
    using assms by (subst split_on_join) (auto simp: prose_ok_def list_all_iff newline_char)
qed

section \<open>What the gate enforces\<close>

lemma coverage_gate_iff:
  "runCoverageGate evidence rows = 0 \<longleftrightarrow>
     (\<forall>row\<in>set rows. co_status row = ''Implemented'' \<longrightarrow> evidence_for evidence (co_capability row) \<noteq> []) \<and>
     fst ` set evidence \<subseteq> co_capability ` set rows"
  by (auto simp: runCoverageGate_def coverage_problems_def)

text \<open>No control is claimed without evidence. For any document with a well-formed control table in it, whatever
  prose surrounds the table, the coverage gate exits 0 exactly if the table is not empty, every row marked
  Implemented, in bold or not, has registered evidence, and every control the registry names is a
  row of the table.\<close>

theorem coverage_gate_exact:
  assumes "prose_ok before after" and "list_all control_ok rows" and "''--coverage'' \<in> set args"
  shows "claims_main mark (Some (compliance_document before rows after)) runs args = 0 \<longleftrightarrow>
    rows \<noteq> [] \<and>
    (\<forall>row\<in>set rows. co_status row = ''Implemented'' \<longrightarrow> evidence_for EVIDENCE (co_capability row) \<noteq> []) \<and>
    fst ` set EVIDENCE \<subseteq> co_capability ` set rows"
  using assms by (simp add: claims_main_def parse_compliance_document coverage_gate_iff)

lemma registry_valid: "validateRegistry (SUITES mark) RUN_ORDER (needed_suites EVIDENCE)"
  by code_simp

text \<open>An item is reproduced: its suite passed, or printed a passing line with its text.\<close>

definition reproduced :: "(string \<times> Suite) list \<Rightarrow> (string \<Rightarrow> SuiteRun) \<Rightarrow> evidence \<Rightarrow> bool" where
  "reproduced suites runs item \<longleftrightarrow>
     (let suite = the (map_of suites (fst item)); run = runs (fst item) in
      if su_exitCodeOnly suite then sr_ok run
      else list_ex (\<lambda>l. includesSub l (su_passMarker suite) \<and>
                        includesSub l (case snd item of None \<Rightarrow> ''undefined'' | Some m \<Rightarrow> m)) (run_lines run))"

lemma judge_pass: "judge (the (map_of suites (fst item))) item (runs (fst item)) = v_pass \<longleftrightarrow> reproduced suites runs item"
  by (simp add: judge_def reproduced_def Let_def)

text \<open>A clean run means every registered claim was reproduced. Without flags the command exits 0 exactly if the table
  is not empty and, for every row with registered evidence, every item was reproduced: the suite exited 0
  where that is the criterion, and otherwise printed a line that carries both its passing mark
  and the item's text. A failed item and one whose text is nowhere in the output both fail the run.\<close>

theorem full_run_exact:
  assumes "prose_ok before after" and "list_all control_ok rows" and "''--coverage'' \<notin> set args" and "''--list'' \<notin> set args"
  shows "claims_main mark (Some (compliance_document before rows after)) runs args = 0 \<longleftrightarrow>
    rows \<noteq> [] \<and> (\<forall>row\<in>set rows. \<forall>item\<in>set (evidence_for EVIDENCE (co_capability row)). reproduced (SUITES mark) runs item)"
proof -
  have "(v_fail \<notin> set (verdicts (SUITES mark) EVIDENCE runs rows) \<and> v_missing \<notin> set (verdicts (SUITES mark) EVIDENCE runs rows)) \<longleftrightarrow>
      (\<forall>v\<in>set (verdicts (SUITES mark) EVIDENCE runs rows). v = v_pass)"
    by (metis verdict.exhaust verdict.distinct(1,3))
  then show ?thesis
    using assms
    by (auto simp: claims_main_def parse_compliance_document runFull_def registry_valid Let_def verdicts_def judge_pass)
qed

section \<open>The repository's own table\<close>

text \<open>The control table of \<open>COMPLIANCE.md\<close>.\<close>

definition control_table :: "string list" where
  "control_table =
     [''| Capability | Status | HIPAA (45 CFR) | PCI-DSS v4.0.1 | SOC 2 (TSC) |'',
      ''| --- | --- | --- | --- | --- |'',
      ''| Multi-tenant isolation (database-per-tenant) | **Implemented** | 164.312(a)(1) | Req 7 | CC6.1 |'',
      ''| RBAC / access control | **Implemented** | 164.312(a)(1); 164.312(a)(2)(i); 164.308(a)(4) | Req 7 | CC6.3 |'',
      ''| Password storage (Argon2id KDF) | **Implemented** | 164.308(a)(5)(ii)(D); 164.312(d) | Req 8 (8.3.2) | CC6.1 |'',
      ''| Access-token confidentiality (nested JWT: signed, then encrypted) | **Implemented** | 164.308(a)(1)(ii)(B) | Req 6 (6.2.4); Req 12 (12.3.3) | CC6.1 |'',
      ''| Input validation | **Implemented** | 164.312(c)(1) | Req 6 (6.2.4) | CC8.1 |'',
      ''| Vulnerability / dependency management | Partial | 164.308(a)(8); 164.308(a)(5)(ii)(B) | Req 6 (6.3.1-6.3.3); Req 11 (11.3) | CC7.1 |'',
      ''| Structured logging + monitoring (OpenTelemetry) | Partial | 164.312(b); 164.308(a)(1)(ii)(D) | Req 10 | CC7.2 |'',
      ''| Append-only audit logging (hash-chained) | **Implemented** | 164.312(b); 164.308(a)(1)(ii)(D) | Req 10 (10.2, 10.3.2) | CC7.2 |'',
      ''| Authentication (MFA / passkeys / WebAuthn) | **Not implemented** | 164.312(d) | Req 8 (8.4, 8.5) | CC6.1 |'',
      ''| Key management (envelope encryption, rotation, JWKS) | Partial | 164.312(a)(2)(iv) | Req 3 (3.6, 3.7, unverified) | CC6.1 |'',
      ''| Encryption at rest | **Not implemented** | 164.312(a)(2)(iv) | Req 3 (3.5, 3.5.1) | CC6.1 |'',
      ''| Encryption in transit (TLS) | **Not implemented here** | 164.312(e)(1); 164.312(e)(2)(ii) | Req 4 (4.2.1) | CC6.7 |'',
      ''| Rate limiting and login throttling (application layer) | **Implemented** | 164.308(a)(5)(ii)(C) (login throttling; see notes) | Req 8 (8.3.4, unverified) | CC6.6 |'',
      ''| DoS / DDoS protection (network layer) | **Not implemented here** | (none, see notes) | Req 6 (6.4.2, unverified) | CC6.6 |'',
      ''| Request-level DoS limits (timeouts, body size) | **Implemented** | (none, see notes) | (none, see notes) | CC6.6 |'',
      ''| Control-plane authorization (tenant provisioning) | **Implemented** | 164.312(a)(1); 164.308(a)(4) | Req 7 | CC6.3 |'']"

definition status_count :: "string \<Rightarrow> Control list \<Rightarrow> nat" where
  "status_count st rows = length (filter (\<lambda>r. co_status r = st) rows)"

lemma control_table_parsed:
  "let rows = table_rows False control_table in
     length rows = 16 \<and> status_count ''Implemented'' rows = 9 \<and> status_count ''Partial'' rows = 3 \<and>
     status_count ''Not implemented'' rows = 2 \<and> status_count ''Not implemented here'' rows = 2 \<and>
     runCoverageGate EVIDENCE rows = 0"
  by code_simp

lemma control_table_ok: "list_all control_ok (table_rows False control_table)"
  by code_simp

theorem coverage_gate_exact_witness:
  "claims_main [] (Some (compliance_document [''# Compliance''] (table_rows False control_table) [[]]))
     (\<lambda>_. \<lparr>sr_ok = False, sr_output = []\<rparr>) [''--coverage''] = 0"
proof -
  have "prose_ok [''# Compliance''] [[]]" by (simp add: prose_ok_def startsWith_def newline_char)
  from coverage_gate_exact [OF this control_table_ok, of "[''--coverage'']"] control_table_parsed coverage_gate_iff
  show ?thesis by (auto simp: Let_def)
qed

theorem full_run_exact_witness:
  "claims_main [] (Some (compliance_document []
       [\<lparr>co_capability = ''Vulnerability / dependency management'', co_status = ''Partial'', co_hipaa = ''a'', co_pci = ''b'', co_soc2 = ''c''\<rparr>] []))
     (\<lambda>_. \<lparr>sr_ok = True, sr_output = []\<rparr>) [] = 0"
proof -
  let ?row = "\<lparr>co_capability = ''Vulnerability / dependency management'', co_status = ''Partial'', co_hipaa = ''a'', co_pci = ''b'', co_soc2 = ''c''\<rparr>"
  let ?runs = "\<lambda>_. \<lparr>sr_ok = True, sr_output = []\<rparr>"
  have ok: "prose_ok [] []" "list_all control_ok [?row]" by code_simp+
  have items: "evidence_for EVIDENCE (co_capability ?row) = [(''audit'', None)]" by code_simp
  have "reproduced (SUITES []) ?runs (''audit'', None)" by (simp add: reproduced_def SUITES_def)
  with full_run_exact [OF ok, of "[]" "[]" ?runs] items show ?thesis by simp
qed

end
