(* ===== verification/Cli_Dotenv.thy ===== *)
theory Cli_Dotenv
  imports Kit_Config
begin

text \<open>
  The dotenv loader of the operator commands, \<open>packages/db/src/cli/load-dotenv.ts\<close>: a loop of its own, which its
  comment calls the same algorithm as the loader of the configuration package.
\<close>

section \<open>The loop\<close>

text \<open>\<open>level\<close> counts up to 5; the file is read where it is found.\<close>

function cli_dotenv_loop ::
    "(string list \<Rightarrow> bool) \<Rightarrow> (string list \<Rightarrow> env) \<Rightarrow> string list \<Rightarrow> nat \<Rightarrow> env \<Rightarrow> env" where
  "cli_dotenv_loop existsSync readDotenv dir level env =
     (if 5 \<le> level then env
      else
        let candidate = ''.env'' # dir in
        if existsSync candidate then readDotenv candidate ++ env
        else
          let parent = tl dir in
          if parent = dir then env else cli_dotenv_loop existsSync readDotenv parent (level + 1) env)"
  by pat_completeness auto
termination by (relation "measure (\<lambda>(_, _, _, level, _). 5 - level)") auto

declare cli_dotenv_loop.simps [simp del]

definition cli_loadLocalDotenv ::
    "(string list \<Rightarrow> bool) \<Rightarrow> (string list \<Rightarrow> env) \<Rightarrow> string list \<Rightarrow> env \<Rightarrow> env" where
  "cli_loadLocalDotenv existsSync readDotenv cwd env =
     (if env ''NODE_ENV'' = Some ''production'' then env else cli_dotenv_loop existsSync readDotenv cwd 0 env)"

lemma cli_dotenv_loop_finds:
  "level + levels = 5 \<Longrightarrow>
     cli_dotenv_loop ex rd dir level env =
       (case findDotenvFile_from ex dir levels of None \<Rightarrow> env | Some file \<Rightarrow> rd file ++ env)"
proof (induction levels arbitrary: dir level)
  case 0
  then show ?case by (subst cli_dotenv_loop.simps) simp
next
  case (Suc levels)
  then have "\<not> 5 \<le> level" "level + 1 + levels = 5" by simp_all
  with Suc.IH [of "level + 1" "tl dir"] show ?case by (subst cli_dotenv_loop.simps) (simp add: Let_def)
qed

text \<open>The operator commands and the service read the same environment: from every working directory, on every
  file system and environment, the two dotenv loaders leave the same variables set.\<close>

theorem cli_dotenv_same: "cli_loadLocalDotenv ex rd cwd env = loadLocalDotenv ex rd cwd env"
  by (simp add: cli_loadLocalDotenv_def loadLocalDotenv_def findDotenvFile_def cli_dotenv_loop_finds [of 0 5])

end
