(* ===== verification/Api_Document.thy ===== *)
theory Api_Document
  imports Histories
begin

text \<open>
  The published description of the API: the schema classes of \<open>services/auth/src/docs/schemas.ts\<close>, the decorators of
  \<open>docs/api-envelope.decorator.ts\<close> as the controllers apply them, and the document of \<open>docs/openapi.ts\<close>. The classes
  restate the wire contract of \<open>packages/common\<close> by hand; here they are compared with what the routes send. A
  reference to a class is that class with its name; types are the declared ones, and formats and examples are annotations.
\<close>

section \<open>Schemas\<close>

datatype schema =
    AnyValue
  | StringValue "string list option"
  | NumberValue
  | BooleanValue
  | Nullable schema
  | ArrayOf schema
  | ObjectOf "(string \<times> schema) list" "string list"
  | AllOf "schema list"
  | Ref string schema

text \<open>Whether a value meets a schema. Members that are not listed are allowed.\<close>

primrec conforms :: "schema \<Rightarrow> json \<Rightarrow> bool"
  and conforms_members :: "(string \<times> schema) list \<Rightarrow> (string \<times> json) list \<Rightarrow> bool"
  and conforms_member :: "string \<times> schema \<Rightarrow> (string \<times> json) list \<Rightarrow> bool"
  and conforms_all :: "schema list \<Rightarrow> json \<Rightarrow> bool" where
  "conforms AnyValue v = True"
| "conforms (StringValue values) v =
     (case v of JStr s \<Rightarrow> (case values of None \<Rightarrow> True | Some vs \<Rightarrow> s \<in> set vs) | _ \<Rightarrow> False)"
| "conforms NumberValue v = (case v of JNum _ \<Rightarrow> True | _ \<Rightarrow> False)"
| "conforms BooleanValue v = (case v of JBool _ \<Rightarrow> True | _ \<Rightarrow> False)"
| "conforms (Nullable s) v = (v = JNull \<or> conforms s v)"
| "conforms (ArrayOf s) v = (case v of JArr vs \<Rightarrow> list_all (conforms s) vs | _ \<Rightarrow> False)"
| "conforms (ObjectOf members required) v =
     (case v of
        JObj obj \<Rightarrow> list_all (\<lambda>k. jget obj k \<noteq> None) required \<and> conforms_members members obj
      | _ \<Rightarrow> False)"
| "conforms (AllOf ss) v = conforms_all ss v"
| "conforms (Ref name s) v = conforms s v"
| "conforms_members [] obj = True"
| "conforms_members (m # ms) obj = (conforms_member m obj \<and> conforms_members ms obj)"
| "conforms_member (Pair k s) obj = (case jget obj k of None \<Rightarrow> True | Some v \<Rightarrow> conforms s v)"
| "conforms_all [] v = True"
| "conforms_all (s # ss) v = (conforms s v \<and> conforms_all ss v)"

text \<open>The classes a schema refers to, its own parts included.\<close>

primrec schema_refs :: "schema \<Rightarrow> string list"
  and members_refs :: "(string \<times> schema) list \<Rightarrow> string list"
  and member_refs :: "string \<times> schema \<Rightarrow> string list"
  and all_refs :: "schema list \<Rightarrow> string list" where
  "schema_refs AnyValue = []"
| "schema_refs (StringValue values) = []"
| "schema_refs NumberValue = []"
| "schema_refs BooleanValue = []"
| "schema_refs (Nullable s) = schema_refs s"
| "schema_refs (ArrayOf s) = schema_refs s"
| "schema_refs (ObjectOf members required) = members_refs members"
| "schema_refs (AllOf ss) = all_refs ss"
| "schema_refs (Ref name s) = name # schema_refs s"
| "members_refs [] = []"
| "members_refs (m # ms) = member_refs m @ members_refs ms"
| "member_refs (Pair k s) = schema_refs s"
| "all_refs [] = []"
| "all_refs (s # ss) = schema_refs s @ all_refs ss"

section \<open>The schema classes\<close>

text \<open>\<open>ApiProperty\<close> makes a member required, \<open>ApiPropertyOptional\<close> does not.\<close>

definition ResponseMetaSchema :: schema where
  "ResponseMetaSchema = Ref ''ResponseMetaSchema''
     (ObjectOf [(''message'', StringValue None), (''totalCount'', NumberValue), (''nextItem'', Nullable (StringValue None)),
        (''prevItem'', Nullable (StringValue None))] [])"

definition SuccessEnvelopeSchema :: schema where
  "SuccessEnvelopeSchema = Ref ''SuccessEnvelopeSchema''
     (ObjectOf [(''success'', BooleanValue), (''data'', AnyValue), (''meta'', ResponseMetaSchema)] [''success'', ''data'', ''meta''])"

definition FieldProblemSchema :: schema where
  "FieldProblemSchema = Ref ''FieldProblemSchema''
     (ObjectOf [(''message'', StringValue None), (''pointer'', StringValue None)] [''message'', ''pointer''])"

definition ProblemDetailsSchema :: schema where
  "ProblemDetailsSchema = Ref ''ProblemDetailsSchema''
     (ObjectOf [(''success'', BooleanValue), (''type'', StringValue None), (''title'', StringValue None), (''status'', NumberValue),
        (''detail'', StringValue None), (''instance'', StringValue None), (''code'', StringValue None), (''traceId'', StringValue None),
        (''errors'', ArrayOf FieldProblemSchema)]
       [''success'', ''type'', ''title'', ''status'', ''detail'', ''instance'', ''code'', ''traceId''])"

definition TenantSchema :: schema where
  "TenantSchema = Ref ''TenantSchema''
     (ObjectOf [(''id'', StringValue None), (''slug'', StringValue None), (''databaseName'', StringValue None),
        (''status'', StringValue (Some [''provisioning'', ''active'', ''suspended'']))] [''id'', ''slug'', ''databaseName'', ''status''])"

definition AccessTokenSchema :: schema where
  "AccessTokenSchema = Ref ''AccessTokenSchema'' (ObjectOf [(''accessToken'', StringValue None)] [''accessToken''])"

definition RegisteredUserSchema :: schema where
  "RegisteredUserSchema = Ref ''RegisteredUserSchema''
     (ObjectOf [(''id'', StringValue None), (''email'', StringValue None)] [''id'', ''email''])"

definition UserSchema :: schema where
  "UserSchema = Ref ''UserSchema''
     (ObjectOf [(''id'', StringValue None), (''email'', StringValue None), (''status'', StringValue (Some [''active'', ''disabled''])),
        (''createdAt'', StringValue None)] [''id'', ''email'', ''status'', ''createdAt''])"

section \<open>The decorators\<close>

record ApiResponse =
  rp_status :: nat
  rp_media :: string
  rp_schema :: schema
  rp_code :: "string option"

definition ApiEnvelope :: "schema \<Rightarrow> nat \<Rightarrow> bool \<Rightarrow> ApiResponse" where
  "ApiEnvelope model status isArray =
     (let dataSchema = (if isArray then ArrayOf model else model) in
      \<lparr>rp_status = status, rp_media = ''application/json'',
       rp_schema = AllOf [SuccessEnvelopeSchema, ObjectOf [(''data'', dataSchema)] [''data'']], rp_code = None\<rparr>)"

definition ApiProblem :: "nat \<Rightarrow> string option \<Rightarrow> ApiResponse" where
  "ApiProblem status code =
     \<lparr>rp_status = status, rp_media = ''application/problem+json'', rp_schema = ProblemDetailsSchema, rp_code = code\<rparr>"

definition ApiCommonErrors :: "ApiResponse list" where
  "ApiCommonErrors =
     [ApiProblem 422 (Some ''VALIDATION_FAILED''), ApiProblem 429 (Some ''TOO_MANY_REQUESTS''), ApiProblem 500 (Some ''INTERNAL_ERROR'')]"

section \<open>The operations\<close>

text \<open>\<open>setGlobalPrefix\<close> of the bootstrap: every path is below \<open>/api\<close> but the excluded one.\<close>

definition excluded_paths :: "string list" where
  "excluded_paths = [''.well-known/jwks.json'']"

definition served_path :: "string list \<Rightarrow> string" where
  "served_path segments =
     (let path = join ''/'' segments in if path \<in> set excluded_paths then ''/'' @ path else ''/api/'' @ path)"

record Operation =
  op_method :: string
  op_path :: string
  op_tag :: string
  op_security :: "string option"
  op_responses :: "ApiResponse list"

definition users_operation :: Operation where
  "users_operation =
     \<lparr>op_method = ''GET'', op_path = served_path [''users''], op_tag = ''users'', op_security = Some ''accessToken'',
      op_responses = [ApiEnvelope UserSchema 200 True, ApiProblem 401 (Some ''INVALID_ACCESS_TOKEN''),
        ApiProblem 403 (Some ''FORBIDDEN'')] @ ApiCommonErrors\<rparr>"

definition register_operation :: Operation where
  "register_operation =
     \<lparr>op_method = ''POST'', op_path = served_path [''auth'', ''register''], op_tag = ''auth'', op_security = None,
      op_responses = [ApiEnvelope RegisteredUserSchema 201 False, ApiProblem 409 (Some ''EMAIL_ALREADY_REGISTERED''),
        ApiProblem 404 (Some ''TENANT_NOT_FOUND'')] @ ApiCommonErrors\<rparr>"

definition login_operation :: Operation where
  "login_operation =
     \<lparr>op_method = ''POST'', op_path = served_path [''auth'', ''login''], op_tag = ''auth'', op_security = None,
      op_responses = [ApiEnvelope AccessTokenSchema 201 False, ApiProblem 401 (Some ''INVALID_CREDENTIALS''),
        ApiProblem 404 (Some ''TENANT_NOT_FOUND'')] @ ApiCommonErrors\<rparr>"

definition tenants_operation :: Operation where
  "tenants_operation =
     \<lparr>op_method = ''POST'', op_path = served_path [''tenants''], op_tag = ''tenants'', op_security = Some ''controlPlane'',
      op_responses = [ApiEnvelope TenantSchema 201 False, ApiProblem 401 (Some ''CONTROL_PLANE_UNAUTHORIZED''),
        ApiProblem 409 None] @ ApiCommonErrors\<rparr>"

definition jwk_schema :: schema where
  "jwk_schema = ObjectOf (map (\<lambda>k. (k, StringValue None)) [''kty'', ''crv'', ''x'', ''y'', ''kid'', ''alg'', ''use'']) []"

definition jwks_operation :: Operation where
  "jwks_operation =
     \<lparr>op_method = ''GET'', op_path = served_path [''.well-known/jwks.json''], op_tag = ''keys'', op_security = None,
      op_responses = [\<lparr>rp_status = 200, rp_media = ''application/jwk-set+json'',
        rp_schema = ObjectOf [(''keys'', ArrayOf jwk_schema)] [''keys''], rp_code = None\<rparr>]\<rparr>"

text \<open>No response decorator: nothing is said about its body.\<close>

definition health_operation :: Operation where
  "health_operation =
     \<lparr>op_method = ''GET'', op_path = served_path [''health''], op_tag = ''health'', op_security = None, op_responses = []\<rparr>"

section \<open>The document\<close>

definition TENANT_HEADER :: string where
  "TENANT_HEADER = ''x-tenant-id''"

record OpenApiDocument =
  oa_title :: string
  oa_version :: string
  oa_securitySchemes :: "string list"
  oa_globalHeader :: string
  oa_tags :: "string list"
  oa_operations :: "Operation list"
  oa_extraModels :: "schema list"

datatype docs_line = DocsDisabled | DocsInProduction | DocsPublished

definition createDocument :: "string \<Rightarrow> OpenApiDocument" where
  "createDocument version =
     \<lparr>oa_title = ''compliance-ready-backend-kit'', oa_version = version,
      oa_securitySchemes = [''accessToken'', ''controlPlane''], oa_globalHeader = TENANT_HEADER,
      oa_tags = [''auth'', ''users'', ''tenants'', ''health'', ''keys''],
      oa_operations = [register_operation, login_operation, users_operation, tenants_operation, health_operation, jwks_operation],
      oa_extraModels = [SuccessEnvelopeSchema, ResponseMetaSchema, ProblemDetailsSchema, FieldProblemSchema, TenantSchema,
        AccessTokenSchema, RegisteredUserSchema, UserSchema]\<rparr>"

definition setupOpenApi :: "AppConfig \<Rightarrow> string \<Rightarrow> OpenApiDocument option \<times> docs_line list" where
  "setupOpenApi config version =
     (if \<not> cf_apiDocsEnabled config then (None, [DocsDisabled])
      else
        (Some (createDocument version),
         (if cf_nodeEnv config = env_production then [DocsInProduction] else []) @ [DocsPublished]))"

section \<open>What goes over the wire\<close>

definition field_json :: "FieldProblem \<Rightarrow> json" where
  "field_json p = JObj [(''detail'', JStr (fp_detail p)), (''pointer'', JStr (fp_pointer p))]"

definition problem_json :: "ProblemDetails \<Rightarrow> json" where
  "problem_json p =
     JObj ([(''success'', JBool (pd_success p)), (''type'', JStr (pd_type p)), (''title'', JStr (pd_title p)),
            (''status'', JNum (int (pd_status p))), (''detail'', JStr (pd_detail p)), (''instance'', JStr (pd_instance p)),
            (''code'', JStr (pd_code p)), (''traceId'', JStr (pd_traceId p))] @
           (case pd_errors p of None \<Rightarrow> [] | Some errors \<Rightarrow> [(''errors'', JArr (map field_json errors))]))"

fun body_json :: "body \<Rightarrow> json option" where
  "body_json (Problem p) = Some (problem_json p)"
| "body_json (Envelope e) =
     Some (JObj [(''success'', JBool (en_success e)), (''data'', en_data e), (''meta'', JObj (en_meta e))])"
| "body_json (RawBody v) = v"

text \<open>A response is described by an entry for its status whose schema its body meets. Where the service sets the
  content type (problems and the key set; an envelope's comes from the framework), it is that of the entry.\<close>

definition describes :: "ApiResponse \<Rightarrow> Response \<Rightarrow> bool" where
  "describes a r \<longleftrightarrow>
     rp_status a = hr_status r \<and>
     (case body_json (hr_body r) of None \<Rightarrow> False | Some v \<Rightarrow> conforms (rp_schema a) v) \<and>
     (case hr_body r of
        Envelope _ \<Rightarrow> True
      | _ \<Rightarrow> hr_headers r ''content-type'' = Some (rp_media a @ ''; charset=utf-8''))"

definition documented :: "Operation \<Rightarrow> Response \<Rightarrow> bool" where
  "documented op r \<longleftrightarrow> list_ex (\<lambda>a. describes a r) (op_responses op)"

fun operation_of :: "call \<Rightarrow> Operation" where
  "operation_of GetUsers = users_operation"
| "operation_of GetJwks = jwks_operation"
| "operation_of (GetHealth _) = health_operation"
| "operation_of (PostLogin _ _ _ _ _ _) = login_operation"
| "operation_of (PostRegister _ _ _ _ _ _) = register_operation"
| "operation_of (PostTenants _ _ _ _ _ _) = tenants_operation"

section \<open>The statuses of errors\<close>

fun error_status :: "app_error \<Rightarrow> nat" where
  "error_status (Domain e) = domain_status e"
| "error_status (HttpException n _) = n"
| "error_status (OtherError _) = 500"

lemma toProblem_status [simp]: "pd_status (toProblem config e traceId path) = error_status e"
  by (cases e) (simp_all add: toProblem_def Let_def)

lemma resolveTenant_Inl: "resolveTenant rows x = Inl e \<Longrightarrow> domain_status e = 404"
  by (auto simp: resolveTenant_def domain_status_cases split: option.splits if_splits)

lemma tenantGuard_status: "tenantGuard req w = (Inl e, w') \<Longrightarrow> error_status e \<in> {404, 500}"
  by (auto simp: tenantGuard_def database_error_def domain_status_cases split: option.splits if_splits sum.splits prod.splits
      dest: resolveTenant_Inl)

lemma tenantGuard_context: "tenantGuard req w = (Inr req', w') \<Longrightarrow> rq_tenant req' \<noteq> None \<and> rq_tenantDb req' \<noteq> None"
  by (auto simp: tenantGuard_def split: option.splits if_splits sum.splits prod.splits)

lemma verify_token_Inl:
  "verify_token gcm kj provider jose config now1 now2 rows token keys = (Inl e, keys') \<Longrightarrow> e = InvalidAccessTokenError"
  by (auto simp: verify_token_def Let_def split: sum.splits option.splits)

lemma accessTokenGuard_status:
  "rq_tenant req \<noteq> None \<Longrightarrow> accessTokenGuard sv m req w = (Inl e, w') \<Longrightarrow> error_status e = 401"
  by (auto simp: accessTokenGuard_def domain_status_cases split: option.splits sum.splits prod.splits if_splits dest: verify_token_Inl)

lemma accessTokenGuard_context:
  "accessTokenGuard sv m req w = (Inr req', w') \<Longrightarrow> rq_tenantDb req' = rq_tenantDb req"
  by (auto simp: accessTokenGuard_def split: option.splits sum.splits prod.splits if_splits)

lemma permissionsGuard_status: "permissionsGuard sv m ps req w = (Inl e, w') \<Longrightarrow> error_status e = 403"
  by (auto simp: permissionsGuard_def ForbiddenException_def Let_def split: if_splits option.splits)

lemma permissionsGuard_context: "permissionsGuard sv m ps req w = (Inr req', w') \<Longrightarrow> req' = req"
  by (auto simp: permissionsGuard_def Let_def split: if_splits option.splits)

lemma TenantAuthenticated_status:
  "TenantAuthenticated sv m ps req w = (Inl e, w') \<Longrightarrow> error_status e \<in> {401, 403, 404, 500}"
  by (auto simp: TenantAuthenticated_def split: prod.splits sum.splits
      dest: tenantGuard_status accessTokenGuard_status [OF tenantGuard_context [THEN conjunct1]] permissionsGuard_status)

lemma TenantAuthenticated_context:
  "TenantAuthenticated sv m ps req w = (Inr req', w') \<Longrightarrow> rq_tenantDb req' \<noteq> None"
  by (auto simp: TenantAuthenticated_def split: prod.splits sum.splits
      dest!: tenantGuard_context accessTokenGuard_context permissionsGuard_context)

lemma users_list_status: "rq_tenantDb req \<noteq> None \<Longrightarrow> users_list req w = Inl e \<Longrightarrow> error_status e = 500"
  by (auto simp: users_list_def context_db_def database_error_def split: option.splits if_splits)

section \<open>Routes and their description\<close>

text \<open>What the work of a route promises to the document: the statuses of its errors and the shape of its data.\<close>

locale described_work =
  fixes work :: "Request \<Rightarrow> ('priv, 'pub) System \<Rightarrow> (app_error + payload) \<times> ('priv, 'pub) System"
    and statuses :: "nat set" and data_schema :: schema
  assumes work_statuses: "work req s = (Inl e, s') \<Longrightarrow> error_status e \<in> statuses"
    and work_data: "work req s = (Inr p, s') \<Longrightarrow> \<exists>v. p = Bare (Some v) \<and> conforms data_schema v"

definition is_problem :: "Response \<Rightarrow> bool" where
  "is_problem r \<longleftrightarrow>
     (\<exists>p. hr_body r = Problem p \<and> pd_status p = hr_status r) \<and>
     hr_headers r ''content-type'' = Some ''application/problem+json; charset=utf-8''"

lemma respond_problem: "respond config traceId ctx status raw h (Inl e) = (r, log) \<Longrightarrow> is_problem r \<and> hr_status r = error_status e"
  by (auto simp: respond_def catch_exception_def Let_def is_problem_def registerDefaultResponseHeaders_def default_header_def
      problem_headers_def)

lemma rateLimitGuard_Inl: "rateLimitGuard config ctx st h = (Inl e, st', h') \<Longrightarrow> domain_status e = 429"
  using guard_outcome [of config ctx st h] by (auto simp: domain_status_cases split: option.splits)

lemma route_cases:
  assumes "route sv traceId limit exempt status raw work req s = (r, s', log)"
  obtains (limited) "is_problem r" "hr_status r = 429" "\<not> exempt"
  | (failed) ctx s1 e where "work (req\<lparr>rq_context := ctx\<rparr>) s1 = (Inl e, s')" "is_problem r" "hr_status r = error_status e"
  | (answered) ctx s1 p where "work (req\<lparr>rq_context := ctx\<rparr>) s1 = (Inr p, s')" "hr_status r = status" "hr_body r = intercept raw p"
      "sy_access s1 = sy_access s"
proof -
  let ?ctx = "(rq_context req)\<lparr>rc_isHttp := True, rc_noRateLimit := exempt, rc_rateLimit := limit\<rparr>"
  obtain g st h where g: "rateLimitGuard (sv_config sv) ?ctx (sy_store s) (\<lambda>_. None) = (g, st, h)"
    by (metis surj_pair)
  show ?thesis
  proof (cases g)
    case (Inl e)
    then have "\<not> exempt" using g by (auto simp: rateLimitGuard_def)
    moreover have "is_problem r \<and> hr_status r = 429"
      using assms g Inl rateLimitGuard_Inl [of "sv_config sv" ?ctx "sy_store s" "\<lambda>_. None" e st h]
      by (auto simp: route_def Let_def split: prod.splits dest: respond_problem)
    ultimately show ?thesis using limited by blast
  next
    case (Inr u)
    obtain result s2 where work: "work (req\<lparr>rq_context := ?ctx\<rparr>) (s\<lparr>sy_store := st\<rparr>) = (result, s2)" by (metis surj_pair)
    with assms g Inr have resp: "respond (sv_config sv) traceId ?ctx status raw h result = (r, log)" "s' = s2"
      by (auto simp: route_def Let_def split: prod.splits)
    show ?thesis
    proof (cases result)
      case (Inl e)
      with failed [OF work [unfolded Inl, folded resp(2)]] respond_problem resp(1) show ?thesis by blast
    next
      case (Inr p)
      with answered [OF work [unfolded Inr, folded resp(2)]] resp(1) show ?thesis by (auto simp: respond_def)
    qed
  qed
qed

lemma defaultMeta_conforms: "conforms ResponseMetaSchema (JObj (defaultMeta v))"
  by (auto simp: ResponseMetaSchema_def defaultMeta_def jget_def split: option.split json.split)

context described_work
begin

text \<open>Every response is a problem with one of the statuses, or the envelope with conforming data.\<close>

lemma route_response:
  assumes "route sv traceId limit exempt status False work req s = (r, s', log)"
  shows "is_problem r \<and> hr_status r \<in> insert 429 statuses \<or>
    hr_status r = status \<and> (\<exists>v m. hr_body r = Envelope \<lparr>en_success = True, en_data = v, en_meta = m\<rparr> \<and>
      conforms data_schema v \<and> conforms ResponseMetaSchema (JObj m))"
  using assms
proof (cases rule: route_cases)
  case (answered req1 s1 p)
  with work_data [OF answered(1)] show ?thesis by (auto simp: intercept_def defaultMeta_conforms)
qed (use work_statuses in auto)

end

interpretation users_described: described_work "users_work sv m" "{401, 403, 404, 500}" "ArrayOf UserSchema" for sv m
proof
  fix req s e s'
  assume "users_work sv m req s = (Inl e, s')"
  then show "error_status e \<in> {401, 403, 404, 500}"
    by (auto simp: users_work_def split: prod.splits sum.splits
        dest: TenantAuthenticated_status users_list_status [OF TenantAuthenticated_context])
next
  fix req s p s'
  assume "users_work sv m req s = (Inr p, s')"
  then obtain us where p: "p = Bare (Some (JArr (map user_json us)))"
    by (auto simp: users_work_def users_list_def split: prod.splits sum.splits option.splits if_splits)
  have "conforms UserSchema (user_json u)" for u
    by (cases "ur_status u") (simp_all add: UserSchema_def user_json_def jget_def)
  then show "\<exists>v. p = Bare (Some v) \<and> conforms (ArrayOf UserSchema) v" by (simp add: p list_all_iff)
qed

lemma validation_status [simp]: "domain_status (validationExceptionFactory errors) = 422"
  by (simp add: validationExceptionFactory_def domain_status_cases)

lemma assertWithinLimits_status: "assertWithinLimits sha config t email ip r = (Some e, r') \<Longrightarrow> domain_status e = 429"
  by (auto simp: assertWithinLimits_def domain_status_cases split: prod.splits if_splits)

lemma login_status:
  assumes "login sha config argon salt (issue_with sv m keys) now ctx email password ip w = (Inl e, w')" "ctx \<noteq> None"
  shows "error_status e \<in> {401, 429, 500}"
  using assms
  by (auto simp: login_def login_proven_def issue_with_def database_error_def domain_status_cases Let_def
      split: prod.splits option.splits if_splits sum.splits dest: assertWithinLimits_status)

interpretation login_described: described_work "login_work sv m argon salt errors email password ip" "{401, 404, 422, 429, 500}"
  AccessTokenSchema for sv m argon salt errors email password ip
proof
  fix req s e s'
  assume "login_work sv m argon salt errors email password ip req s = (Inl e, s')"
  then show "error_status e \<in> {401, 404, 422, 429, 500}"
    by (auto simp: login_work_def Let_def split: prod.splits sum.splits if_splits
        dest: tenantGuard_status login_status [OF _ tenantGuard_context [THEN conjunct1]])
next
  fix req s p s'
  assume "login_work sv m argon salt errors email password ip req s = (Inr p, s')"
  then show "\<exists>v. p = Bare (Some v) \<and> conforms AccessTokenSchema v"
    by (auto simp: login_work_def Let_def AccessTokenSchema_def jget_def split: prod.splits sum.splits if_splits)
qed

lemma register_status:
  "register sha argon salt newId now ctx email password w = (Inl e, w') \<Longrightarrow> ctx \<noteq> None \<Longrightarrow> error_status e \<in> {409, 500}"
  by (auto simp: register_def database_error_def domain_status_cases Let_def split: option.splits if_splits)

interpretation register_described: described_work "register_work sv m argon salt newId errors email password" "{404, 409, 422, 500}"
  RegisteredUserSchema for sv m argon salt newId errors email password
proof
  fix req s e s'
  assume "register_work sv m argon salt newId errors email password req s = (Inl e, s')"
  then show "error_status e \<in> {404, 409, 422, 500}"
    by (auto simp: register_work_def Let_def split: prod.splits sum.splits if_splits
        dest: tenantGuard_status register_status [OF _ tenantGuard_context [THEN conjunct1]])
next
  fix req s p s'
  assume "register_work sv m argon salt newId errors email password req s = (Inr p, s')"
  then show "\<exists>v. p = Bare (Some v) \<and> conforms RegisteredUserSchema v"
    by (auto simp: register_work_def Let_def RegisteredUserSchema_def jget_def split: prod.splits sum.splits if_splits)
qed

lemma controlPlaneGuard_status: "controlPlaneGuard config req = Inl e \<Longrightarrow> domain_status e = 401"
  by (auto simp: controlPlaneGuard_def domain_status_cases Let_def split: option.splits if_splits)

lemma write_step_status: "write_step f x w w1 = (Inl e, w') \<Longrightarrow> error_status (provision_error e) = 500"
  by (auto simp: write_step_def split: fault.splits)

lemma provision_steps_status:
  "registerOrResume fs newId slug name n w = (Inl e, w') \<Longrightarrow> error_status (provision_error e) \<in> {409, 500}"
  "createDatabase fs n w = (Inl e, w') \<Longrightarrow> error_status (provision_error e) = 500"
  "initializeTenantDatabase fs roleId n tid w = (Inl e, w') \<Longrightarrow> error_status (provision_error e) = 500"
  "activateTenant fs tid w = (Inl e, w') \<Longrightarrow> error_status (provision_error e) = 500"
     apply (auto simp: registerOrResume_def domain_status_cases Let_def split: option.splits if_splits dest: write_step_status) [1]
    apply (auto simp: createDatabase_def split: option.splits dest: write_step_status) [1]
   apply (auto simp: initializeTenantDatabase_def Let_def split: option.splits if_splits dest: write_step_status) [1]
  apply (auto simp: activateTenant_def split: option.splits dest: write_step_status) [1]
  done

lemma provision_locked_status:
  "provision_locked fs newId roleId slug name n w = (Inl e, w') \<Longrightarrow> error_status (provision_error e) \<in> {409, 500}"
  using provision_steps_status by (fastforce simp: provision_locked_def split: prod.splits sum.splits)

lemma provision_status:
  assumes "provision sha now fs newId roleId slug name w chain = (Inl e, w', chain', log)"
  shows "error_status (provision_error e) \<in> {409, 500}"
proof -
  have "provisionTenant sha fs newId roleId slug name w = (Inl e, w')"
    using assms by (auto simp: provision_def split: prod.splits sum.splits)
  then show ?thesis
    by (auto simp: provisionTenant_def lockProvisioning_def domain_status_cases Let_def
        split: option.splits if_splits prod.splits sum.splits bool.splits dest: provision_locked_status)
qed

interpretation tenants_described: described_work "tenants_work sv m fs newId roleId errors slug name" "{401, 409, 422, 500}"
  TenantSchema for sv m fs newId roleId errors slug name
proof
  fix req s e s'
  assume "tenants_work sv m fs newId roleId errors slug name req s = (Inl e, s')"
  then show "error_status e \<in> {401, 409, 422, 500}"
    by (auto simp: tenants_work_def split: prod.splits sum.splits if_splits dest: provision_status controlPlaneGuard_status)
next
  fix req s p s'
  assume "tenants_work sv m fs newId roleId errors slug name req s = (Inr p, s')"
  then obtain t where "p = Bare (Some (tenant_json t))"
    by (auto simp: tenants_work_def split: prod.splits sum.splits if_splits)
  then show "\<exists>v. p = Bare (Some v) \<and> conforms TenantSchema v"
    by (cases "tn_status t") (simp_all add: TenantSchema_def tenant_json_def jget_def status_name_def)
qed

section \<open>The document and the service\<close>

text \<open>A problem document meets its schema exactly when it lists no field: the schema of an entry requires a member
  \<open>message\<close>, and what is sent calls it \<open>detail\<close>.\<close>

lemma problem_conforms: "conforms ProblemDetailsSchema (problem_json p) \<longleftrightarrow> pd_errors p = None \<or> pd_errors p = Some []"
proof (cases "pd_errors p")
  case (Some errors)
  then show ?thesis
    by (cases errors) (simp_all add: ProblemDetailsSchema_def problem_json_def FieldProblemSchema_def field_json_def jget_def)
qed (simp add: ProblemDetailsSchema_def problem_json_def jget_def)

fun field_problems :: "body \<Rightarrow> FieldProblem list" where
  "field_problems (Problem p) = (case pd_errors p of None \<Rightarrow> [] | Some errors \<Rightarrow> errors)"
| "field_problems _ = []"

definition documented_statuses :: "Operation \<Rightarrow> nat list" where
  "documented_statuses op = map rp_status (op_responses op)"

definition string_members :: "JWK list \<Rightarrow> bool" where
  "string_members keys \<longleftrightarrow> list_all (list_all (\<lambda>(_, v). case v of JStr _ \<Rightarrow> True | _ \<Rightarrow> False)) keys"

text \<open>How an operation describes refusals: by the problem schema and its media type.\<close>

definition problems_described :: "Operation \<Rightarrow> bool" where
  "problems_described op \<longleftrightarrow>
     list_all (\<lambda>a. rp_status a < 400 \<or> rp_schema a = ProblemDetailsSchema \<and> rp_media a = ''application/problem+json'')
       (op_responses op)"

lemmas operation_defs = users_operation_def register_operation_def login_operation_def tenants_operation_def jwks_operation_def
  health_operation_def ApiCommonErrors_def

lemma operations_problems_described: "problems_described (operation_of call)"
  by (cases call) (simp_all add: problems_described_def operation_defs ApiProblem_def ApiEnvelope_def)

lemma documented_problem:
  assumes "is_problem r" "400 \<le> hr_status r" "problems_described op"
  shows "documented op r \<longleftrightarrow> hr_status r \<in> set (documented_statuses op) \<and> field_problems (hr_body r) = []"
proof -
  obtain p where p: "hr_body r = Problem p" "hr_headers r ''content-type'' = Some ''application/problem+json; charset=utf-8''"
    using assms(1) by (auto simp: is_problem_def)
  have "describes a r \<longleftrightarrow> rp_status a = hr_status r \<and> field_problems (hr_body r) = []" if "a \<in> set (op_responses op)" for a
  proof (cases "rp_status a = hr_status r")
    case True
    with that assms(2,3) have "rp_schema a = ProblemDetailsSchema" "rp_media a = ''application/problem+json''"
      by (auto simp: problems_described_def list_all_iff)
    with p True show ?thesis by (auto simp: describes_def problem_conforms split: option.splits)
  qed (simp add: describes_def)
  then show ?thesis by (force simp: documented_def documented_statuses_def list_ex_iff image_iff)
qed

lemma documented_data:
  assumes "hr_body r = Envelope \<lparr>en_success = True, en_data = v, en_meta = m\<rparr>" "conforms (if isArray then ArrayOf model else model) v"
    and "conforms ResponseMetaSchema (JObj m)" "ApiEnvelope model (hr_status r) isArray \<in> set (op_responses op)"
  shows "documented op r"
proof -
  have "describes (ApiEnvelope model (hr_status r) isArray) r"
    using assms(1-3) by (simp add: describes_def ApiEnvelope_def SuccessEnvelopeSchema_def jget_def)
  with assms(4) show ?thesis by (auto simp: documented_def list_ex_iff)
qed

text \<open>What every response of a decorated route is: data as its entry describes it, or a problem.\<close>

definition answered_as :: "Operation \<Rightarrow> nat set \<Rightarrow> Response \<Rightarrow> bool" where
  "answered_as op statuses r \<longleftrightarrow>
     is_problem r \<and> hr_status r \<in> statuses \<or>
     documented op r \<and> hr_status r \<in> set (documented_statuses op) \<and> hr_status r < 400 \<and> field_problems (hr_body r) = []"

context described_work
begin

lemma route_answered:
  assumes "route sv traceId limit exempt status False work req s = (r, s', log)"
    and "data_schema = (if isArray then ArrayOf model else model)"
    and "ApiEnvelope model status isArray \<in> set (op_responses op)" "status < 400" "insert 429 statuses \<subseteq> allowed"
  shows "answered_as op allowed r"
proof -
  have "status \<in> set (documented_statuses op)"
    using assms(3) by (force simp: documented_statuses_def ApiEnvelope_def Let_def)
  with route_response [OF assms(1)] assms(2-5) show ?thesis
    by (auto simp: answered_as_def intro!: documented_data)
qed

end

lemma jwk_conforms:
  assumes strings: "list_all (\<lambda>(_, v). case v of JStr _ \<Rightarrow> True | _ \<Rightarrow> False) jwk"
  shows "conforms jwk_schema (JObj jwk)"
proof -
  have "case jget jwk k of None \<Rightarrow> True | Some v \<Rightarrow> conforms (StringValue None) v" for k
  proof (cases "jget jwk k")
    case (Some v)
    with strings map_of_SomeD [of jwk k v] show ?thesis by (auto simp: jget_def list_all_iff split: json.splits)
  qed simp
  then show ?thesis by (simp add: jwk_schema_def del: conforms.simps(2))
qed

text \<open>The statuses of the problems that each route may answer with.\<close>

fun problem_statuses :: "call \<Rightarrow> nat set" where
  "problem_statuses GetUsers = {401, 403, 404, 429, 500}"
| "problem_statuses GetJwks = {429}"
| "problem_statuses (GetHealth _) = {}"
| "problem_statuses (PostLogin _ _ _ _ _ _) = {401, 404, 422, 429, 500}"
| "problem_statuses (PostRegister _ _ _ _ _ _) = {404, 409, 422, 429, 500}"
| "problem_statuses (PostTenants _ _ _ _ _ _) = {401, 409, 422, 429, 500}"

lemma get_jwks_answered:
  assumes "get_jwks sv m traceId req s = (r, s', log)"
  shows "is_problem r \<and> hr_status r = 429 \<or>
    hr_status r = 200 \<and> hr_headers r ''content-type'' = Some ''application/jwk-set+json; charset=utf-8'' \<and>
    hr_body r = RawBody (Some (JObj [(''keys'', JArr (map JObj (jwks (rg_snapshot (ax_keys (sy_access s))) (mo_now m))))]))"
proof (cases "route sv traceId None False 200 True
    (\<lambda>_ s. (Inr (Bare (Some (JObj [(''keys'', JArr (map JObj (jwks (rg_snapshot (ax_keys (sy_access s))) (mo_now m))))]))), s)) req s")
  case (fields r1 s1 log1)
  then show ?thesis
  proof (cases rule: route_cases)
    case limited
    with assms fields show ?thesis by (simp add: get_jwks_def)
  next
    case (answered req1 s2 p)
    with assms fields show ?thesis by (auto simp: get_jwks_def intercept_def)
  qed simp
qed

lemma get_jwks_described:
  assumes "get_jwks sv m traceId req s = (r, s', log)" "string_members (jwks (rg_snapshot (ax_keys (sy_access s))) (mo_now m))"
  shows "answered_as jwks_operation {429} r"
proof -
  have "conforms (ObjectOf [(''keys'', ArrayOf jwk_schema)] [''keys'']) (JObj [(''keys'', JArr (map JObj keys))])"
    if "string_members keys" for keys
    using that jwk_conforms by (simp add: jget_def string_members_def list_all_iff)
  with get_jwks_answered [OF assms(1)] assms(2) show ?thesis
    by (auto simp: answered_as_def documented_def describes_def jwks_operation_def documented_statuses_def)
qed

lemma handle_described:
  assumes "handle sv m traceId call req s = (r, s', log)"
    and "string_members (jwks (rg_snapshot (ax_keys (sy_access s))) (mo_now m))" "\<And>report. call \<noteq> GetHealth report"
  shows "answered_as (operation_of call) (problem_statuses call) r"
proof (cases call)
  case GetUsers
  show ?thesis
    using assms(1) unfolding GetUsers handle.simps get_users_def operation_of.simps
    by (rule users_described.route_answered [where model = UserSchema and isArray = True]) (simp_all add: users_operation_def)
next
  case (PostLogin argon salt errors email password ip)
  show ?thesis
    using assms(1) unfolding PostLogin handle.simps post_login_def operation_of.simps
    by (rule login_described.route_answered [where model = AccessTokenSchema and isArray = False]) (simp_all add: login_operation_def)
next
  case (PostRegister argon salt newId errors email password)
  show ?thesis
    using assms(1) unfolding PostRegister handle.simps post_register_def operation_of.simps
    by (rule register_described.route_answered [where model = RegisteredUserSchema and isArray = False]) (simp_all add: register_operation_def)
next
  case (PostTenants fs newId roleId errors slug name)
  show ?thesis
    using assms(1) unfolding PostTenants handle.simps post_tenants_def operation_of.simps
    by (rule tenants_described.route_answered [where model = TenantSchema and isArray = False]) (simp_all add: tenants_operation_def)
next
  case GetJwks
  with assms(1,2) get_jwks_described show ?thesis by simp
qed (use assms(3) in simp)

lemma problem_statuses_documented:
  assumes "n \<in> problem_statuses call"
  shows "400 \<le> n" "n \<in> set (documented_statuses (operation_of call)) \<longleftrightarrow>
    (case call of GetUsers \<Rightarrow> n \<noteq> 404 | GetJwks \<Rightarrow> n \<noteq> 429 | GetHealth _ \<Rightarrow> False | _ \<Rightarrow> True)"
  using assms by (cases call; auto simp: documented_statuses_def operation_defs ApiProblem_def ApiEnvelope_def)+

text \<open>Before a route runs, Fastify reads the body, and Nest turns what it refuses into an \<open>HttpException\<close> that the filter
  renders like any other; no guard has run then. What the code relies on of it: only a \<open>POST\<close> has a body to refuse, with 400
  when it cannot be parsed, 413 when it exceeds the limit and 415 when its media type has no parser.\<close>

type_synonym body_refusal = "(nat \<times> http_body) option"

definition fastify_refuses :: "call \<Rightarrow> body_refusal \<Rightarrow> bool" where
  "fastify_refuses call refused \<longleftrightarrow>
     (case refused of
        None \<Rightarrow> True
      | Some (status, _) \<Rightarrow> op_method (operation_of call) = ''POST'' \<and> status \<in> {400, 413, 415})"

definition answer_request ::
    "body_refusal \<Rightarrow> ('priv, 'pub) Service \<Rightarrow> Moment \<Rightarrow> string \<Rightarrow> call \<Rightarrow> Request \<Rightarrow> ('priv, 'pub) System \<Rightarrow> ('priv, 'pub) answer" where
  "answer_request refused sv m traceId call req s =
     (case refused of
        None \<Rightarrow> handle sv m traceId call req s
      | Some (status, body) \<Rightarrow>
          (case respond (sv_config sv) traceId (rq_context req) 200 False (\<lambda>_. None) (Inl (HttpException status body)) of
             (r, log) \<Rightarrow> (r, s, log)))"

lemma handle_documented:
  assumes "handle sv m traceId call req s = (r, s', log)"
    and "string_members (jwks (rg_snapshot (ax_keys (sy_access s))) (mo_now m))"
  shows "documented (operation_of call) r \<longleftrightarrow>
    field_problems (hr_body r) = [] \<and>
    (case call of GetUsers \<Rightarrow> hr_status r \<noteq> 404 | GetJwks \<Rightarrow> hr_status r \<noteq> 429 | GetHealth _ \<Rightarrow> False
     | _ \<Rightarrow> hr_status r \<notin> {400, 413, 415})"
proof (cases "\<exists>report. call = GetHealth report")
  case True
  then show ?thesis by (auto simp: documented_def health_operation_def)
next
  case False
  with handle_described [OF assms] have "answered_as (operation_of call) (problem_statuses call) r" by blast
  then consider (problem) "is_problem r" "hr_status r \<in> problem_statuses call"
    | (data) "documented (operation_of call) r" "hr_status r < 400" "field_problems (hr_body r) = []"
    by (auto simp: answered_as_def)
  then show ?thesis
  proof cases
    case problem
    have "(case call of GetUsers \<Rightarrow> hr_status r \<noteq> 404 | GetJwks \<Rightarrow> hr_status r \<noteq> 429 | GetHealth _ \<Rightarrow> False | _ \<Rightarrow> True) \<longleftrightarrow>
        (case call of GetUsers \<Rightarrow> hr_status r \<noteq> 404 | GetJwks \<Rightarrow> hr_status r \<noteq> 429 | GetHealth _ \<Rightarrow> False
         | _ \<Rightarrow> hr_status r \<notin> {400, 413, 415})"
      using problem(2) by (cases call) auto
    with problem_statuses_documented [OF problem(2)] show ?thesis
      using documented_problem [OF problem(1) _ operations_problems_described] by (simp only: conj_commute)
  next
    case data
    with False show ?thesis by (cases call) auto
  qed
qed

lemma refused_body:
  assumes "answer_request (Some (status, body)) sv m traceId call req s = (r, s', log)" "fastify_refuses call (Some (status, body))"
  shows "hr_status r = status \<and> s' = s \<and> \<not> documented (operation_of call) r"
proof -
  have r: "is_problem r" "hr_status r = status" "s' = s"
    using assms(1) by (auto simp: answer_request_def split: prod.splits dest: respond_problem)
  have "status \<in> {400, 413, 415}" "op_method (operation_of call) = ''POST''" using assms(2) by (simp_all add: fastify_refuses_def)
  then have "status \<notin> set (documented_statuses (operation_of call))" "400 \<le> status"
    by (cases call; auto simp: documented_statuses_def operation_defs ApiProblem_def ApiEnvelope_def)+
  with r show ?thesis using documented_problem [OF r(1) _ operations_problems_described] by simp
qed

text \<open>C32: The published description is right about every response of every described route, up to the statuses it does not
  mention and the entries of the error list. A response that the application writes (status, body and, where the service sets
  it, content type) meets an entry of its operation exactly when it lists no invalid field, is not the 404 of an unknown tenant
  on the users listing (whose entries are 401, 403 and the common ones), is not the 429 of the key set, is not the 400, 413 or
  415 that Fastify's refusal of a body becomes on a POST, and is not the health report, which has no entry. A refused body is
  answered with its status and changes nothing. Assumed are Fastify's refusals as above, and of the JOSE library that the
  members of a published key are strings.\<close>

theorem responses_match_document:
  assumes "answer_request refused sv m traceId call req s = (r, s', log)" and "fastify_refuses call refused"
    and "string_members (jwks (rg_snapshot (ax_keys (sy_access s))) (mo_now m))"
  shows "(documented (operation_of call) r \<longleftrightarrow>
      field_problems (hr_body r) = [] \<and>
      (case call of GetUsers \<Rightarrow> hr_status r \<noteq> 404 | GetJwks \<Rightarrow> hr_status r \<noteq> 429 | GetHealth _ \<Rightarrow> False
       | _ \<Rightarrow> hr_status r \<notin> {400, 413, 415})) \<and>
    (\<forall>status body. refused = Some (status, body) \<longrightarrow> hr_status r = status \<and> s' = s)"
proof (cases refused)
  case None
  with assms handle_documented show ?thesis by (simp add: answer_request_def)
next
  case (Some x)
  obtain status body where x: "x = (status, body)" by (cases x)
  note refusal = refused_body [OF assms(1,2) [unfolded Some x]]
  have "status \<in> {400, 413, 415}" "op_method (operation_of call) = ''POST''"
    using assms(2) unfolding Some x by (simp_all add: fastify_refuses_def)
  then have "\<not> (case call of GetUsers \<Rightarrow> hr_status r \<noteq> 404 | GetJwks \<Rightarrow> hr_status r \<noteq> 429 | GetHealth _ \<Rightarrow> False
       | _ \<Rightarrow> hr_status r \<notin> {400, 413, 415})"
    using refusal by (cases call) (auto simp: operation_defs)
  with refusal Some x show ?thesis by simp
qed

lemma demo_strings: "string_members (jwks (rg_snapshot (ax_keys (sy_access demo_system))) (mo_now demo_moment))"
  by code_simp

theorem responses_match_document_witness:
  "(\<exists>r s' log. answer_request None demo_service demo_moment ''trace'' GetJwks demo_req demo_system = (r, s', log) \<and>
     (documented jwks_operation r \<longleftrightarrow> field_problems (hr_body r) = [] \<and> hr_status r \<noteq> 429)) \<and>
   (\<exists>r s' log. answer_request (Some (413, BodyString ''Request body is too large'')) demo_service demo_moment ''trace''
        (PostTenants no_faults ''t2'' ''r2'' [] ''beta'' ''Beta'') demo_req demo_system = (r, s', log) \<and>
      hr_status r = 413 \<and> \<not> documented tenants_operation r)"
proof
  show "\<exists>r s' log. answer_request None demo_service demo_moment ''trace'' GetJwks demo_req demo_system = (r, s', log) \<and>
     (documented jwks_operation r \<longleftrightarrow> field_problems (hr_body r) = [] \<and> hr_status r \<noteq> 429)"
  proof (cases "answer_request None demo_service demo_moment ''trace'' GetJwks demo_req demo_system")
    case (fields r s' log)
    from responses_match_document [OF fields _ demo_strings] fields show ?thesis by (simp add: fastify_refuses_def)
  qed
next
  let ?call = "PostTenants no_faults ''t2'' ''r2'' [] ''beta'' ''Beta''"
  let ?refused = "Some (413, BodyString ''Request body is too large'')"
  show "\<exists>r s' log. answer_request ?refused demo_service demo_moment ''trace'' ?call demo_req demo_system = (r, s', log) \<and>
      hr_status r = 413 \<and> \<not> documented tenants_operation r"
  proof (cases "answer_request ?refused demo_service demo_moment ''trace'' ?call demo_req demo_system")
    case (fields r s' log)
    from responses_match_document [OF fields _ demo_strings] fields show ?thesis
      by (simp add: fastify_refuses_def tenants_operation_def)
  qed
qed

text \<open>These statuses do occur: a listing without a tenant header is a 404 that no entry describes.\<close>

lemma users_404_undocumented:
  assumes "handle sv m traceId GetUsers req s = (r, s', log)" "tenantHeader req = None" "hr_status r \<noteq> 429"
  shows "hr_status r = 404 \<and> \<not> documented users_operation r"
proof -
  have header: "tenantHeader (req\<lparr>rq_context := ctx\<rparr>) = None" for ctx
    using assms(2) by (simp add: tenantHeader_def cong: option.case_cong)
  have work: "users_work sv m (req\<lparr>rq_context := ctx\<rparr>) s1 =
      (Inl (Domain (TenantNotFoundError ''(missing x-tenant-id header)'')), s1)" for ctx s1
    by (simp add: users_work_def TenantAuthenticated_def tenantGuard_def header)
  from assms(1) have "route sv traceId None False 200 False (users_work sv m) req s = (r, s', log)" by (simp add: get_users_def)
  then have "is_problem r \<and> hr_status r = 404"
    by (cases rule: route_cases) (use assms(3) work in \<open>auto simp: domain_status_cases\<close>)
  moreover from this have "\<not> documented users_operation r"
    using documented_problem [of r users_operation] operations_problems_described [of GetUsers]
    by (simp add: documented_statuses_def operation_defs ApiProblem_def ApiEnvelope_def)
  ultimately show ?thesis by simp
qed


text \<open>The document is closed and published as configured: it exists exactly when the docs are enabled, each
  reference of each operation names a registered model, operations are distinct by method and path, and each operation
  carries a declared tag.\<close>

lemma document_closed:
  "fst (setupOpenApi config version) = (if cf_apiDocsEnabled config then Some (createDocument version) else None) \<and>
   list_all (\<lambda>op. list_all (\<lambda>a. list_all (\<lambda>n. list_ex (\<lambda>m. n = hd (schema_refs m)) (oa_extraModels (createDocument version)))
     (schema_refs (rp_schema a))) (op_responses op)) (oa_operations (createDocument version)) \<and>
   distinct (map (\<lambda>op. (op_method op, op_path op)) (oa_operations (createDocument version))) \<and>
   list_all (\<lambda>op. op_tag op \<in> set (oa_tags (createDocument version))) (oa_operations (createDocument version))"
proof (intro conjI)
  show "fst (setupOpenApi config version) = (if cf_apiDocsEnabled config then Some (createDocument version) else None)"
    by (simp add: setupOpenApi_def)
qed code_simp+

end
