(* ===== verification/Server.thy ===== *)
theory Server
  imports Api_Document
begin

text \<open>
  The process around the routes: \<open>services/auth/src/main.ts\<close> (\<open>bootstrap\<close> and the options of the HTTP server),
  \<open>common/package-info.ts\<close>, \<open>ratelimit/ratelimit.module.ts\<close> (the Redis client and its life) and
  \<open>scripts/slowloris-probe.mjs\<close>, which attacks a running server and judges its answer. Fastify and ioredis are
  arguments; what the code relies on of them is stated as predicates. Times are milliseconds.
\<close>

section \<open>Package information\<close>

text \<open>\<open>??\<close> on a member of the parsed file; reading a member of \<open>null\<close> raises, of any other value that is no
  object gives \<open>undefined\<close>.\<close>

definition member_or :: "json \<Rightarrow> string \<Rightarrow> json \<Rightarrow> json" where
  "member_or parsed k dflt =
     (case parsed of
        JObj obj \<Rightarrow> (case jget obj k of None \<Rightarrow> dflt | Some JNull \<Rightarrow> dflt | Some v \<Rightarrow> v)
      | _ \<Rightarrow> dflt)"

definition readPackageInfo :: "(string \<Rightarrow> json option) \<Rightarrow> string option \<Rightarrow> json \<times> json" where
  "readPackageInfo parse file =
     (case Option.bind file parse of
        None \<Rightarrow> (JStr ''unknown'', JStr ''unknown'')
      | Some parsed \<Rightarrow>
          if parsed = JNull then (JStr ''unknown'', JStr ''unknown'')
          else (member_or parsed ''name'' (JStr ''unknown''), member_or parsed ''version'' (JStr ''unknown'')))"

section \<open>The HTTP server\<close>

record HttpServerOptions =
  ho_requestTimeout :: int
  ho_connectionsCheckingInterval :: int

record AdapterOptions =
  ao_http :: "HttpServerOptions option"
  ao_requestTimeout :: "int option"
  ao_connectionTimeout :: int
  ao_keepAliveTimeout :: int
  ao_bodyLimit :: int
  ao_trustProxy :: bool

definition adapter_options :: "AppConfig \<Rightarrow> AdapterOptions" where
  "adapter_options config =
     (let httpServerOptions =
        \<lparr>ho_requestTimeout = cf_requestTimeoutMs config,
         ho_connectionsCheckingInterval = cf_connectionsCheckingIntervalMs config\<rparr>
      in \<lparr>ao_http = Some httpServerOptions, ao_requestTimeout = Some (cf_requestTimeoutMs config),
          ao_connectionTimeout = cf_connectionTimeoutMs config, ao_keepAliveTimeout = cf_keepAliveTimeoutMs config,
          ao_bodyLimit = cf_bodyLimitBytes config, ao_trustProxy = cf_trustProxy config\<rparr>)"

text \<open>The timers of a Node server. \<open>http.createServer\<close> derives the header timeout from the request timeout it is
  given (five minutes when it is given none).\<close>

record NodeServer =
  ns_requestTimeout :: int
  ns_headersTimeout :: int
  ns_connectionsCheckingInterval :: int

definition createServer :: "HttpServerOptions option \<Rightarrow> NodeServer" where
  "createServer opts =
     (case opts of
        None \<Rightarrow> \<lparr>ns_requestTimeout = 300000, ns_headersTimeout = 60000, ns_connectionsCheckingInterval = 30000\<rparr>
      | Some h \<Rightarrow>
          \<lparr>ns_requestTimeout = ho_requestTimeout h, ns_headersTimeout = min 60000 (ho_requestTimeout h),
           ns_connectionsCheckingInterval = ho_connectionsCheckingInterval h\<rparr>)"

text \<open>What \<open>main.ts\<close> relies on of Fastify: it hands \<open>http\<close> to \<open>createServer\<close> and then assigns its own
  \<open>requestTimeout\<close>, 0 by default.\<close>

definition fastify_builds :: "(AdapterOptions \<Rightarrow> NodeServer) \<Rightarrow> bool" where
  "fastify_builds fastify \<longleftrightarrow>
     (\<forall>opts. fastify opts =
        (createServer (ao_http opts))\<lparr>ns_requestTimeout := (case ao_requestTimeout opts of None \<Rightarrow> 0 | Some t \<Rightarrow> t)\<rparr>)"

text \<open>And of Node's sweep, \<open>expiry\<close> being the age at which it ends a request whose headers are complete: a
  consistent pair of timeouts is enforced, a disabled or inconsistent one is not.\<close>

definition node_expires :: "(NodeServer \<Rightarrow> int option) \<Rightarrow> bool" where
  "node_expires expiry \<longleftrightarrow>
     (\<forall>s. expiry s =
        (if 0 < ns_requestTimeout s \<and> ns_headersTimeout s \<le> ns_requestTimeout s then Some (ns_requestTimeout s) else None))"

section \<open>Start-up\<close>

record ValidationPipeOptions =
  vp_whitelist :: bool
  vp_forbidNonWhitelisted :: bool
  vp_transform :: bool

datatype boot_step =
    CreateApp AdapterOptions
  | RegisterDefaultHeaders
  | SetGlobalPrefix string "string list"
  | UseGlobalPipes ValidationPipeOptions
  | SetupOpenApi "OpenApiDocument option" "docs_line list"
  | EnableShutdownHooks
  | Listen int string

text \<open>The version of the document is that of \<open>PACKAGE_INFO\<close>. A configuration that does not load raises before
  anything is created.\<close>

definition bootstrap ::
    "(string \<Rightarrow> bool) \<Rightarrow> (string \<Rightarrow> int option) \<Rightarrow> (string list \<Rightarrow> bool) \<Rightarrow> (string list \<Rightarrow> env) \<Rightarrow> string list \<Rightarrow>
     string \<Rightarrow> env \<Rightarrow> (AppConfig \<times> boot_step list) option" where
  "bootstrap isUrl zodInt existsSync readDotenv cwd version env =
     (case loadConfig isUrl zodInt (loadLocalDotenv existsSync readDotenv cwd env) of
        None \<Rightarrow> None
      | Some config \<Rightarrow>
          (case setupOpenApi config version of
             (document, lines) \<Rightarrow>
               Some (config,
                 [CreateApp (adapter_options config), RegisterDefaultHeaders, SetGlobalPrefix ''api'' excluded_paths,
                  UseGlobalPipes \<lparr>vp_whitelist = True, vp_forbidNonWhitelisted = True, vp_transform = True\<rparr>,
                  SetupOpenApi document lines, EnableShutdownHooks, Listen (cf_port config) ''0.0.0.0''])))"

section \<open>The Redis client\<close>

record RedisOptions =
  rx_url :: string
  rx_enableOfflineQueue :: bool
  rx_maxRetriesPerRequest :: nat
  rx_lazyConnect :: bool
  rx_connectTimeout :: int
  rx_keyPrefix :: string

datatype client_status = Waiting | Ready | Reconnecting | Ended

record RedisClient =
  rk_options :: RedisOptions
  rk_status :: client_status

datatype redis_line = FailClosedWarning | StartsDegraded string

definition redis_useFactory :: "AppConfig \<Rightarrow> RedisClient \<times> redis_line list" where
  "redis_useFactory config =
     (\<lparr>rk_options =
         \<lparr>rx_url = cf_redisUrl config, rx_enableOfflineQueue = False, rx_maxRetriesPerRequest = 1, rx_lazyConnect = True,
          rx_connectTimeout = 3000, rx_keyPrefix = keyPrefix\<rparr>,
       rk_status = Waiting\<rparr>,
      if \<not> cf_rateLimitFailOpen config then [FailClosedWarning] else [])"

text \<open>\<open>connect\<close> is the client's; a failure leaves it reconnecting by itself.\<close>

definition onModuleInit :: "(RedisOptions \<Rightarrow> string + unit) \<Rightarrow> RedisClient \<Rightarrow> RedisClient \<times> redis_line list" where
  "onModuleInit connect client =
     (case connect (rk_options client) of
        Inr _ \<Rightarrow> (client\<lparr>rk_status := Ready\<rparr>, [])
      | Inl message \<Rightarrow> (client\<lparr>rk_status := Reconnecting\<rparr>, [StartsDegraded message]))"

text \<open>\<open>quit\<close> sends a command, so it fails on a client that is not ready; \<open>disconnect\<close> then closes it. The second
  component says whether \<open>quit\<close> did it.\<close>

definition onApplicationShutdown :: "(RedisClient \<Rightarrow> bool) \<Rightarrow> RedisClient \<Rightarrow> RedisClient \<times> bool" where
  "onApplicationShutdown quit client = (client\<lparr>rk_status := Ended\<rparr>, quit client)"

datatype command_fate = CommandSent | CommandRejected | CommandParked

text \<open>What the options rely on of ioredis: a command is sent on a ready client; otherwise it is parked in the
  offline queue, or rejected at once when there is none.\<close>

definition ioredis_commands :: "(RedisClient \<Rightarrow> command_fate) \<Rightarrow> bool" where
  "ioredis_commands fate \<longleftrightarrow>
     (\<forall>c. fate c =
        (if rk_status c = Ready then CommandSent else if rx_enableOfflineQueue (rk_options c) then CommandParked else CommandRejected))"

text \<open>The promise of a command. A command that was sent resolves with Redis's reply, rejects when the connection is lost and
  the one retry fails, or stays pending while Redis holds the connection and does not answer: the client sets no
  \<open>commandTimeout\<close>. A parked one stays pending as well.\<close>

datatype promise = Resolves | Rejects | Pending

definition command_promise :: "(RedisClient \<Rightarrow> command_fate) \<Rightarrow> promise \<Rightarrow> RedisClient \<Rightarrow> promise" where
  "command_promise fate sent client =
     (case fate client of CommandSent \<Rightarrow> sent | CommandRejected \<Rightarrow> Rejects | CommandParked \<Rightarrow> Pending)"

text \<open>The store's \<open>consume\<close> awaits it: the reply, or the fail-open policy in its \<open>catch\<close>, or None, a request that waits in
  the guard.\<close>

definition awaited_consume ::
    "promise \<Rightarrow> AppConfig \<Rightarrow> string \<Rightarrow> int \<Rightarrow> int \<Rightarrow> MemberIds \<Rightarrow> Redis \<Rightarrow> RateLimitResult option" where
  "awaited_consume reply config key limit windowMs f r =
     (case reply of
        Resolves \<Rightarrow> Some (fst (consume config key limit windowMs f r))
      | Rejects \<Rightarrow> Some (fst (consume config key limit windowMs f (r\<lparr>rd_up := False\<rparr>)))
      | Pending \<Rightarrow> None)"

section \<open>Closing the pools\<close>

text \<open>\<open>CoreModule\<close> closes the connection manager at shutdown: each tenant's client and pool in the order of the
  cache, then the master's. A call that raises ends it there.\<close>

datatype close_call = Disconnect string | EndPool string | DisconnectMaster | EndMasterPool

fun run_calls :: "(close_call \<Rightarrow> bool) \<Rightarrow> close_call list \<Rightarrow> close_call list \<times> bool" where
  "run_calls raises [] = ([], True)"
| "run_calls raises (c # cs) =
     (if raises c then ([c], False) else (case run_calls raises cs of (made, ok) \<Rightarrow> (c # made, ok)))"

definition tenant_calls :: "(string \<times> string) list \<Rightarrow> close_call list" where
  "tenant_calls cache = concat (map (\<lambda>(_, n). [Disconnect n, EndPool n]) cache)"

definition close_manager ::
    "(close_call \<Rightarrow> bool) \<Rightarrow> (string \<times> string) list \<Rightarrow> close_call list \<times> (string \<times> string) list \<times> bool" where
  "close_manager raises cache =
     (case run_calls raises (tenant_calls cache) of
        (made, ok) \<Rightarrow>
          if \<not> ok then (made, cache, False)
          else (case run_calls raises [DisconnectMaster, EndMasterPool] of (made', ok') \<Rightarrow> (made @ made', [], ok')))"

section \<open>The slow-request probe\<close>

text \<open>\<open>arg\<close>: the value after the first \<open>--name\<close>, unless it is missing or empty.\<close>

fun arg_in :: "string \<Rightarrow> string list \<Rightarrow> string option" where
  "arg_in flag [] = None"
| "arg_in flag (a # rest) =
     (if a = flag then (case rest of [] \<Rightarrow> None | v # _ \<Rightarrow> if v = [] then None else Some v) else arg_in flag rest)"

definition arg :: "string list \<Rightarrow> string \<Rightarrow> string \<Rightarrow> string" where
  "arg argv name fallback = (case arg_in (''--'' @ name) argv of None \<Rightarrow> fallback | Some v \<Rightarrow> v)"

text \<open>\<open>number\<close> is \<open>Number\<close> on the numerals that these settings are.\<close>

definition probe_timeoutMs :: "(string \<Rightarrow> int) \<Rightarrow> string list \<Rightarrow> env \<Rightarrow> int" where
  "probe_timeoutMs number argv env =
     number (arg argv ''timeout-ms'' (case env ''REQUEST_TIMEOUT_MS'' of None \<Rightarrow> ''30000'' | Some v \<Rightarrow> v))"

definition grace :: int where
  "grace = 5000"

datatype probe_verdict =
    ProbePass | NotTimeout "nat option" | TooEarly | TooLate | StillHeld | CouldNotRun

definition finish_probe :: "int \<Rightarrow> nat option \<Rightarrow> int \<Rightarrow> probe_verdict" where
  "finish_probe timeoutMs status elapsed =
     (let deadline = timeoutMs + grace; tooLate = elapsed > deadline; tooEarly = elapsed < timeoutMs - 500 in
      if status \<noteq> Some 408 then NotTimeout status
      else if tooEarly then TooEarly
      else if tooLate then TooLate
      else ProbePass)"

definition digit :: "char \<Rightarrow> nat" where
  "digit c = of_char c - 48"

text \<open>The status of the first line of a chunk, by \<open>HTTP/1.[01] ddd\<close> at its start.\<close>

definition status_of :: "string \<Rightarrow> nat option" where
  "status_of chunk =
     (case chunk of
        h1 # h2 # h3 # h4 # sl # one # dot # minor # sp # a # b # c # _ \<Rightarrow>
          if [h1, h2, h3, h4, sl, one, dot] = ''HTTP/1.'' \<and> minor \<in> set ''01'' \<and> sp = CHR '' '' \<and>
             is_digit a \<and> is_digit b \<and> is_digit c
          then Some (100 * digit a + 10 * digit b + digit c) else None
      | _ \<Rightarrow> None)"

datatype socket_event = Connected | Closed | Fin | Chunk string | SocketError string

text \<open>What happens on the socket, with the time since the start. The first event that decides ends the process,
  unless the timer set at the start fires before it.\<close>

fun probe :: "int \<Rightarrow> (int \<times> socket_event) list \<Rightarrow> probe_verdict" where
  "probe timeoutMs [] = StillHeld"
| "probe timeoutMs ((elapsed, e) # rest) =
     (if elapsed > timeoutMs + grace + 1000 then StillHeld
      else
        (case e of
           Connected \<Rightarrow> probe timeoutMs rest
         | Closed \<Rightarrow> finish_probe timeoutMs None elapsed
         | Fin \<Rightarrow> finish_probe timeoutMs None elapsed
         | Chunk chunk \<Rightarrow> finish_probe timeoutMs (status_of chunk) elapsed
         | SocketError code \<Rightarrow> if code = ''ECONNRESET'' then finish_probe timeoutMs None elapsed else CouldNotRun))"

text \<open>A given flag is used wherever it stands, and only its first occurrence.\<close>

lemma arg_first:
  assumes "''--'' @ name \<notin> set before" "v \<noteq> []"
  shows "arg (before @ (''--'' @ name) # v # rest) name fallback = v"
  using assms(1) by (induction before) (use assms(2) in \<open>auto simp: arg_def\<close>)

lemma arg_absent: "''--'' @ name \<notin> set argv \<Longrightarrow> arg argv name fallback = fallback"
  by (induction argv) (auto simp: arg_def)

section \<open>The timeouts reach the socket\<close>

lemma zod_fields:
  assumes "parse_schema isUrl zodInt source = Some c"
  shows "zod_int zodInt 1 30000 (source ''REQUEST_TIMEOUT_MS'') = Some (cf_requestTimeoutMs c)"
    and "zod_int zodInt 1 5000 (source ''CONNECTIONS_CHECKING_INTERVAL_MS'') = Some (cf_connectionsCheckingIntervalMs c)"
  using assms by (clarsimp simp: parse_schema_def bind_eq_Some_conv)+

lemma loadConfig_timeouts:
  assumes "loadConfig isUrl zodInt source = Some c"
  shows "1 \<le> cf_requestTimeoutMs c" "1 \<le> cf_connectionsCheckingIntervalMs c"
    "cf_connectionsCheckingIntervalMs c < cf_requestTimeoutMs c"
proof -
  have parse: "parse_schema isUrl zodInt source = Some c" and inv: "withInvariants c"
    using assms by (auto simp: loadConfig_def split: option.splits if_splits)
  from zod_fields [OF parse, THEN zod_int_lower] show "1 \<le> cf_requestTimeoutMs c" "1 \<le> cf_connectionsCheckingIntervalMs c"
    by simp_all
  from inv show "cf_connectionsCheckingIntervalMs c < cf_requestTimeoutMs c" by (simp add: withInvariants_def)
qed

text \<open>When a request that began at \<open>start\<close> is ended: at the first sweep at or after its age, sweeps being at
  \<open>phase\<close> and every interval from there.\<close>

definition sweep_at :: "int \<Rightarrow> int \<Rightarrow> int \<Rightarrow> int" where
  "sweep_at interval phase t = t + (phase - t) mod interval"

lemma sweep_at_first:
  assumes "0 < interval"
  shows "t \<le> sweep_at interval phase t" "sweep_at interval phase t < t + interval"
    "\<exists>k. sweep_at interval phase t = phase + k * interval"
    "t \<le> phase + k * interval \<Longrightarrow> sweep_at interval phase t \<le> phase + k * interval"
proof -
  let ?d = "(phase - t) mod interval"
  have d: "0 \<le> ?d" "?d < interval" using assms by simp_all
  then show "t \<le> sweep_at interval phase t" "sweep_at interval phase t < t + interval" by (simp_all add: sweep_at_def)
  have eq: "sweep_at interval phase t = phase + (- ((phase - t) div interval)) * interval"
    using minus_div_mult_eq_mod [of "phase - t" interval] by (simp add: sweep_at_def algebra_simps)
  then show "\<exists>k. sweep_at interval phase t = phase + k * interval" by blast
  assume later: "t \<le> phase + k * interval"
  show "sweep_at interval phase t \<le> phase + k * interval"
  proof (rule ccontr)
    assume "\<not> sweep_at interval phase t \<le> phase + k * interval"
    then have "k * interval < (- ((phase - t) div interval)) * interval" using eq by simp
    then have "k < - ((phase - t) div interval)" using assms mult_less_cancel_right_pos by blast
    then have "(k + 1) * interval \<le> (- ((phase - t) div interval)) * interval" using assms by (intro mult_right_mono) auto
    then have "phase + k * interval + interval \<le> sweep_at interval phase t" using eq by (simp add: algebra_simps)
    with d(2) later show False by (simp add: sweep_at_def)
  qed
qed

text \<open>What a server with an expiry age does to the probe's request, begun at \<open>start\<close>: the sweep that finds it
  old enough answers 408, which arrives after \<open>latency\<close>. A server without one sends nothing.\<close>

definition timeout_events :: "int option \<Rightarrow> int \<Rightarrow> int \<Rightarrow> int \<Rightarrow> int \<Rightarrow> (int \<times> socket_event) list" where
  "timeout_events age interval phase start latency =
     (start, Connected) #
     (case age of
        None \<Rightarrow> []
      | Some a \<Rightarrow> [(sweep_at interval phase (start + a) + latency, Chunk ''HTTP/1.1 408 Request Timeout'')])"

definition built_server :: "(AdapterOptions \<Rightarrow> NodeServer) \<Rightarrow> boot_step list \<Rightarrow> NodeServer option" where
  "built_server fastify steps = (case steps of CreateApp opts # _ \<Rightarrow> Some (fastify opts) | _ \<Rightarrow> None)"

lemma bootstrap_steps:
  assumes "bootstrap isUrl zodInt existsSync readDotenv cwd version env = Some (config, steps)"
  shows "loadConfig isUrl zodInt (loadLocalDotenv existsSync readDotenv cwd env) = Some config"
    "\<exists>rest. steps = CreateApp (adapter_options config) # rest"
  using assms by (auto simp: bootstrap_def split: option.splits prod.splits)

lemma adapter_expiry:
  assumes "fastify_builds fastify" "node_expires expiry" "1 \<le> cf_requestTimeoutMs config"
  shows "expiry (fastify (adapter_options config)) = Some (cf_requestTimeoutMs config)"
    "expiry (fastify ((adapter_options config)\<lparr>ao_http := None\<rparr>)) =
       (if 60000 \<le> cf_requestTimeoutMs config then Some (cf_requestTimeoutMs config) else None)"
    "expiry (fastify ((adapter_options config)\<lparr>ao_requestTimeout := None\<rparr>)) = None"
    "ns_connectionsCheckingInterval (fastify (adapter_options config)) = cf_connectionsCheckingIntervalMs config"
  using assms
  by (simp_all add: fastify_builds_def node_expires_def adapter_options_def createServer_def)

text \<open>C33: A service that starts enforces its request timeout. Its first step creates the server with options whose
  request timeout Node enforces at the configured value, sweeping at a positive interval below it; with the timeout left
  out of the constructor's options it would be enforced only from a minute on, and with it left out of Fastify's own it
  would not be enforced at all, so neither of the two settings is redundant.\<close>

theorem bootstrap_enforces_timeout:
  assumes "bootstrap isUrl zodInt existsSync readDotenv cwd version env = Some (config, steps)"
    and "fastify_builds fastify" "node_expires expiry"
  shows "\<exists>opts rest. steps = CreateApp opts # rest \<and>
    expiry (fastify opts) = Some (cf_requestTimeoutMs config) \<and>
    0 < ns_connectionsCheckingInterval (fastify opts) \<and>
    ns_connectionsCheckingInterval (fastify opts) < cf_requestTimeoutMs config \<and>
    (expiry (fastify (opts\<lparr>ao_http := None\<rparr>)) = None \<longleftrightarrow> cf_requestTimeoutMs config < 60000) \<and>
    expiry (fastify (opts\<lparr>ao_requestTimeout := None\<rparr>)) = None"
  using bootstrap_steps [OF assms(1)] loadConfig_timeouts adapter_expiry [OF assms(2,3)]
  by fastforce

text \<open>Fastify and Node as the hypotheses describe them.\<close>

definition demo_fastify :: "AdapterOptions \<Rightarrow> NodeServer" where
  "demo_fastify opts =
     (createServer (ao_http opts))\<lparr>ns_requestTimeout := (case ao_requestTimeout opts of None \<Rightarrow> 0 | Some t \<Rightarrow> t)\<rparr>"

definition demo_expiry :: "NodeServer \<Rightarrow> int option" where
  "demo_expiry s =
     (if 0 < ns_requestTimeout s \<and> ns_headersTimeout s \<le> ns_requestTimeout s then Some (ns_requestTimeout s) else None)"

lemma demo_server: "fastify_builds demo_fastify" "node_expires demo_expiry"
  by (simp_all add: fastify_builds_def demo_fastify_def node_expires_def demo_expiry_def)

lemma sample_loads:
  obtains c where "loadConfig (\<lambda>_. True) (\<lambda>_. None) sample_env = Some c" "cf_requestTimeoutMs c = 30000"
    "cf_connectionsCheckingIntervalMs c = 5000"
proof -
  have "\<not> sameKeyBytes keyA keyE" using sameKeyBytes_chars [of keyA keyE] by simp
  with that show ?thesis
    by (simp add: loadConfig_def parse_schema_def sample_env_lookups zod_nodeEnv_def zod_int_def
        zod_url_def zod_nonempty_def key256_def withInvariants_def)
qed

theorem bootstrap_enforces_timeout_witness:
  "\<exists>config steps. bootstrap (\<lambda>_. True) (\<lambda>_. None) (\<lambda>_. False) (\<lambda>_. Map.empty) [] ''0.2.0'' sample_env = Some (config, steps) \<and>
     (\<exists>opts rest. steps = CreateApp opts # rest \<and> demo_expiry (demo_fastify opts) = Some (cf_requestTimeoutMs config))"
proof -
  obtain c where "loadConfig (\<lambda>_. True) (\<lambda>_. None) sample_env = Some c" by (rule sample_loads)
  then obtain config steps where
    "bootstrap (\<lambda>_. True) (\<lambda>_. None) (\<lambda>_. False) (\<lambda>_. Map.empty) [] ''0.2.0'' sample_env = Some (config, steps)"
    by (cases "setupOpenApi c ''0.2.0''")
      (simp add: bootstrap_def loadLocalDotenv_def findDotenvFile_def eval_nat_numeral sample_env_lookups)
  with bootstrap_enforces_timeout [OF this demo_server] show ?thesis by blast
qed

lemma finish_pass: "finish_probe timeoutMs (Some 408) elapsed = ProbePass \<longleftrightarrow> timeoutMs - 500 \<le> elapsed \<and> elapsed \<le> timeoutMs + grace"
  by (auto simp: finish_probe_def Let_def)

lemma status_408: "status_of ''HTTP/1.1 408 Request Timeout'' = Some 408"
  by code_simp


lemma probe_timeout_events:
  assumes "0 < interval" "0 \<le> start" "0 \<le> latency" "start \<le> timeoutMs"
  shows "probe timeoutMs (timeout_events (Some timeoutMs) interval phase start latency) = ProbePass \<longleftrightarrow>
    sweep_at interval phase (start + timeoutMs) + latency \<le> timeoutMs + grace"
  using assms sweep_at_first(1) [of interval "start + timeoutMs" phase]
  by (auto simp: timeout_events_def status_408 finish_pass grace_def)

text \<open>The probe passes whatever the phase of the sweep exactly when the time to connect, the sweep interval and the
  latency fit in its grace.\<close>

lemma probe_all_phases:
  assumes "0 < interval" "0 \<le> start" "0 \<le> latency" "start \<le> timeoutMs"
  shows "(\<forall>phase. probe timeoutMs (timeout_events (Some timeoutMs) interval phase start latency) = ProbePass) \<longleftrightarrow>
    start + interval + latency \<le> grace + 1"
proof
  assume "\<forall>phase. probe timeoutMs (timeout_events (Some timeoutMs) interval phase start latency) = ProbePass"
  then have "sweep_at interval (start + timeoutMs - 1) (start + timeoutMs) + latency \<le> timeoutMs + grace"
    using probe_timeout_events [OF assms] by blast
  moreover have "(- 1) mod interval = interval - 1" using assms(1) by (simp add: zmod_minus1)
  ultimately show "start + interval + latency \<le> grace + 1" by (simp add: sweep_at_def)
next
  assume "start + interval + latency \<le> grace + 1"
  then have "sweep_at interval phase (start + timeoutMs) + latency \<le> timeoutMs + grace" for phase
    using sweep_at_first(2) [OF assms(1), of phase "start + timeoutMs"] by linarith
  then show "\<forall>phase. probe timeoutMs (timeout_events (Some timeoutMs) interval phase start latency) = ProbePass"
    using probe_timeout_events [OF assms] by blast
qed

text \<open>The status line of a 408, read off the text.\<close>

lemma digit_char_iff:
  assumes "is_digit c" "n < 10"
  shows "digit c = n \<longleftrightarrow> c = char_of (48 + n)"
proof -
  have c: "48 \<le> (of_char c :: nat)" "(of_char c :: nat) \<le> 57" using assms(1) by (simp_all add: is_digit_def code_unit_def)
  have "of_char (char_of (48 + n) :: char) = (48 + n :: nat)" using assms(2) by simp
  with c show ?thesis unfolding digit_def by (metis diff_add_inverse of_char_eq_iff le_add_diff_inverse)
qed

lemma three_digits:
  assumes "a < 10" "b < 10" "c < 10" "100 * a + 10 * b + c = (408 :: nat)"
  shows "a = 4" "b = 0" "c = 8"
proof -
  have "a = 4" using assms by linarith
  moreover from this have "b = 0" using assms by linarith
  ultimately show "a = 4" "b = 0" "c = 8" using assms by linarith+
qed

lemma digit_less: "is_digit c \<Longrightarrow> digit c < 10"
  by (auto simp: is_digit_def digit_def code_unit_def)

lemma status_408_iff:
  "status_of chunk = Some 408 \<longleftrightarrow> (\<exists>minor rest. minor \<in> set ''01'' \<and> chunk = ''HTTP/1.'' @ minor # '' 408'' @ rest)"
proof
  assume L: "status_of chunk = Some 408"
  then obtain h1 h2 h3 h4 sl one dot minor sp a b c rest where chunk: "chunk = h1 # h2 # h3 # h4 # sl # one # dot # minor # sp # a # b # c # rest"
      and head: "[h1, h2, h3, h4, sl, one, dot] = ''HTTP/1.''" "minor \<in> set ''01''" "sp = CHR '' ''"
      and d: "is_digit a" "is_digit b" "is_digit c" "100 * digit a + 10 * digit b + digit c = 408"
    by (auto simp: status_of_def split: list.splits if_splits)
  have "digit a = 4" "digit b = 0" "digit c = 8"
    using three_digits [OF digit_less [OF d(1)] digit_less [OF d(2)] digit_less [OF d(3)] d(4)] .
  then have "a = CHR ''4''" "b = CHR ''0''" "c = CHR ''8''"
    using digit_char_iff [OF d(1), of 4] digit_char_iff [OF d(2), of 0] digit_char_iff [OF d(3), of 8]
    by (simp_all add: char_of_def bit_iff_odd)
  with chunk head show "\<exists>minor rest. minor \<in> set ''01'' \<and> chunk = ''HTTP/1.'' @ minor # '' 408'' @ rest"
    by (intro exI [of _ minor] exI [of _ rest]) simp
next
  assume "\<exists>minor rest. minor \<in> set ''01'' \<and> chunk = ''HTTP/1.'' @ minor # '' 408'' @ rest"
  then show "status_of chunk = Some 408" by (auto simp: status_of_def digit_def is_digit_def code_unit_def)
qed

lemma finish_None [simp]: "finish_probe timeoutMs None elapsed \<noteq> ProbePass"
  by (simp add: finish_probe_def)

text \<open>Of any sequence of events, a pass needs a 408 as the first that decides, neither too early nor too late.\<close>

lemma probe_pass_iff:
  "probe timeoutMs events = ProbePass \<longleftrightarrow>
     (\<exists>before elapsed chunk rest. events = before @ (elapsed, Chunk chunk) # rest \<and>
        list_all (\<lambda>(t, e). e = Connected \<and> t \<le> timeoutMs + grace + 1000) before \<and>
        status_of chunk = Some 408 \<and> timeoutMs - 500 \<le> elapsed \<and> elapsed \<le> timeoutMs + grace)"
proof (induction events)
  case (Cons x events)
  obtain t e where x: "x = (t, e)" by (cases x)
  have split: "(\<exists>before elapsed chunk rest. (t, e) # events = before @ (elapsed, Chunk chunk) # rest \<and> P before elapsed chunk) \<longleftrightarrow>
      (\<exists>chunk. e = Chunk chunk \<and> P [] t chunk) \<or>
      (\<exists>before elapsed chunk rest. events = before @ (elapsed, Chunk chunk) # rest \<and> P ((t, e) # before) elapsed chunk)" for P
    by (auto simp: Cons_eq_append_conv) metis+
  show ?case
    unfolding x split using Cons.IH by (cases e) (auto simp: finish_probe_def Let_def grace_def)
qed simp

text \<open>C40: The slow-request probe passes on a timely 408 and on nothing else, and so tells the service's server from the ones
  that miss a setting. Whatever happens on the socket, it passes exactly when the first event other than the connection itself
  is a chunk that begins with an HTTP status line of status 408, at least the timeout less half a second and at most the
  timeout plus five seconds after the start. On the server that the start-up configures, reached within the timeout, it passes
  whatever the phase of the sweep exactly when the time to connect, the sweep interval (less the millisecond that a sweep is
  sure to gain) and the latency fit in those five seconds; on a server with either setting of the timeout left out (under a
  minute for the constructor's) it reports that the connection is still held.\<close>

theorem probe_tells_enforcement:
  assumes "loadConfig isUrl zodInt source = Some config" "fastify_builds fastify" "node_expires expiry"
    and "0 \<le> start" "start \<le> cf_requestTimeoutMs config" "0 \<le> latency"
  shows "(probe timeoutMs events = ProbePass \<longleftrightarrow>
      (\<exists>before elapsed minor more rest.
        events = before @ (elapsed, Chunk (''HTTP/1.'' @ minor # '' 408'' @ more)) # rest \<and> minor \<in> set ''01'' \<and>
        list_all (\<lambda>(t, e). e = Connected \<and> t \<le> timeoutMs + 6000) before \<and>
        timeoutMs - 500 \<le> elapsed \<and> elapsed \<le> timeoutMs + 5000)) \<and>
    ((\<forall>phase. probe (cf_requestTimeoutMs config)
        (timeout_events (expiry (fastify (adapter_options config)))
          (ns_connectionsCheckingInterval (fastify (adapter_options config))) phase start latency) = ProbePass) \<longleftrightarrow>
      start + (cf_connectionsCheckingIntervalMs config - 1) + latency \<le> 5000) \<and>
    (cf_requestTimeoutMs config < 60000 \<longrightarrow>
      probe (cf_requestTimeoutMs config)
        (timeout_events (expiry (fastify ((adapter_options config)\<lparr>ao_http := None\<rparr>))) interval phase start latency) = StillHeld) \<and>
    probe (cf_requestTimeoutMs config)
      (timeout_events (expiry (fastify ((adapter_options config)\<lparr>ao_requestTimeout := None\<rparr>))) interval phase start latency) =
      StillHeld"
proof -
  note pos = loadConfig_timeouts [OF assms(1)]
  have "0 < cf_connectionsCheckingIntervalMs config" using pos(2) by simp
  note exact = probe_all_phases [OF this assms(4,6,5)]
  have held: "probe t (timeout_events None interval phase start latency) = StillHeld" for t
    using assms(5) by (simp add: timeout_events_def)
  have "probe timeoutMs events = ProbePass \<longleftrightarrow>
      (\<exists>before elapsed minor more rest.
        events = before @ (elapsed, Chunk (''HTTP/1.'' @ minor # '' 408'' @ more)) # rest \<and> minor \<in> set ''01'' \<and>
        list_all (\<lambda>(t, e). e = Connected \<and> t \<le> timeoutMs + 6000) before \<and>
        timeoutMs - 500 \<le> elapsed \<and> elapsed \<le> timeoutMs + 5000)"
    unfolding probe_pass_iff status_408_iff grace_def by (simp add: add.assoc) blast
  then show ?thesis using adapter_expiry [OF assms(2,3) pos(1)] exact held by (simp add: grace_def algebra_simps)
qed

theorem probe_tells_enforcement_witness:
  "\<exists>config. loadConfig (\<lambda>_. True) (\<lambda>_. None) sample_env = Some config \<and>
     probe 2000 [(3, Connected), (10, Chunk ''HTTP/1.1 408 Request Timeout'')] \<noteq> ProbePass \<and>
     probe 2000 [(3, Connected), (2900, Chunk ''HTTP/1.1 401 Unauthorized'')] \<noteq> ProbePass \<and>
     \<not> (\<forall>phase. probe (cf_requestTimeoutMs config)
         (timeout_events (demo_expiry (demo_fastify (adapter_options config)))
           (ns_connectionsCheckingInterval (demo_fastify (adapter_options config))) phase 1 1) = ProbePass)"
proof -
  obtain c where c: "loadConfig (\<lambda>_. True) (\<lambda>_. None) sample_env = Some c" "cf_requestTimeoutMs c = 30000"
    "cf_connectionsCheckingIntervalMs c = 5000" by (rule sample_loads)
  note all = probe_tells_enforcement [OF c(1) demo_server, of 1 1]
  have early: "probe 2000 [(3, Connected), (10, Chunk ''HTTP/1.1 408 Request Timeout'')] \<noteq> ProbePass"
    using all [of 2000 "[(3, Connected), (10, Chunk ''HTTP/1.1 408 Request Timeout'')]"] c
    by (auto simp: Cons_eq_append_conv)
  have other: "probe 2000 [(3, Connected), (2900, Chunk ''HTTP/1.1 401 Unauthorized'')] \<noteq> ProbePass"
    using all [of 2000 "[(3, Connected), (2900, Chunk ''HTTP/1.1 401 Unauthorized'')]"] c
    by (auto simp: Cons_eq_append_conv)
  have "\<not> (\<forall>phase. probe (cf_requestTimeoutMs c)
      (timeout_events (demo_expiry (demo_fastify (adapter_options c)))
        (ns_connectionsCheckingInterval (demo_fastify (adapter_options c))) phase 1 1) = ProbePass)"
    using all [of 0 "[]" 1 0] c by simp
  with c(1) early other show ?thesis by blast
qed

section \<open>The limiter over its client\<close>

lemma consume_ready: "rd_up r \<Longrightarrow> 1 \<le> limit \<Longrightarrow> \<not> rl_degraded (fst (consume config key limit w f r))"
  by (auto simp: consume_def slidingWindow_alt Let_def split: prod.splits)

lemma consume_down:
  "rl_degraded (fst (consume config key limit w f (r\<lparr>rd_up := False\<rparr>))) \<and>
   (rl_allowed (fst (consume config key limit w f (r\<lparr>rd_up := False\<rparr>))) \<longleftrightarrow> cf_rateLimitFailOpen config)"
  by (simp add: consume_def Let_def split: prod.splits)

text \<open>C34: A client that is not connected never holds a request up, and the first request after a start is counted. Through
  the client the module builds, a check waits exactly when the client is ready and Redis, connected, leaves its command
  unanswered, since no timeout is set on commands; in every other case it has a result, degraded unless the client is ready
  and Redis replied, and a degraded one allows the request exactly under the fail-open setting. After the module's start-up a
  check that Redis replies to if it is sent is degraded exactly when the connection attempt failed. Without the start-up
  connection the first check would be degraded although Redis is up, and with the offline queue it would not return.\<close>

theorem limiter_client_start:
  assumes "ioredis_commands fate" "onModuleInit connect (fst (redis_useFactory config)) = (client, lines)"
    and "rd_up r" "1 \<le> limit"
  shows "(\<forall>status sent.
      case awaited_consume (command_promise fate sent (client\<lparr>rk_status := status\<rparr>)) config key limit w f r of
        None \<Rightarrow> status = Ready \<and> sent = Pending
      | Some res \<Rightarrow> \<not> (status = Ready \<and> sent = Pending) \<and>
          (rl_degraded res \<longleftrightarrow> \<not> (status = Ready \<and> sent = Resolves)) \<and>
          (rl_degraded res \<longrightarrow> (rl_allowed res \<longleftrightarrow> cf_rateLimitFailOpen config))) \<and>
    (\<exists>res. awaited_consume (command_promise fate Resolves client) config key limit w f r = Some res \<and>
      (rl_degraded res \<longleftrightarrow> lines \<noteq> [])) \<and>
    (\<exists>res. awaited_consume (command_promise fate Resolves (fst (redis_useFactory config))) config key limit w f r = Some res \<and>
      rl_degraded res) \<and>
    awaited_consume (command_promise fate sent
        ((fst (redis_useFactory config))\<lparr>rk_options := (rk_options client)\<lparr>rx_enableOfflineQueue := True\<rparr>\<rparr>))
      config key limit w f r = None"
proof -
  note up = consume_ready [OF assms(3,4)] and down = consume_down [of config key limit w f r]
  have client: "rk_options client = rk_options (fst (redis_useFactory config))"
    "rk_status client = (if lines = [] then Ready else Reconnecting)"
    using assms(2) by (auto simp: onModuleInit_def split: sum.splits)
  have promise: "command_promise fate sent c =
      (if rk_status c = Ready then sent else if rx_enableOfflineQueue (rk_options c) then Pending else Rejects)" for sent c
    using assms(1) by (simp add: command_promise_def ioredis_commands_def)
  have "case awaited_consume (command_promise fate sent (client\<lparr>rk_status := status\<rparr>)) config key limit w f r of
        None \<Rightarrow> status = Ready \<and> sent = Pending
      | Some res \<Rightarrow> \<not> (status = Ready \<and> sent = Pending) \<and>
          (rl_degraded res \<longleftrightarrow> \<not> (status = Ready \<and> sent = Resolves)) \<and>
          (rl_degraded res \<longrightarrow> (rl_allowed res \<longleftrightarrow> cf_rateLimitFailOpen config))" for status sent
    using up down by (cases sent) (simp_all add: promise client redis_useFactory_def awaited_consume_def)
  then show ?thesis
    using up down by (auto simp: promise client redis_useFactory_def awaited_consume_def)
qed

definition demo_fate :: "RedisClient \<Rightarrow> command_fate" where
  "demo_fate c = (if rk_status c = Ready then CommandSent else if rx_enableOfflineQueue (rk_options c) then CommandParked else CommandRejected)"

theorem limiter_client_start_witness:
  "(\<exists>res. awaited_consume (command_promise demo_fate Resolves (fst (onModuleInit (\<lambda>_. Inr ()) (fst (redis_useFactory demo_config)))))
     demo_config ''k'' 2 1000 (newMemberIdFactory []) (demo_redis 0) = Some res \<and> \<not> rl_degraded res) \<and>
   (\<exists>res. awaited_consume (command_promise demo_fate Resolves (fst (onModuleInit (\<lambda>_. Inl ''refused'') (fst (redis_useFactory demo_config)))))
     demo_config ''k'' 2 1000 (newMemberIdFactory []) (demo_redis 0) = Some res \<and> rl_degraded res)"
proof -
  have fate: "ioredis_commands demo_fate" by (simp add: ioredis_commands_def demo_fate_def)
  have starts: "onModuleInit (\<lambda>_. Inr ()) (fst (redis_useFactory demo_config)) =
      ((fst (redis_useFactory demo_config))\<lparr>rk_status := Ready\<rparr>, [])"
    "onModuleInit (\<lambda>_. Inl ''refused'') (fst (redis_useFactory demo_config)) =
      ((fst (redis_useFactory demo_config))\<lparr>rk_status := Reconnecting\<rparr>, [StartsDegraded ''refused''])"
    by (simp_all add: onModuleInit_def)
  have up: "rd_up (demo_redis 0)" by (simp add: demo_redis_def)
  show ?thesis
    using limiter_client_start [OF fate starts(1) up, of 2 "''k''" 1000 "newMemberIdFactory []"]
      limiter_client_start [OF fate starts(2) up, of 2 "''k''" 1000 "newMemberIdFactory []"] starts
    by fastforce
qed

section \<open>Shutdown\<close>

lemma run_calls_ok: "snd (run_calls raises cs) \<longleftrightarrow> (\<forall>c \<in> set cs. \<not> raises c)"
  by (induction cs) (auto split: prod.splits)

lemma run_calls_made: "fst (run_calls raises cs) = takeWhile (\<lambda>c. \<not> raises c) cs @ take 1 (dropWhile (\<lambda>c. \<not> raises c) cs)"
  by (induction cs) (auto split: prod.splits)

text \<open>Closing succeeds exactly when no call raises, and then every pool was ended once and the cache is empty; a call
  that raises is the last one made, so the pools behind it stay open.\<close>

lemma close_manager_complete:
  assumes "close_manager raises cache = (made, cache', ok)"
  shows "ok \<longleftrightarrow> (\<forall>c \<in> set (tenant_calls cache @ [DisconnectMaster, EndMasterPool]). \<not> raises c)"
    "ok \<Longrightarrow> made = tenant_calls cache @ [DisconnectMaster, EndMasterPool] \<and> cache' = []"
    "\<not> ok \<Longrightarrow> \<exists>c before rest. made = before @ [c] \<and> raises c \<and> (\<forall>b \<in> set before. \<not> raises b) \<and>
       tenant_calls cache @ [DisconnectMaster, EndMasterPool] = made @ rest"
proof -
  let ?all = "tenant_calls cache @ [DisconnectMaster, EndMasterPool]"
  have append: "run_calls raises (cs @ ds) =
      (if snd (run_calls raises cs) then (fst (run_calls raises cs) @ fst (run_calls raises ds), snd (run_calls raises ds))
       else run_calls raises cs)" for cs ds
    by (induction cs) (auto split: prod.splits)
  have run: "(made, ok) = run_calls raises ?all"
    using assms append [of "tenant_calls cache" "[DisconnectMaster, EndMasterPool]"]
    by (auto simp: close_manager_def split: prod.splits if_splits)
  have empty: "cache' = []" if ok
    using assms that by (auto simp: close_manager_def split: prod.splits if_splits)
  show "ok \<longleftrightarrow> (\<forall>c \<in> set ?all. \<not> raises c)" using run run_calls_ok by (metis snd_conv)
  then show "made = ?all \<and> cache' = []" if ok
    using that empty run run_calls_made [of raises ?all] takeWhile_eq_all_conv dropWhile_eq_Nil_conv
    by (metis append_Nil2 fst_conv take_Nil)
  assume "\<not> ok"
  then have "\<exists>c \<in> set ?all. raises c" using run run_calls_ok [of raises ?all] by (metis snd_conv)
  then obtain before c rest where all: "?all = before @ c # rest" "raises c" "\<forall>b \<in> set before. \<not> raises b"
    using split_list_first_prop [of ?all raises] by blast
  then have "made = before @ [c]"
    using run run_calls_made [of raises ?all] by (simp add: takeWhile_append2 dropWhile_append2 prod_eq_iff)
  with all show "\<exists>c before rest. made = before @ [c] \<and> raises c \<and> (\<forall>b \<in> set before. \<not> raises b) \<and> ?all = made @ rest" by simp
qed

section \<open>Package information\<close>

text \<open>A version is always reported: the string of the file when it has one, \<open>unknown\<close> when the file cannot be read
  or parsed or lacks it.\<close>

lemma readPackageInfo_total:
  "fst (readPackageInfo parse file) \<noteq> JNull \<and> snd (readPackageInfo parse file) \<noteq> JNull"
  by (auto simp: readPackageInfo_def member_or_def split: option.splits json.splits)

lemma readPackageInfo_present:
  "parse text = Some (JObj obj) \<Longrightarrow> jget obj ''version'' = Some (JStr v) \<Longrightarrow>
   snd (readPackageInfo parse (Some text)) = JStr v"
  by (simp add: readPackageInfo_def member_or_def)

end
