(* ===== verification/Spec2Isabelle.thy ===== *)
theory Spec2Isabelle
  imports Isolation Immutability Contention Live_Verification Provisioning_Probe Claims_Gate Cli_Dotenv Server
begin

text \<open>
  A verification library for the compliance-ready backend kit: a multi-tenant authentication service
  with one database per tenant, access tokens that are signed and then encrypted, keys that rotate,
  rate limits, and a tamper-evident audit log.

  \<^bold>\<open>The program and where its parts are modelled.\<close> Paths are below \<open>src/\<close>.

  \<^item> \<open>Kit_Prelude\<close>: JavaScript strings (characters up to U+00FF), UTF-8, decimal numbers, list and map
    lemmas, reachability, and the locale \<open>invariant_system\<close> that every step relation of the library
    interprets. \<open>Base64url\<close>: the encoding the keys are configured in, with its round trip.
  \<^item> \<open>Kit_Common\<close>: \<open>packages/common/src/index.ts\<close>. Tenants, claims, permissions, the wire shapes and the
    domain errors with their title, message and code.
  \<^item> \<open>Audit_Hash\<close>, \<open>Audit_Chain\<close>, \<open>Audit_Concurrency\<close>: \<open>packages/crypto/src/audit-hash.ts\<close>,
    \<open>packages/db/src/audit/audit-writer.ts\<close> and \<open>verify-chain.ts\<close>, \<open>services/auth/src/audit/audit.service.ts\<close>,
    and the constraints of \<open>packages/db/sql\<close>. The canonical form, the hash chain and its verifier; the table,
    the appending transaction and the paged verifier; and the same transaction cut into the statements
    that other sessions may interleave with.
  \<^item> \<open>Kit_Config\<close>: \<open>packages/config/src/index.ts\<close>. The schema and its cross-field rules.
  \<^item> \<open>Rate_Limit\<close>, \<open>Client_Address\<close>, \<open>Rate_Guard\<close>, \<open>Login_Throttle\<close>: \<open>services/auth/src/ratelimit\<close> and
    \<open>auth/login-throttle.service.ts\<close>. The Redis sorted sets the scripts work on, the two scripts, the store with
    its failures, the identity of a client address, the global guard, and the failure counters.
  \<^item> \<open>Auth_Service\<close>: \<open>services/auth/src/auth/auth.service.ts\<close> and \<open>packages/crypto/src/passwords.ts\<close>. The tenant's
    tables as the record \<open>TenantData\<close>, registration and login.
  \<^item> \<open>Key_Material\<close>, \<open>Key_Lifecycle\<close>, \<open>Key_Registry\<close>, \<open>Tokens\<close>: \<open>packages/crypto/src\<close> (\<open>key-provider.ts\<close>,
    \<open>key-material.ts\<close>, \<open>key-loading.ts\<close>, \<open>tokens.ts\<close>), \<open>packages/db/src/keys/manage-keys.ts\<close> and
    \<open>services/auth/src/keys/key-registry.service.ts\<close>, \<open>auth/token.service.ts\<close>. Wrapped keys, the key table and
    the commands on it, the snapshot a process holds, and the nested tokens.
  \<^item> \<open>Provisioning\<close>: \<open>packages/db/src/connection-manager.ts\<close> and \<open>services/auth/src/tenants/tenants.service.ts\<close>. The
    registry, the cluster as a map from names to databases, the four steps of provisioning with a fault
    argument for every statement, and the administrator seed.
  \<^item> \<open>Access\<close>: the guards (\<open>tenancy\<close>, \<open>auth\<close>, \<open>rbac\<close>, \<open>tenants\<close> below \<open>services/auth/src\<close>), the header reader, the
    pool cache and the user list.
  \<^item> \<open>Http\<close> and \<open>Routes\<close>: \<open>services/auth/src/common\<close> and the controllers. Problem details, the envelope, JSON
    pointers, the default headers, and each route as the framework runs it.
  \<^item> \<open>Api_Document\<close>: \<open>services/auth/src/docs\<close> and the documentation decorators of the controllers. The schema classes
    as values of a datatype with a conformance test, the described responses of each operation, the published document.
  \<^item> \<open>Server\<close>: \<open>services/auth/src/main.ts\<close> (start-up and the options of the HTTP server), \<open>common/package-info.ts\<close>,
    \<open>ratelimit/ratelimit.module.ts\<close> (the Redis client and its life), the closing of the pools at shutdown, and
    \<open>scripts/slowloris-probe.mjs\<close>.
  \<^item> \<open>Operator_Tools\<close>, \<open>Cli_Dotenv\<close>: the command lines in \<open>packages/db/src\<close> (keys, token decoder, seed, chain verifier) and
    the dotenv loader they share.
  \<^item> \<open>Live_Verification\<close>: the loop of \<open>verify-chain.ts\<close> while the chain grows under it.
  \<^item> \<open>Immutability\<close>: \<open>packages/db/sql/audit-immutability.sql\<close>, what statements do to a table with its triggers and
    privileges, and \<open>packages/db/src/audit/immutability-probe.ts\<close>.
  \<^item> \<open>Contention\<close>: \<open>packages/db/src/audit/contention-probe.ts\<close>, over the interleaved writers of \<open>Audit_Concurrency\<close>.
  \<^item> \<open>Provisioning_Probe\<close>: \<open>packages/db/src/tenants/provisioning-probe.ts\<close>, scenario by scenario, over \<open>Provisioning\<close>.
  \<^item> \<open>Claims_Gate\<close>: \<open>scripts/verify-claims.mjs\<close> with its evidence registry, and the control table of \<open>COMPLIANCE.md\<close>.
  \<^item> \<open>Histories\<close> and \<open>Isolation\<close>: no code of their own. The first strings the routes and the tools together into
    histories of a deployment; the second compares two deployments that agree on one tenant.

  \<^bold>\<open>How state and operations correspond.\<close> A service with state is a record (\<open>AuthWorld\<close>, \<open>AccessWorld\<close>,
  \<open>KeyRegistryService\<close>, \<open>ProvisionWorld\<close>, \<open>System\<close>) and an operation is a function that returns its result, an
  error on the left, beside the new record. Every throw and early return is a branch. Statements that
  run concurrently are rules of a step relation (\<open>append_step\<close>, \<open>run_step\<close>). Times, random
  values and generated ids are arguments.

  \<^bold>\<open>What is taken from outside.\<close> SHA-256, AES-GCM, Argon2, jose, URL and number parsing, and class-validator
  are arguments of the definitions that call them. What is relied on is named: \<open>gcm_correct\<close>, the two
  directions for jose (\<open>decrypt_sound\<close>, \<open>verify_sound\<close>: what is accepted was made with a key the callback
  returned; \<open>decrypt_complete\<close>, \<open>verify_complete\<close>, \<open>import_pairs\<close>, \<open>header_kept\<close>: what was made with such a key
  is accepted), and for SHA-256 only the width of its digest and, where stated, that the digests
  at hand differ. Of Fastify, Node's sweep and ioredis the code relies on what its comments say of them:
  \<open>fastify_builds\<close>, \<open>node_expires\<close>, \<open>ioredis_commands\<close>, and of Fastify's body reader \<open>fastify_refuses\<close>. Each hypothesis has an instance, used by the witnesses.

  \<^bold>\<open>What the lemmas show.\<close>

  \<^item> Audit: the canonical form determines the evidence; a stored head pins the whole history under it; the
    verifier reports the first break; pages do not change the verdict; an append keeps the chain
    verifiable, alone and interleaved with any number of writers; once the triggers are in place no statement of
    any role changes or removes a row, unless a superuser or the owner lifts the protection, which the model includes as
    commands of their own; the verifier ends on a chain that grows while it reads, without
    a false alarm.
  \<^item> Limits: no window of the given length holds more than its limit, across instances, requests let through
    during an outage apart, which only the fail-open setting admits; the wait a refusal announces is enough; the throttle
    trips exactly when the failures of its window, as a log of all attempts counts them, have reached the limit, and closes
    when Redis is down; an address is counted by its 128-bit number, however it is written.
  \<^item> Identity: a login proves the password and grants the roles' permissions; its failures look alike; the
    token it issues opens exactly what the roles grant, in exactly its tenant; whoever passes the
    guards of a route is entitled to it; denials of an authenticated caller are recorded in the chain of the tenant asked for;
    the control plane opens for its key, sent once, only.
  \<^item> Keys: rotation keeps one active key per purpose and logs nobody out who had a token before it;
    revoked material is gone; the published set is what verifies; the decoder agrees with the
    service. The overlap is the one computed from the settings that the configuration is loaded from; a token issued by an
    instance that has not reloaded after a rotation is cut short by it.
  \<^item> Tenants: whatever fails, dies or interleaves, an active tenant has a database of its own that was
    built for it; provisioning resumes from any point; foreign data is never adopted.
  \<^item> The deployment: along every history of requests, seeds and provisionings all chains stay sound and only
    grow, and the registry stays sound; the answers to one tenant's requests do not depend on what
    other tenants hold or do, and leave it alone.
  \<^item> Probes and gate: the immutability and contention probes pass exactly on what they claim to test; the
    provisioning probe passes on a cluster that works and puts everything back whatever fails in its calls, or fails when it
    cannot remove a tenant; the claims gate
    lets through exactly the documents whose implemented controls have registered evidence.
  \<^item> Wire: one error shape, nothing disclosed by a 500, pointers that name the fields, the user list
    as an entitled caller gets it. The published document is right about every response of every described route, but for
    the statuses it leaves out (the refusals of a body among them) and the entries of \<open>errors\<close>, whose schema names a member
    that is not sent.
  \<^item> The process: the two settings of the request timeout are both needed and together enforce it; the probe
    passes on a timely 408 only, tells such a server from the others, and passes on it for every phase of the sweep exactly
    when the sweep interval fits in its grace; a rate-limit check waits only for a connected Redis that does not answer, and
    is counted from the first request on.

  \<^bold>\<open>Loops and bounds.\<close> No fuel is used: the loops are structural or have a measure (\<open>verify_pages\<close> decreases the
  rows above the last sequence number). \<open>verify_live\<close> takes the list of the tables it reads and answers None while it
  needs more; one read more than the final number of rows is shown to be enough. Sequence numbers and times are unbounded integers, as
  bigint and the milliseconds of a date are far from their limits; the 32-bit lock key is read with its sign.

  \<^bold>\<open>Not modelled.\<close> Dependency injection and the module lists, pool settings, descriptions and examples of the
  OpenAPI document, the text of the tenant DDL, logging formats and the printing commands have no logic of their own.
  The test and lint configuration is read by other tools. Routing a path to its controller and parsing a body are the
  framework's, as are the responses Node writes to a socket itself. Of the DDL on the audit table only the triggers are modelled. Characters above U+00FF are outside the string model; the compact serialisations and identifiers are ASCII.
\<close>

section \<open>From the request to the rows\<close>

lemma users_list_Inr:
  assumes "users_list req w = Inr users" "context_db req = Inr n"
  shows "\<exists>td. tables_of (ax_world w) n = Some td \<and> users = JArr (map user_json (sort_key ur_createdAt (td_users td)))"
  using assms by (auto simp: users_list_def split: option.splits if_splits)

lemma users_work_Inr:
  assumes "users_work sv m req s = (Inr p, s')"
  obtains req' users where "TenantAuthenticated sv m [usersRead] req (sy_access s) = (Inr req', sy_access s')"
    "users_list req' (sy_access s') = Inr users" "p = Bare (Some users)"
  using assms by (auto simp: users_work_def split: prod.splits sum.splits)

text \<open>C13: Whoever reads the user list may. A 200 from the user list route was within its rate limits, came with
  a token that proves its holder entitled to read the users of the tenant the request names, and holds
  the users of that tenant's own database, by creation time, with their count; it is not to be
  cached.\<close>

theorem get_users_serves_the_entitled:
  assumes "decrypt_sound opened (sv_jose sv)" and "verify_sound signs (sv_jose sv)"
    and "world_ok (ax_world (sy_access s))" and "pools_ok (sy_access s)"
    and "get_users sv m traceId req s = (r, s', log)" and "hr_status r = 200"
  shows "\<exists>header row token c td.
    tenantHeader req = Some header \<and> row \<in> set (pw_tenants (ax_world (sy_access s))) \<and> tr_status row = ts_active \<and>
    (if UUID header then tr_id row = toLowerCase header else tr_slug row = header) \<and>
    bearerToken req = Some token \<and> token_proven opened signs sv m token (sy_access s) c \<and>
    cl_tid c = tr_id row \<and> usersRead \<in> set (cl_permissions c) \<and>
    marked_for (ax_world (sy_access s')) (tr_databaseName row) (tr_id row) \<and>
    tables_of (ax_world (sy_access s')) (tr_databaseName row) = Some td \<and>
    hr_body r = Envelope \<lparr>en_success = True, en_data = JArr (map user_json (sort_key ur_createdAt (td_users td))),
      en_meta = [(''totalCount'', JNum (int (length (td_users td))))]\<rparr> \<and>
    hr_headers r ''cache-control'' = Some ''no-store'' \<and>
    list_all rl_allowed (guard_checks (sv_config sv)
      ((rq_context req)\<lparr>rc_isHttp := True, rc_noRateLimit := False, rc_rateLimit := None\<rparr>) (sy_store s))"
proof -
  let ?ctx = "(rq_context req)\<lparr>rc_isHttp := True, rc_noRateLimit := False, rc_rateLimit := None\<rparr>"
  obtain st h p where run: "rateLimitGuard (sv_config sv) ?ctx (sy_store s) (\<lambda>_. None) = (Inr (), st, h)"
      "users_work sv m (req\<lparr>rq_context := ?ctx\<rparr>) (s\<lparr>sy_store := st\<rparr>) = (Inr p, s')"
      "r = \<lparr>hr_status = 200, hr_headers = registerDefaultResponseHeaders h, hr_body = intercept False p\<rparr>"
    using assms(6) by (rule_tac route_success [OF assms(5) [unfolded get_users_def] _ users_work_refusal refl]) auto
  obtain req' users where w: "TenantAuthenticated sv m [usersRead] (req\<lparr>rq_context := ?ctx\<rparr>) (sy_access s) = (Inr req', sy_access s')"
      "users_list req' (sy_access s') = Inr users" "p = Bare (Some users)"
    using users_work_Inr [OF run(2)] by auto
  obtain header row token c where a: "tenantHeader req = Some header" "row \<in> set (pw_tenants (ax_world (sy_access s)))"
      "tr_status row = ts_active" "if UUID header then tr_id row = toLowerCase header else tr_slug row = header"
      "rq_tenantDb req' = Some (tr_databaseName row)"
      "marked_for (ax_world (sy_access s')) (tr_databaseName row) (tr_id row)" "bearerToken req = Some token"
      "token_proven opened signs sv m token (sy_access s) c" "cl_tid c = tr_id row" "usersRead \<in> set (cl_permissions c)"
    using TenantAuthenticated_Inr [OF assms(1-4) _ w(1)] by auto
  obtain td where td: "tables_of (ax_world (sy_access s')) (tr_databaseName row) = Some td"
      "users = JArr (map user_json (sort_key ur_createdAt (td_users td)))"
    using users_list_Inr [OF w(2)] a(5) by (auto simp: context_db_def)
  have "hr_body r = Envelope \<lparr>en_success = True, en_data = users, en_meta = [(''totalCount'', JNum (int (length (td_users td))))]\<rparr>"
    using run(3) w(3) td(2) by (simp add: intercept_def defaultMeta_def)
  moreover have "hr_headers r ''cache-control'' = Some ''no-store''"
    using run(3) rateLimitGuard_Inr [OF run(1)] by (simp add: registerDefaultResponseHeaders_def default_header_def)
  ultimately show ?thesis
    using a td rateLimitGuard_Inr [OF run(1)]
    by (intro exI [of _ header] exI [of _ row] exI [of _ token] exI [of _ c] exI [of _ td]) simp
qed

section \<open>From the login to the route\<close>

lemma tenantGuard_keys: "tenantGuard req w = (x, w') \<Longrightarrow> ax_keys w' = ax_keys w"
  by (auto simp: tenantGuard_def split: option.splits if_splits sum.splits prod.splits)

lemma tenantGuard_bearer: "tenantGuard req w = (Inr req', w') \<Longrightarrow> bearerToken req' = bearerToken req"
  by (auto simp: tenantGuard_def split: option.splits if_splits sum.splits prod.splits)

text \<open>C9: A login opens exactly what the user's roles grant, in exactly that tenant. A token that a login
  issued, presented before it expires to an instance with the same keys, is refused with the
  cross-tenant error at every other tenant; at its own tenant it passes a route if and only if the
  user's roles, as they were at the login, grant every permission the route requires, and is answered
  403 otherwise.\<close>

theorem login_opens_what_roles_grant:
  assumes "config_keys_ok rows" and "active_unlimited rows"
    and "decrypt_complete (sv_jose sv)" and "verify_complete pair (sv_jose sv)" and "import_pairs pair (sv_keyJose sv)"
    and "rg_snapshot keys = load_snapshot (sv_gcm sv) (sv_keyJose sv) (sv_provider sv) rows"
    and "rg_snapshot (ax_keys w) = rg_snapshot keys"
    and "login (sv_sha sv) (sv_config sv) argon salt (issue_with sv m0 keys) at (Some tenant) email password ip aw =
          (Inr token, aw')"
    and "mo_now m div 1000 - cf_jwtClockToleranceSeconds (sv_config sv) <
          mo_now m0 div 1000 + cf_jwtAccessTtlSeconds (sv_config sv)"
    and "tenantGuard req w = (Inr req', w')" and "rq_tenant req' = Some there" and "bearerToken req = Some token"
    and "permissions \<noteq> []"
  shows "\<exists>user c. find_user (aw_db aw) (normaliseEmail email) = Some user \<and>
    verifyPassword argon (ur_passwordHash user) password \<and> cl_sub c = ur_id user \<and> cl_tid c = tn_id tenant \<and>
    fst (TenantAuthenticated sv m permissions req w) =
      (if tn_id there \<noteq> tn_id tenant then Inl (Domain CrossTenantTokenError)
       else if set permissions \<subseteq> granted (aw_db aw) (ur_id user) then Inr (req'\<lparr>rq_user := Some c\<rparr>)
       else Inl (ForbiddenException ''Missing required permission''))"
proof -
  obtain user roles perms where u: "find_user (aw_db aw) (normaliseEmail email) = Some user"
      "verifyPassword argon (ur_passwordHash user) password" "set perms = granted (aw_db aw) (ur_id user)"
      "issue_with sv m0 keys \<lparr>cl_sub = ur_id user, cl_tid = tn_id tenant, cl_roles = roles, cl_permissions = perms\<rparr> = Inr token"
    using login_Inr [OF assms(8)] by blast
  let ?c = "\<lparr>cl_sub = ur_id user, cl_tid = tn_id tenant, cl_roles = roles, cl_permissions = perms\<rparr>"
  have "issue (sv_jose sv) (sv_config sv) (mo_now m0) ?c keys = Inr token"
    using u(4) by (auto simp: issue_with_def split: sum.splits)
  moreover have "rg_snapshot (ax_keys w') = rg_snapshot keys" using tenantGuard_keys [OF assms(10)] assms(7) by simp
  ultimately have "verify_token (sv_gcm sv) (sv_keyJose sv) (sv_provider sv) (sv_jose sv) (sv_config sv)
      (mo_now m) (mo_later m) (mo_rows m) token (ax_keys w') = (Inr ?c, ax_keys w')"
    using assms(9) by (intro issued_token_verifies [OF assms(1-6)]) auto
  then have "accessTokenGuard sv m req' w' =
      (if tn_id tenant \<noteq> tn_id there then Inl (Domain CrossTenantTokenError) else Inr (req'\<lparr>rq_user := Some ?c\<rparr>),
       w'\<lparr>ax_keys := ax_keys w'\<rparr>)"
    using assms(11,12) tenantGuard_bearer [OF assms(10)] by (simp add: accessTokenGuard_def)
  then have "fst (TenantAuthenticated sv m permissions req w) =
      (if tn_id there \<noteq> tn_id tenant then Inl (Domain CrossTenantTokenError)
       else if set permissions \<subseteq> granted (aw_db aw) (ur_id user) then Inr (req'\<lparr>rq_user := Some ?c\<rparr>)
       else Inl (ForbiddenException ''Missing required permission''))"
    using assms(10,13) u(3)
    by (auto simp: TenantAuthenticated_def permissionsGuard_def Let_def filter_empty_conv subset_iff)
  with u(1,2) show ?thesis by (intro exI [of _ user] exI [of _ ?c]) simp
qed

section \<open>The demonstration service\<close>

lemma demo_guard:
  "\<exists>st h. rateLimitGuard demo_config (c\<lparr>rc_isHttp := True, rc_noRateLimit := False, rc_rateLimit := None\<rparr>)
     (newMemberIdFactory [], (demo_redis 0)\<lparr>rd_up := False\<rparr>) (\<lambda>_. None) = (Inr (), st, h)"
  by (auto simp: rateLimitGuard_def consume_def nextMemberId_def Let_def demo_config_def demo_redis_def newMemberIdFactory_def)

lemma demo_users:
  "TenantAuthenticated demo_service demo_moment [usersRead] (demo_req\<lparr>rq_context := c\<rparr>) demo_access =
     (Inr (demo_req\<lparr>rq_context := c,
            rq_tenant := Some \<lparr>tn_id = ''t1'', tn_slug = ''acme'', tn_databaseName = ''tenant_acme'', tn_status = ts_active\<rparr>,
            rq_tenantDb := Some ''tenant_acme'', rq_user := Some demo_claims\<rparr>),
      demo_access\<lparr>ax_pools := [''t1'' \<mapsto> ''tenant_acme''], ax_keys := demo_keys demo_rows\<rparr>)"
  by (simp add: TenantAuthenticated_def tenantGuard_def demo_headers resolveTenant_def getTenantDb_def toTenant_def
      accessTokenGuard_def demo_verify) (simp add: permissionsGuard_def demo_claims_def)

theorem get_users_serves_the_entitled_witness:
  "\<exists>r s' td. get_users demo_service demo_moment ''trace'' demo_req demo_system = (r, s', []) \<and>
     tables_of (ax_world (sy_access s')) ''tenant_acme'' = Some td \<and>
     hr_body r = Envelope \<lparr>en_success = True, en_data = JArr (map user_json (sort_key ur_createdAt (td_users td))),
       en_meta = [(''totalCount'', JNum (int (length (td_users td))))]\<rparr>"
proof -
  let ?run = "get_users demo_service demo_moment ''trace'' demo_req demo_system"
  let ?ctx = "(rq_context demo_req)\<lparr>rc_isHttp := True, rc_noRateLimit := False, rc_rateLimit := None\<rparr>"
  obtain st h where g: "rateLimitGuard demo_config ?ctx (newMemberIdFactory [], (demo_redis 0)\<lparr>rd_up := False\<rparr>) (\<lambda>_. None) =
      (Inr (), st, h)"
    using demo_guard by blast
  have td: "tables_of (ax_world demo_access) ''tenant_acme'' = cd_tables (built ''r1'' ''t1'')"
    by (simp add: demo_access_def tables_of_def)
  have "hr_status (fst ?run) = 200 \<and> snd (snd ?run) = []"
    using g by (simp add: get_users_def route_def demo_system_def users_work_def demo_users users_list_def context_db_def td)
      (simp add: built_def empty_audit_table_def respond_def)
  then have run: "?run = (fst ?run, fst (snd ?run), [])" "hr_status (fst ?run) = 200" by (simp_all add: prod_eq_iff)
  have ok: "decrypt_sound demo_opened (sv_jose demo_service)" "verify_sound demo_signs (sv_jose demo_service)"
      "world_ok (ax_world (sy_access demo_system))" "pools_ok (sy_access demo_system)"
    by (simp_all add: demo_decrypt_sound demo_verify_sound demo_system_def demo_access_ok)
  have rows: "pw_tenants (ax_world (sy_access demo_system)) = [tenant_row ''t1'' ''acme'' ''Acme'' ''tenant_acme'' ts_active]"
    by (simp add: demo_system_def)
  from get_users_serves_the_entitled [OF ok run] rows run(1) show ?thesis by fastforce
qed

text \<open>The user of the demonstration database logs in, and the token opens the user list but not the roles.\<close>

lemma demo_issue_with: "issue_with demo_service (demo_moment\<lparr>mo_now := 2000\<rparr>) (demo_keys demo_rows) demo_claims = Inr ''h.k.i.c.t''"
  by (simp add: issue_with_def demo_issue_token)

lemma demo_login:
  "\<exists>aw'. login sum_digest demo_config demo_argon [] (issue_with demo_service (demo_moment\<lparr>mo_now := 2000\<rparr>) (demo_keys demo_rows))
      [] (Some demo_tenant) '' Ann@X '' ''pw'' ''10.0.0.1'' Auth_Service.demo_world = (Inr ''h.k.i.c.t'', aw')"
proof -
  obtain r where r: "assertWithinLimits sum_digest demo_config (tn_id demo_tenant) '' Ann@X '' ''10.0.0.1''
      (snd (aw_store Auth_Service.demo_world)) = (None, r)"
    using demo_within_limits by blast
  have authz: "loadAuthz (aw_db Auth_Service.demo_world) ''u1'' = ([TENANT_ADMIN_ROLE_NAME], [usersRead])"
    by (simp add: loadAuthz_def Auth_Service.demo_world_def set_order_def)
  have "issue_with demo_service (demo_moment\<lparr>mo_now := 2000\<rparr>) (demo_keys demo_rows)
      \<lparr>cl_sub = ''u1'', cl_tid = ''t1'', cl_roles = [TENANT_ADMIN_ROLE_NAME], cl_permissions = [usersRead]\<rparr> = Inr ''h.k.i.c.t''"
    using demo_issue_with by (simp add: demo_claims_def)
  then show ?thesis
    using login_proven_run [OF r, of _ demo_argon "''pw''" "[]"] authz
    by (simp add: demo_argon_def verifyPassword_def login_proven_def Let_def upgradeHashIfStale_def
        needsRehash_def demo_tenant_def db_up_def empty_audit_table_def split: prod.splits)
qed

theorem login_opens_what_roles_grant_witness:
  "fst (TenantAuthenticated (demo_service\<lparr>sv_sha := sum_digest\<rparr>) demo_moment [rolesManage] demo_req demo_access) =
     Inl (ForbiddenException ''Missing required permission'')"
proof -
  let ?sv = "demo_service\<lparr>sv_sha := sum_digest\<rparr>"
  have issue: "issue_with ?sv = issue_with demo_service" by (simp add: fun_eq_iff issue_with_def)
  obtain aw' where run: "login (sv_sha ?sv) (sv_config ?sv) demo_argon []
      (issue_with ?sv (demo_moment\<lparr>mo_now := 2000\<rparr>) (demo_keys demo_rows)) [] (Some demo_tenant) '' Ann@X '' ''pw'' ''10.0.0.1''
      Auth_Service.demo_world = (Inr ''h.k.i.c.t'', aw')"
    using demo_login unfolding issue by auto
  have keys: "rg_snapshot (demo_keys demo_rows) = load_snapshot (sv_gcm ?sv) (sv_keyJose ?sv) (sv_provider ?sv) demo_rows"
      "rg_snapshot (ax_keys demo_access) = rg_snapshot (demo_keys demo_rows)"
    by (simp_all add: demo_keys_def)
  have complete: "decrypt_complete (sv_jose ?sv)" "verify_complete demo_pair (sv_jose ?sv)" "import_pairs demo_pair (sv_keyJose ?sv)"
    by (simp_all add: demo_decrypt_complete demo_verify_complete demo_import_pairs)
  have "rolesManage \<notin> granted (aw_db Auth_Service.demo_world) ''u1''"
    by (simp add: granted_def Auth_Service.demo_world_def rolesManage_def usersRead_def)
  with login_opens_what_roles_grant [OF demo_rows_ok demo_active_unlimited complete keys run _ demo_tenantGuard, of demo_moment
      _ "[rolesManage]"]
  show ?thesis by (auto simp: demo_headers demo_tenant_def demo_config_def)
qed

end
